(* ===== verification/Cbor_Value.thy ===== *)
theory Cbor_Value
  imports Prelude
begin

text \<open>
  The CBOR data items of the \<open>cbor\<close> crate (\<open>src/cbor/src/value.rs\<close>) and its errors
  (\<open>src/cbor/src/lib.rs\<close>). An \<open>i128\<close> is an integer: the crate only ever builds
  integers between \<open>- 2 ^ 64\<close> and \<open>2 ^ 64 - 1\<close>, and \<open>cbor_ok\<close> states that and the
  bounds Rust's own types give (a \<open>String\<close> is UTF-8, a vector is shorter than the
  address space).
\<close>

section \<open>Data items\<close>

datatype cbor =
  CInteger int
| CBytes bytes
| CText string
| CBool bool
| CNull
| CTag u64 cbor
| CArray "cbor list"
| CMap "(cbor \<times> cbor) list"

definition as_map :: "cbor \<Rightarrow> (cbor \<times> cbor) list option" where
  "as_map v = (case v of CMap entries \<Rightarrow> Some entries | _ \<Rightarrow> None)"

definition as_array :: "cbor \<Rightarrow> cbor list option" where
  "as_array v = (case v of CArray items \<Rightarrow> Some items | _ \<Rightarrow> None)"

definition as_text :: "cbor \<Rightarrow> string option" where
  "as_text v = (case v of CText s \<Rightarrow> Some s | _ \<Rightarrow> None)"

definition as_byte_string :: "cbor \<Rightarrow> bytes option" where
  "as_byte_string v = (case v of CBytes b \<Rightarrow> Some b | _ \<Rightarrow> None)"

definition as_bool :: "cbor \<Rightarrow> bool option" where
  "as_bool v = (case v of CBool b \<Rightarrow> Some b | _ \<Rightarrow> None)"

text \<open>\<open>impl From<t> for Value\<close>: every Rust integer type converts without loss.\<close>

definition cbor_from_int :: "int \<Rightarrow> cbor" where
  "cbor_from_int n = CInteger n"

section \<open>Errors\<close>

text \<open>One constructor for each message the decoder reports.\<close>

datatype cbor_error =
  Unexpected_end
| Not_utf8
| Unsupported_length u8
| Length_too_large
| Bad_chunk
| Float_value
| Stray_break
| Unsupported_simple u8
| Bad_major

section \<open>Well-formed items\<close>

fun cbor_ok :: "cbor \<Rightarrow> bool" where
  "cbor_ok (CInteger i) \<longleftrightarrow> - (2 ^ 64) \<le> i \<and> i < 2 ^ 64"
| "cbor_ok (CBytes b) \<longleftrightarrow> length b < usize_limit"
| "cbor_ok (CText s) \<longleftrightarrow> utf8_ok (as_bytes s) \<and> length s < usize_limit"
| "cbor_ok (CBool b) \<longleftrightarrow> True"
| "cbor_ok CNull \<longleftrightarrow> True"
| "cbor_ok (CTag t v) \<longleftrightarrow> cbor_ok v"
| "cbor_ok (CArray vs) \<longleftrightarrow> length vs < usize_limit \<and> (\<forall>v \<in> set vs. cbor_ok v)"
| "cbor_ok (CMap es) \<longleftrightarrow>
     length es < usize_limit \<and> (\<forall>e \<in> set es. cbor_ok (fst e) \<and> cbor_ok (snd e))"

end
