(* ===== verification/Cbor_Encode.thy ===== *)
theory Cbor_Encode
  imports Cbor_Value
begin

text \<open>
  The CBOR encoder (\<open>src/cbor/src/encode.rs\<close>). The Rust functions push onto an output
  vector; here each returns the bytes it pushes.
\<close>

section \<open>Heads\<close>

text \<open>The major type and the argument in the narrowest of the five forms.\<close>

definition encode_head :: "u8 \<Rightarrow> u64 \<Rightarrow> bytes" where
  "encode_head major arg =
    (let top = push_bit 5 major in
     if arg < 24 then [top OR ucast arg]
     else if arg \<le> 0xFF then [top OR 24, ucast arg]
     else if arg \<le> 0xFFFF then (top OR 25) # be_enc 2 (unat arg)
     else if arg \<le> 0xFFFFFFFF then (top OR 26) # be_enc 4 (unat arg)
     else (top OR 27) # be_enc 8 (unat arg))"

lemma encode_head_not_Nil [simp]: "encode_head major arg \<noteq> []"
  by (simp add: encode_head_def Let_def)

lemma length_encode_head: "length (encode_head major arg) \<in> {1, 2, 3, 5, 9}"
  by (simp add: encode_head_def Let_def)

section \<open>Items\<close>

fun encode_value :: "cbor \<Rightarrow> bytes" where
  "encode_value (CInteger i) =
     (if 0 \<le> i then encode_head 0 (word_of_int i) else encode_head 1 (word_of_int (- 1 - i)))"
| "encode_value (CBytes b) = encode_head 2 (word_of_nat (length b)) @ b"
| "encode_value (CText s) = encode_head 3 (word_of_nat (length s)) @ as_bytes s"
| "encode_value (CArray items) =
     encode_head 4 (word_of_nat (length items)) @ concat (map encode_value items)"
| "encode_value (CMap entries) =
     encode_head 5 (word_of_nat (length entries))
     @ concat (map (\<lambda>e. encode_value (fst e) @ encode_value (snd e)) entries)"
| "encode_value (CTag tag inner) = encode_head 6 tag @ encode_value inner"
| "encode_value (CBool b) = (if b then [0xF5] else [0xF4])"
| "encode_value CNull = [0xF6]"

definition to_vec :: "cbor \<Rightarrow> bytes" where
  "to_vec v = encode_value v"

lemma encode_value_not_Nil [simp]: "encode_value v \<noteq> []"
  by (cases v) simp_all

end
