(* ===== verification/Cbor_Decode.thy ===== *)
theory Cbor_Decode
  imports Cbor_Encode
begin

text \<open>
  The CBOR decoder (\<open>src/cbor/src/decode.rs\<close>). A reader takes the input and the
  position and returns its value with the position after it; on an error the position
  is not returned, and no caller of the crate looks at it then. The recursion of
  \<open>from_slice\<close>, \<open>read_array\<close> and \<open>read_map\<close> is that of the code; it is bounded by
  the bytes that remain, which the termination proof shows.
\<close>

section \<open>Reading bytes\<close>

text \<open>\<open>bytes.get(pos..end)\<close>\<close>

definition slice_get :: "bytes \<Rightarrow> nat \<Rightarrow> nat \<Rightarrow> bytes option" where
  "slice_get bs pos end_pos =
     (if pos \<le> end_pos \<and> end_pos \<le> length bs then Some (take (end_pos - pos) (drop pos bs)) else None)"

definition read_head_byte :: "bytes \<Rightarrow> nat \<Rightarrow> cbor_error + u8 \<times> u8 \<times> nat" where
  "read_head_byte bs pos =
     (if pos < length bs
      then Inr (drop_bit 5 (bs ! pos), bs ! pos AND 0x1F, pos + 1)
      else Inl Unexpected_end)"

definition read_bytes :: "nat \<Rightarrow> bytes \<Rightarrow> nat \<Rightarrow> cbor_error + bytes \<times> nat" where
  "read_bytes n bs pos =
     rbind (ok_or Unexpected_end (checked_add_usize pos n)) (\<lambda>end_pos.
     rbind (ok_or Unexpected_end (slice_get bs pos end_pos)) (\<lambda>slice.
     Inr (slice, end_pos)))"

definition read_arg :: "bytes \<Rightarrow> nat \<Rightarrow> u8 \<Rightarrow> cbor_error + u64 \<times> nat" where
  "read_arg bs pos info =
     (if info \<le> 23 then Inr (ucast info, pos)
      else if info = 24 then
        rbind (read_bytes 1 bs pos) (\<lambda>(b, p). Inr (word_of_nat (be_dec b), p))
      else if info = 25 then
        rbind (read_bytes 2 bs pos) (\<lambda>(b, p). Inr (word_of_nat (be_dec b), p))
      else if info = 26 then
        rbind (read_bytes 4 bs pos) (\<lambda>(b, p). Inr (word_of_nat (be_dec b), p))
      else if info = 27 then
        rbind (read_bytes 8 bs pos) (\<lambda>(b, p). Inr (word_of_nat (be_dec b), p))
      else Inl (Unsupported_length info))"

text \<open>
  \<open>usize::try_from(len)\<close> never fails on a 64-bit target, so \<open>Length_too_large\<close> is not
  reported there.
\<close>

definition usize_of_u64 :: "u64 \<Rightarrow> cbor_error + nat" where
  "usize_of_u64 len = (if unat len < usize_limit then Inr (unat len) else Inl Length_too_large)"

definition read_raw :: "bytes \<Rightarrow> nat \<Rightarrow> u64 \<Rightarrow> cbor_error + bytes \<times> nat" where
  "read_raw bs pos len =
     rbind (usize_of_u64 len) (\<lambda>n.
     rbind (ok_or Unexpected_end (checked_add_usize pos n)) (\<lambda>end_pos.
     rbind (ok_or Unexpected_end (slice_get bs pos end_pos)) (\<lambda>slice.
     Inr (slice, end_pos))))"

definition peek_is_break :: "bytes \<Rightarrow> nat \<Rightarrow> cbor_error + bool" where
  "peek_is_break bs pos =
     (if pos < length bs then Inr (bs ! pos = 0xFF) else Inl Unexpected_end)"

lemma read_head_byte_pos: "read_head_byte bs pos = Inr (major, info, p) \<Longrightarrow> p = pos + 1 \<and> p \<le> length bs"
  by (auto simp: read_head_byte_def split: if_splits)

lemma read_bytes_pos: "read_bytes n bs pos = Inr (b, p) \<Longrightarrow> p = pos + n \<and> p \<le> length bs"
  by (auto simp: read_bytes_def slice_get_def checked_add_usize_def result_simps split: if_splits)

lemma read_arg_pos:
  "read_arg bs pos info = Inr (a, p) \<Longrightarrow> pos \<le> p \<and> (pos \<le> length bs \<longrightarrow> p \<le> length bs)"
  by (auto simp: read_arg_def result_simps dest!: read_bytes_pos split: if_splits)

lemma read_raw_pos: "read_raw bs pos len = Inr (b, p) \<Longrightarrow> p = pos + unat len \<and> p \<le> length bs"
  by (auto simp: read_raw_def usize_of_u64_def slice_get_def checked_add_usize_def result_simps
           split: if_splits)

section \<open>Strings\<close>

text \<open>
  The loop over the chunks of an indefinite-length string: the break byte ends it, and a
  chunk must be a definite-length string of the same major type.
\<close>

function read_chunks :: "bytes \<Rightarrow> nat \<Rightarrow> u8 \<Rightarrow> bytes \<Rightarrow> cbor_error + bytes \<times> nat" where
  "read_chunks bs pos major out =
     rbind (peek_is_break bs pos) (\<lambda>brk.
     if brk then Inr (out, pos + 1)
     else rbind (read_head_byte bs pos) (\<lambda>(chunk_major, chunk_info, p1).
       if chunk_major \<noteq> major \<or> chunk_info = 31 then Inl Bad_chunk
       else rbind (read_arg bs p1 chunk_info) (\<lambda>(len, p2).
         rbind (read_raw bs p2 len) (\<lambda>(chunk, p3). read_chunks bs p3 major (out @ chunk)))))"
  by pat_completeness auto
termination
  by (relation "measure (\<lambda>(bs, pos, _). length bs - pos)")
    (fastforce dest!: read_head_byte_pos read_arg_pos read_raw_pos)+

declare read_chunks.simps [simp del]

definition read_string_bytes :: "bytes \<Rightarrow> nat \<Rightarrow> u8 \<Rightarrow> u8 \<Rightarrow> cbor_error + bytes \<times> nat" where
  "read_string_bytes bs pos info major =
     (if info \<noteq> 31 then rbind (read_arg bs pos info) (\<lambda>(len, p). read_raw bs p len)
      else read_chunks bs pos major [])"

section \<open>Simple values\<close>

definition read_simple :: "u8 \<Rightarrow> cbor_error + cbor" where
  "read_simple info =
     (if info = 20 then Inr (CBool False)
      else if info = 21 then Inr (CBool True)
      else if info = 22 then Inr CNull
      else if info = 23 then Inr CNull
      else if 25 \<le> info \<and> info \<le> 27 then Inl Float_value
      else if info = 31 then Inl Stray_break
      else Inl (Unsupported_simple info))"

lemma read_chunks_pos:
  "read_chunks bs pos major out = Inr (b, p) \<Longrightarrow> pos < p \<and> p \<le> length bs"
proof (induction bs pos major out rule: read_chunks.induct)
  case (1 bs pos major out)
  from "1.prems" obtain brk where brk: "peek_is_break bs pos = Inr brk"
    by (subst (asm) read_chunks.simps) (auto simp: result_simps)
  then have lt: "pos < length bs" by (auto simp: peek_is_break_def split: if_splits)
  show ?case
  proof (cases brk)
    case True
    with "1.prems" brk lt show ?thesis by (subst (asm) read_chunks.simps) simp
  next
    case False
    with "1.prems" brk obtain ci p1 len p2 chunk p3 where
      "read_head_byte bs pos = Inr (major, ci, p1)" "ci \<noteq> 31"
      "read_arg bs p1 ci = Inr (len, p2)" "read_raw bs p2 len = Inr (chunk, p3)"
      "read_chunks bs p3 major (out @ chunk) = Inr (b, p)"
      by (subst (asm) read_chunks.simps) (auto simp: result_simps split: if_splits)
    moreover from this have "p3 < p \<and> p \<le> length bs"
      by (intro "1.IH" [OF brk False]) auto
    ultimately have "p3 < p \<and> p \<le> length bs \<and> pos < p3"
      by (auto dest!: read_head_byte_pos read_arg_pos read_raw_pos)
    then show ?thesis by simp
  qed
qed

lemma read_string_bytes_pos:
  "read_string_bytes bs pos info major = Inr (b, p) \<Longrightarrow> pos \<le> length bs \<Longrightarrow> pos \<le> p \<and> p \<le> length bs"
  by (auto simp: read_string_bytes_def result_simps split: if_splits
      dest!: read_arg_pos read_raw_pos read_chunks_pos)


lemma u8_cases_8:
  "major = 0 \<or> major = 1 \<or> major = 2 \<or> major = 3 \<or> major = 4 \<or> major = 5 \<or> major = 6
   \<or> major = 7 \<or> \<not> major \<le> (7 :: u8)"
  by unat_arith

section \<open>Items\<close>

text \<open>
  One data item at \<open>pos\<close>. \<open>items_to_break\<close> and \<open>entries_to_break\<close> are the
  \<open>while !peek_is_break\<close> loops of the indefinite-length containers, \<open>items_counted\<close>
  and \<open>entries_counted\<close> the \<open>for _ in 0..count\<close> loops of the definite-length ones.
\<close>

function from_slice :: "bytes \<Rightarrow> nat \<Rightarrow> cbor_error + cbor \<times> nat"
  and read_array :: "bytes \<Rightarrow> nat \<Rightarrow> u8 \<Rightarrow> cbor_error + cbor list \<times> nat"
  and items_to_break :: "bytes \<Rightarrow> nat \<Rightarrow> cbor_error + cbor list \<times> nat"
  and items_counted :: "bytes \<Rightarrow> nat \<Rightarrow> nat \<Rightarrow> cbor_error + cbor list \<times> nat"
  and read_map :: "bytes \<Rightarrow> nat \<Rightarrow> u8 \<Rightarrow> cbor_error + (cbor \<times> cbor) list \<times> nat"
  and entries_to_break :: "bytes \<Rightarrow> nat \<Rightarrow> cbor_error + (cbor \<times> cbor) list \<times> nat"
  and entries_counted :: "bytes \<Rightarrow> nat \<Rightarrow> nat \<Rightarrow> cbor_error + (cbor \<times> cbor) list \<times> nat"
where
  "from_slice bs pos =
     rbind (read_head_byte bs pos) (\<lambda>(major, info, p).
       if major = 0 then rbind (read_arg bs p info) (\<lambda>(a, q). Inr (CInteger (int (unat a)), q))
       else if major = 1 then
         rbind (read_arg bs p info) (\<lambda>(a, q). Inr (CInteger (- 1 - int (unat a)), q))
       else if major = 2 then
         rbind (read_string_bytes bs p info 2) (\<lambda>(b, q). Inr (CBytes b, q))
       else if major = 3 then
         rbind (read_string_bytes bs p info 3) (\<lambda>(raw, q).
         rbind (ok_or Not_utf8 (from_utf8 raw)) (\<lambda>s. Inr (CText s, q)))
       else if major = 4 then rbind (read_array bs p info) (\<lambda>(vs, q). Inr (CArray vs, q))
       else if major = 5 then rbind (read_map bs p info) (\<lambda>(es, q). Inr (CMap es, q))
       else if major = 6 then
         rbind (read_arg bs p info) (\<lambda>(tag, q).
         rbind (from_slice bs q) (\<lambda>(inner, r). Inr (CTag tag inner, r)))
       else if major = 7 then rbind (read_simple info) (\<lambda>v. Inr (v, p))
       else Inl Bad_major)"
| "read_array bs pos info =
     (if info = 31 then items_to_break bs pos
      else rbind (read_arg bs pos info) (\<lambda>(c, p).
           rbind (usize_of_u64 c) (\<lambda>count. items_counted bs p count)))"
| "items_to_break bs pos =
     rbind (peek_is_break bs pos) (\<lambda>brk.
       if brk then Inr ([], pos + 1)
       else rbind (from_slice bs pos) (\<lambda>(v, p).
            rbind (items_to_break bs p) (\<lambda>(vs, q). Inr (v # vs, q))))"
| "items_counted bs pos count =
     (if count = 0 then Inr ([], pos)
      else rbind (from_slice bs pos) (\<lambda>(v, p).
           rbind (items_counted bs p (count - 1)) (\<lambda>(vs, q). Inr (v # vs, q))))"
| "read_map bs pos info =
     (if info = 31 then entries_to_break bs pos
      else rbind (read_arg bs pos info) (\<lambda>(c, p).
           rbind (usize_of_u64 c) (\<lambda>count. entries_counted bs p count)))"
| "entries_to_break bs pos =
     rbind (peek_is_break bs pos) (\<lambda>brk.
       if brk then Inr ([], pos + 1)
       else rbind (from_slice bs pos) (\<lambda>(k, p).
            rbind (from_slice bs p) (\<lambda>(v, q).
            rbind (entries_to_break bs q) (\<lambda>(es, r). Inr ((k, v) # es, r)))))"
| "entries_counted bs pos count =
     (if count = 0 then Inr ([], pos)
      else rbind (from_slice bs pos) (\<lambda>(k, p).
           rbind (from_slice bs p) (\<lambda>(v, q).
           rbind (entries_counted bs q (count - 1)) (\<lambda>(es, r). Inr ((k, v) # es, r)))))"
  by pat_completeness auto

lemma decode_pos_dom:
  "from_slice_read_array_items_to_break_items_counted_read_map_entries_to_break_entries_counted_dom
     (Inl (Inl (bs, pos))) \<Longrightarrow> from_slice bs pos = Inr (v, p) \<Longrightarrow> pos < p \<and> p \<le> length bs"
  "from_slice_read_array_items_to_break_items_counted_read_map_entries_to_break_entries_counted_dom
     (Inl (Inr (Inl (bs, pos, info)))) \<Longrightarrow> read_array bs pos info = Inr (vs, p) \<Longrightarrow>
     pos \<le> length bs \<Longrightarrow> pos \<le> p \<and> p \<le> length bs"
  "from_slice_read_array_items_to_break_items_counted_read_map_entries_to_break_entries_counted_dom
     (Inl (Inr (Inr (bs, pos)))) \<Longrightarrow> items_to_break bs pos = Inr (vs, p) \<Longrightarrow>
     pos < p \<and> p \<le> length bs"
  "from_slice_read_array_items_to_break_items_counted_read_map_entries_to_break_entries_counted_dom
     (Inr (Inl (Inl (bs, pos, count)))) \<Longrightarrow> items_counted bs pos count = Inr (vs, p) \<Longrightarrow>
     pos \<le> length bs \<Longrightarrow> pos \<le> p \<and> p \<le> length bs"
  "from_slice_read_array_items_to_break_items_counted_read_map_entries_to_break_entries_counted_dom
     (Inr (Inl (Inr (bs, pos, info)))) \<Longrightarrow> read_map bs pos info = Inr (es, p) \<Longrightarrow>
     pos \<le> length bs \<Longrightarrow> pos \<le> p \<and> p \<le> length bs"
  "from_slice_read_array_items_to_break_items_counted_read_map_entries_to_break_entries_counted_dom
     (Inr (Inr (Inl (bs, pos)))) \<Longrightarrow> entries_to_break bs pos = Inr (es, p) \<Longrightarrow>
     pos < p \<and> p \<le> length bs"
  "from_slice_read_array_items_to_break_items_counted_read_map_entries_to_break_entries_counted_dom
     (Inr (Inr (Inr (bs, pos, count)))) \<Longrightarrow> entries_counted bs pos count = Inr (es, p) \<Longrightarrow>
     pos \<le> length bs \<Longrightarrow> pos \<le> p \<and> p \<le> length bs"
proof (induction arbitrary: v p and vs p and vs p and vs p and es p and es p and es p
  rule: from_slice_read_array_items_to_break_items_counted_read_map_entries_to_break_entries_counted.pinduct)
  case (1 bs pos)
  from "1.prems" obtain major info q where hd: "read_head_byte bs pos = Inr (major, info, q)"
    by (simp add: from_slice.psimps [OF "1.hyps"] result_simps) blast
  then have q: "q = pos + 1" "q \<le> length bs" by (auto dest: read_head_byte_pos)
  note unf = "1.prems" [unfolded from_slice.psimps [OF "1.hyps"] hd rbind_Inr prod.case]
  consider "major = 0" | "major = 1" | "major = 2" | "major = 3" | (arr) "major = 4"
    | (mp) "major = 5" | (tag) "major = 6" | "major = 7" | "\<not> major \<le> 7"
    using u8_cases_8 [of major] by argo
  then have "q \<le> p \<and> p \<le> length bs"
  proof cases
    case arr
    with unf obtain vs where "read_array bs q info = Inr (vs, p)" by (auto simp: result_simps)
    with arr q show ?thesis by (intro "1.IH"(1) [OF hd refl refl]) auto
  next
    case mp
    with unf obtain es where "read_map bs q info = Inr (es, p)" by (auto simp: result_simps)
    with mp q show ?thesis by (intro "1.IH"(2) [OF hd refl refl]) auto
  next
    case tag
    with unf obtain t r w where ra: "read_arg bs q info = Inr (t, r)" and fs: "from_slice bs r = Inr (w, p)"
      by (auto simp: result_simps)
    from tag ra fs have "r < p \<and> p \<le> length bs" by (intro "1.IH"(3) [OF hd refl refl]) auto
    with read_arg_pos [OF ra] q show ?thesis by simp
  qed (insert unf q, auto simp: result_simps dest!: read_arg_pos read_string_bytes_pos split: if_splits)
  with q show ?case by simp
next
  case (2 bs pos info)
  show ?case
  proof (cases "info = 31")
    case True
    with "2.prems"(1) [unfolded read_array.psimps [OF "2.hyps"]] "2.prems"(2) "2.IH"(1) [OF True]
    show ?thesis by auto
  next
    case False
    with "2.prems"(1) [unfolded read_array.psimps [OF "2.hyps"]] obtain c q where ra: "read_arg bs pos info = Inr (c, q)"
      and u: "usize_of_u64 c = Inr (unat c)" and ic: "items_counted bs q (unat c) = Inr (vs, p)"
      by (auto simp: result_simps usize_of_u64_def split: if_splits)
    have "q \<le> length bs" "pos \<le> q" using read_arg_pos [OF ra] "2.prems"(2) by auto
    with "2.IH"(2) [OF False ra refl u ic] show ?thesis by simp
  qed
next
  case (3 bs pos)
  note unf = "3.prems" [unfolded items_to_break.psimps [OF "3.hyps"]]
  then obtain brk where brk: "peek_is_break bs pos = Inr brk" and lt: "pos < length bs"
    by (cases "pos < length bs") (simp_all add: peek_is_break_def)
  show ?case
  proof (cases brk)
    case True
    with unf brk lt show ?thesis by simp
  next
    case False
    with unf brk obtain v q ws where fs: "from_slice bs pos = Inr (v, q)"
      and it: "items_to_break bs q = Inr (ws, p)"
      by (auto simp: result_simps)
    from "3.IH"(1) [OF brk False fs] "3.IH"(2) [OF brk False fs refl it] show ?thesis by simp
  qed
next
  case (4 bs pos count)
  note unf = "4.prems"(1) [unfolded items_counted.psimps [OF "4.hyps"]]
  show ?case
  proof (cases "count = 0")
    case True
    with unf "4.prems"(2) show ?thesis by simp
  next
    case False
    with unf obtain v q ws where fs: "from_slice bs pos = Inr (v, q)"
      and it: "items_counted bs q (count - 1) = Inr (ws, p)"
      by (auto simp: result_simps)
    from "4.IH"(1) [OF False fs] "4.IH"(2) [OF False fs refl it] show ?thesis by simp
  qed
next
  case (5 bs pos info)
  show ?case
  proof (cases "info = 31")
    case True
    with "5.prems"(1) [unfolded read_map.psimps [OF "5.hyps"]] "5.prems"(2) "5.IH"(1) [OF True]
    show ?thesis by auto
  next
    case False
    with "5.prems"(1) [unfolded read_map.psimps [OF "5.hyps"]] obtain c q where ra: "read_arg bs pos info = Inr (c, q)"
      and u: "usize_of_u64 c = Inr (unat c)" and ic: "entries_counted bs q (unat c) = Inr (es, p)"
      by (auto simp: result_simps usize_of_u64_def split: if_splits)
    have "q \<le> length bs" "pos \<le> q" using read_arg_pos [OF ra] "5.prems"(2) by auto
    with "5.IH"(2) [OF False ra refl u ic] show ?thesis by simp
  qed
next
  case (6 bs pos)
  note unf = "6.prems" [unfolded entries_to_break.psimps [OF "6.hyps"]]
  then obtain brk where brk: "peek_is_break bs pos = Inr brk" and lt: "pos < length bs"
    by (cases "pos < length bs") (simp_all add: peek_is_break_def)
  show ?case
  proof (cases brk)
    case True
    with unf brk lt show ?thesis by simp
  next
    case False
    with unf brk obtain k q v r es' where fk: "from_slice bs pos = Inr (k, q)"
      and fv: "from_slice bs q = Inr (v, r)" and it: "entries_to_break bs r = Inr (es', p)"
      by (auto simp: result_simps)
    from "6.IH"(1) [OF brk False fk] "6.IH"(2) [OF brk False fk refl fv]
      "6.IH"(3) [OF brk False fk refl fv refl it] show ?thesis by simp
  qed
next
  case (7 bs pos count)
  note unf = "7.prems"(1) [unfolded entries_counted.psimps [OF "7.hyps"]]
  show ?case
  proof (cases "count = 0")
    case True
    with unf "7.prems"(2) show ?thesis by simp
  next
    case False
    with unf obtain k q v r es' where fk: "from_slice bs pos = Inr (k, q)"
      and fv: "from_slice bs q = Inr (v, r)" and it: "entries_counted bs r (count - 1) = Inr (es', p)"
      by (auto simp: result_simps)
    from "7.IH"(1) [OF False fk] "7.IH"(2) [OF False fk refl fv]
      "7.IH"(3) [OF False fk refl fv refl it] show ?thesis by simp
  qed
qed

text \<open>
  Every call is at a later position, or a loop's call of an item at its own position; so
  the recursion ends on every input.
\<close>

lemma decode_dom: "All from_slice_read_array_items_to_break_items_counted_read_map_entries_to_break_entries_counted_dom"
proof (rule "from_slice_read_array_items_to_break_items_counted_read_map_entries_to_break_entries_counted.termination"
    [of "measures [\<lambda>x. case x of
      Inl (Inl (bs, pos)) \<Rightarrow> length bs - pos
    | Inl (Inr (Inl (bs, pos, info))) \<Rightarrow> length bs - pos
    | Inl (Inr (Inr (bs, pos))) \<Rightarrow> length bs - pos
    | Inr (Inl (Inl (bs, pos, count))) \<Rightarrow> length bs - pos
    | Inr (Inl (Inr (bs, pos, info))) \<Rightarrow> length bs - pos
    | Inr (Inr (Inl (bs, pos))) \<Rightarrow> length bs - pos
    | Inr (Inr (Inr (bs, pos, count))) \<Rightarrow> length bs - pos,
   \<lambda>x. case x of
      Inl (Inl _) \<Rightarrow> 0
    | Inl (Inr (Inl _)) \<Rightarrow> 2
    | Inl (Inr (Inr _)) \<Rightarrow> 1
    | Inr (Inl (Inl _)) \<Rightarrow> 1
    | Inr (Inl (Inr _)) \<Rightarrow> 2
    | Inr (Inr _) \<Rightarrow> (1 :: nat)]"])
qed (auto dest!: read_head_byte_pos read_arg_pos decode_pos_dom)

termination from_slice
  by (rule decode_dom)

text \<open>
  The equations call each other without end when used as rewrite rules, so they are
  applied one at a time.
\<close>

declare from_slice.simps [simp del] read_array.simps [simp del] items_to_break.simps [simp del]
  items_counted.simps [simp del] read_map.simps [simp del] entries_to_break.simps [simp del]
  entries_counted.simps [simp del]

lemmas decode_induct =
  from_slice_read_array_items_to_break_items_counted_read_map_entries_to_break_entries_counted.induct

lemma from_slice_pos: "from_slice bs pos = Inr (v, p) \<Longrightarrow> pos < p \<and> p \<le> length bs"
  by (rule decode_pos_dom(1) [OF decode_dom [rule_format]])

end
