(* ===== verification/Cbor_Grammar.thy ===== *)
theory Cbor_Grammar
  imports Cbor_Decode
begin

text \<open>
  What the CBOR decoder is for: the encodings of RFC 8949 that the crate supports, as a
  grammar on byte strings with no positions. \<open>head\<close> is a major type and argument in any of
  the five widths, \<open>cbor_item b v\<close> says that \<open>b\<close> is an encoding of \<open>v\<close>, definite or
  indefinite. The decoder accepts exactly these encodings (\<open>from_slice_sound\<close>,
  \<open>from_slice_complete\<close>).
\<close>

section \<open>The grammar\<close>

inductive head :: "u8 \<Rightarrow> u64 \<Rightarrow> bytes \<Rightarrow> bool" where
  direct: "n \<le> 23 \<Longrightarrow> head m (ucast n) [push_bit 5 m OR n]"
| wide: "(info, length b) \<in> {(24, 1), (25, 2), (26, 4), (27, 8)} \<Longrightarrow>
     head m (word_of_nat (be_dec b)) ((push_bit 5 m OR info) # b)"

inductive chunks :: "u8 \<Rightarrow> bytes \<Rightarrow> bytes \<Rightarrow> bool" where
  chunks_Nil: "chunks m [] []"
| chunks_Cons: "head m a h \<Longrightarrow> length b = unat a \<Longrightarrow> chunks m c d \<Longrightarrow> chunks m (h @ b @ c) (b @ d)"

inductive cbor_item :: "bytes \<Rightarrow> cbor \<Rightarrow> bool"
  and cbor_items :: "bytes \<Rightarrow> cbor list \<Rightarrow> bool"
  and cbor_entries :: "bytes \<Rightarrow> (cbor \<times> cbor) list \<Rightarrow> bool"
where
  item_uint: "head 0 a h \<Longrightarrow> cbor_item h (CInteger (uint a))"
| item_nint: "head 1 a h \<Longrightarrow> cbor_item h (CInteger (- 1 - uint a))"
| item_bytes: "head 2 a h \<Longrightarrow> length b = unat a \<Longrightarrow> cbor_item (h @ b) (CBytes b)"
| item_bytes_indef: "chunks 2 c b \<Longrightarrow> cbor_item (0x5F # c @ [0xFF]) (CBytes b)"
| item_text: "head 3 a h \<Longrightarrow> length b = unat a \<Longrightarrow> utf8_ok b \<Longrightarrow> cbor_item (h @ b) (CText (from_bytes b))"
| item_text_indef: "chunks 3 c b \<Longrightarrow> utf8_ok b \<Longrightarrow> cbor_item (0x7F # c @ [0xFF]) (CText (from_bytes b))"
| item_array: "head 4 a h \<Longrightarrow> length vs = unat a \<Longrightarrow> cbor_items c vs \<Longrightarrow> cbor_item (h @ c) (CArray vs)"
| item_array_indef: "cbor_items c vs \<Longrightarrow> cbor_item (0x9F # c @ [0xFF]) (CArray vs)"
| item_map: "head 5 a h \<Longrightarrow> length es = unat a \<Longrightarrow> cbor_entries c es \<Longrightarrow> cbor_item (h @ c) (CMap es)"
| item_map_indef: "cbor_entries c es \<Longrightarrow> cbor_item (0xBF # c @ [0xFF]) (CMap es)"
| item_tag: "head 6 t h \<Longrightarrow> cbor_item c v \<Longrightarrow> cbor_item (h @ c) (CTag t v)"
| item_false: "cbor_item [0xF4] (CBool False)"
| item_true: "cbor_item [0xF5] (CBool True)"
| item_null: "cbor_item [0xF6] CNull"
| item_undefined: "cbor_item [0xF7] CNull"
| items_Nil: "cbor_items [] []"
| items_Cons: "cbor_item b v \<Longrightarrow> cbor_items c vs \<Longrightarrow> cbor_items (b @ c) (v # vs)"
| entries_Nil: "cbor_entries [] []"
| entries_Cons: "cbor_item b k \<Longrightarrow> cbor_item b' v \<Longrightarrow> cbor_entries c es \<Longrightarrow>
     cbor_entries (b @ b' @ c) ((k, v) # es)"

section \<open>Heads\<close>

lemma head_byte_parts:
  assumes "unat major < 8" "unat info < 32"
  shows "drop_bit 5 (push_bit 5 major OR info) = (major :: u8)"
    and "(push_bit 5 major OR info) AND 0x1F = (info :: u8)"
proof -
  have i: "take_bit 5 info = info"
    using assms(2) by (simp add: word_unat_eq_iff unsigned_take_bit_eq take_bit_nat_eq_self_iff)
  have m: "take_bit 3 major = major"
    using assms(1) by (simp add: word_unat_eq_iff unsigned_take_bit_eq take_bit_nat_eq_self_iff)
  show "drop_bit 5 (push_bit 5 major OR info) = major"
  proof (rule bit_word_eqI)
    fix n assume n: "n < LENGTH(8)"
    have "bit major n \<longleftrightarrow> n < 3 \<and> bit major n"
      by (subst m [symmetric]) (simp add: bit_take_bit_iff)
    moreover have "\<not> bit info (5 + n)"
      by (subst i [symmetric]) (simp add: bit_take_bit_iff)
    ultimately show "bit (drop_bit 5 (push_bit 5 major OR info)) n \<longleftrightarrow> bit major n"
      by (auto simp: bit_drop_bit_eq bit_or_iff bit_push_bit_iff)
  qed
  have mask: "(0x1F :: u8) = mask 5" by (simp add: mask_eq_exp_minus_1)
  show "(push_bit 5 major OR info) AND 0x1F = info"
    unfolding mask
    by (subst i [symmetric], rule bit_word_eqI)
      (auto simp: bit_take_bit_iff bit_and_iff bit_or_iff bit_push_bit_iff bit_mask_iff)
qed

lemma head_byte_split: "push_bit 5 (drop_bit 5 b) OR (b AND 0x1F) = (b :: u8)"
proof -
  have mask: "(0x1F :: u8) = mask 5" by (simp add: mask_eq_exp_minus_1)
  show ?thesis unfolding mask
    by (rule bit_word_eqI)
      (auto simp: bit_or_iff bit_and_iff bit_push_bit_iff bit_drop_bit_eq bit_mask_iff)
qed

text \<open>
  \<open>head_at bs pos major arg q\<close>: at \<open>pos\<close> the decoder reads a definite-length head of
  that major type and argument and goes on at \<open>q\<close>. \<open>sub bs p q\<close> are the bytes from
  \<open>p\<close> up to \<open>q\<close>.
\<close>

definition head_at :: "bytes \<Rightarrow> nat \<Rightarrow> u8 \<Rightarrow> u64 \<Rightarrow> nat \<Rightarrow> bool" where
  "head_at bs pos major arg q \<longleftrightarrow>
     (\<exists>info. read_head_byte bs pos = Inr (major, info, pos + 1) \<and> info \<noteq> 31
        \<and> read_arg bs (pos + 1) info = Inr (arg, q))"

definition sub :: "bytes \<Rightarrow> nat \<Rightarrow> nat \<Rightarrow> bytes" where
  "sub bs p q = take (q - p) (drop p bs)"

lemma sub_same [simp]: "sub bs p p = []"
  by (simp add: sub_def)

lemma sub_split:
  assumes "p \<le> q" "q \<le> r"
  shows "sub bs p r = sub bs p q @ sub bs q r"
proof -
  have "drop q bs = drop (q - p) (drop p bs)" using assms(1) by simp
  moreover have "r - p = (q - p) + (r - q)" using assms by simp
  ultimately show ?thesis by (simp only: sub_def take_add)
qed

lemma sub_Suc: "p < length bs \<Longrightarrow> sub bs p (Suc p) = [bs ! p]"
  by (simp add: sub_def take_Suc_conv_app_nth hd_drop_conv_nth take_Suc hd_conv_nth)

lemma length_sub [simp]: "q \<le> length bs \<Longrightarrow> length (sub bs p q) = q - p"
  by (simp add: sub_def)

lemma read_bytes_append:
  assumes "length (pre @ b @ rest) < usize_limit"
  shows "read_bytes (length b) (pre @ b @ rest) (length pre) = Inr (b, length pre + length b)"
  using assms by (simp add: read_bytes_def checked_add_usize_def slice_get_def)

lemma head_at_append:
  assumes "head major arg h" "unat major < 8" "length (pre @ h @ rest) < usize_limit"
  shows "head_at (pre @ h @ rest) (length pre) major arg (length pre + length h)"
  using assms
proof (cases rule: head.cases)
  case (direct n)
  then have n: "unat n < 32" "n \<noteq> 31" by (auto simp: word_le_nat_alt)
  note parts = head_byte_parts [OF assms(2) n(1)]
  have "read_head_byte (pre @ h @ rest) (length pre) = Inr (major, n, length pre + 1)"
    using direct parts by (simp add: read_head_byte_def del: drop_bit_or)
  with direct n show ?thesis
    by (auto simp: head_at_def read_arg_def)
next
  case (wide info b)
  then have i: "unat info < 32" "info \<noteq> 31" by auto
  have "read_bytes (length b) (pre @ h @ rest) (Suc (length pre)) = Inr (b, Suc (length pre) + length b)"
    using read_bytes_append [of "pre @ [push_bit 5 major OR info]" b rest] wide assms(3) by simp
  moreover note parts = head_byte_parts [OF assms(2) i(1)]
  have "read_head_byte (pre @ h @ rest) (length pre) = Inr (major, info, length pre + 1)"
    using wide parts by (simp add: read_head_byte_def del: drop_bit_or)
  ultimately show ?thesis
    using wide i by (auto simp: head_at_def read_arg_def)
qed

lemma read_bytes_sub:
  assumes "read_bytes n bs pos = Inr (b, q)"
  shows "b = sub bs pos q" "q = pos + n" "q \<le> length bs"
  using assms
  by (auto simp: read_bytes_def checked_add_usize_def slice_get_def sub_def result_simps split: if_splits)

lemma head_of_head_at:
  assumes "head_at bs pos major arg q"
  shows "head major arg (sub bs pos q) \<and> pos < q \<and> q \<le> length bs"
proof -
  from assms obtain info where hd: "read_head_byte bs pos = Inr (major, info, pos + 1)"
    and ra: "read_arg bs (pos + 1) info = Inr (arg, q)" by (auto simp: head_at_def)
  from hd have lt: "pos < length bs" and b: "bs ! pos = push_bit 5 major OR info"
    using head_byte_split [of "bs ! pos"] by (auto simp: read_head_byte_def split: if_splits)
  show ?thesis
  proof (cases "info \<le> 23")
    case True
    with ra lt b show ?thesis
      by (auto simp: read_arg_def sub_Suc intro: head.direct)
  next
    case False
    with ra obtain n w where n: "(info, n) \<in> {(24, 1), (25, 2), (26, 4), (27, 8)}"
      and w: "read_bytes n bs (pos + 1) = Inr (w, q)" and arg: "arg = word_of_nat (be_dec w)"
      by (auto simp: read_arg_def result_simps split: if_splits)
    note w = read_bytes_sub [OF w]
    have "sub bs pos q = sub bs pos (Suc pos) @ sub bs (Suc pos) q"
      using w(2) by (intro sub_split) simp_all
    with w(1) lt b have "sub bs pos q = (push_bit 5 major OR info) # w" by (simp add: sub_Suc)
    moreover have "length w = n" using w by simp
    ultimately show ?thesis using n w(2,3) arg by (auto intro: head.wide)
  qed
qed

lemma head_Cons: "head m a h \<Longrightarrow> unat m < 8 \<Longrightarrow> \<exists>b t. h = b # t \<and> b \<noteq> 0xFF"
proof (erule head.cases, goal_cases)
  case (1 n m')
  then have "unat n < 32" by (simp add: word_le_nat_alt)
  with 1 head_byte_parts(2) [of m n] show ?case by auto
next
  case (2 info b m')
  then have "unat info < 32" by auto
  with 2 head_byte_parts(2) [of m info] show ?case by auto
qed

text \<open>The encoder's head is one of the grammar's, and a shortest one.\<close>

lemma head_encode_head: "head major arg (encode_head major arg)"
proof (cases "arg < 24")
  case True
  then have lt: "unat arg < 24" by (simp add: word_less_nat_alt)
  then have "(ucast arg :: u8) \<le> 23" "ucast (ucast arg :: u8) = arg"
    by (simp_all add: word_le_nat_alt word_unat_eq_iff unsigned_ucast_eq unsigned_take_bit_eq
        take_bit_nat_eq_self)
  with True head.direct [of "ucast arg" major] show ?thesis by (simp add: encode_head_def)
next
  case False
  have one: "[ucast arg] = be_enc 1 (unat arg)" by (simp add: word_unat_eq_iff)
  have "head major arg ((push_bit 5 major OR info) # be_enc n (unat arg))"
    if "(info, n) \<in> {(24, 1), (25, 2), (26, 4), (27, 8)}" "unat arg < 256 ^ n" for info n
    using that head.wide [of info "be_enc n (unat arg)" major] by (simp add: be_simps)
  moreover have "arg \<le> 0xFF \<Longrightarrow> unat arg < 256 ^ 1" "arg \<le> 0xFFFF \<Longrightarrow> unat arg < 256 ^ 2"
    "arg \<le> 0xFFFFFFFF \<Longrightarrow> unat arg < 256 ^ 4" "unat arg < 256 ^ 8"
    using unsigned_less [of arg] by (auto simp: word_le_nat_alt)
  ultimately show ?thesis
    using False by (auto simp: encode_head_def Let_def one simp del: be_enc.simps)
qed

lemma head_shortest: "head major arg h \<Longrightarrow> length (encode_head major arg) \<le> length h"
proof (erule head.cases, goal_cases)
  case (1 n m)
  then have "unat (ucast n :: u64) < 24"
    by (simp add: word_le_nat_alt unsigned_ucast_eq unsigned_take_bit_eq take_bit_nat_eq_self)
  with 1 show ?case by (simp add: encode_head_def word_less_nat_alt)
next
  case (2 info b m)
  have "unat arg \<le> be_dec b" using 2 by (simp add: unat_of_nat)
  with be_dec_less [of b] have "unat arg < 256 ^ length b" by simp
  with 2 show ?case by (auto simp: encode_head_def Let_def word_less_nat_alt word_le_nat_alt)
qed

section \<open>The decoder accepts only encodings\<close>

lemma usize_of_u64_total [simp]: "usize_of_u64 len = Inr (unat len)"
  using unsigned_less [of len, where 'a = nat] by (simp add: usize_of_u64_def usize_limit_def)

lemma read_raw_sub:
  assumes "read_raw bs pos len = Inr (b, q)"
  shows "b = sub bs pos q" "q = pos + unat len" "q \<le> length bs"
  using assms
  by (auto simp: read_raw_def checked_add_usize_def slice_get_def sub_def result_simps split: if_splits)

lemma head_atI:
  "read_head_byte bs pos = Inr (major, info, p) \<Longrightarrow> info \<noteq> 31 \<Longrightarrow> read_arg bs p info = Inr (a, q)
   \<Longrightarrow> head_at bs pos major a q"
  by (auto simp: head_at_def read_head_byte_def split: if_splits)

lemma sub_break: "peek_is_break bs pos = Inr True \<Longrightarrow> sub bs pos (pos + 1) = [0xFF]"
  by (auto simp: peek_is_break_def sub_Suc split: if_splits)

lemma sub_indefinite:
  assumes "read_head_byte bs pos = Inr (major, 31, q)" "q \<le> p"
  shows "sub bs pos p = (push_bit 5 major OR 31) # sub bs q p"
proof -
  from assms have "pos < length bs" and q: "q = Suc pos" and b: "bs ! pos = push_bit 5 major OR 31"
    using head_byte_split [of "bs ! pos"] by (auto simp: read_head_byte_def split: if_splits)
  with sub_split [of pos "Suc pos" p bs] assms(2) show ?thesis by (simp add: sub_Suc)
qed

lemma read_chunks_sound:
  "read_chunks bs pos major out = Inr (b, p) \<Longrightarrow>
     \<exists>c d. b = out @ d \<and> sub bs pos p = c @ [0xFF] \<and> chunks major c d"
proof (induction bs pos major out rule: read_chunks.induct)
  case (1 bs pos major out)
  note unf = "1.prems" [unfolded read_chunks.simps [of bs pos]]
  then obtain brk where brk: "peek_is_break bs pos = Inr brk" by (auto simp: result_simps)
  show ?case
  proof (cases brk)
    case True
    with unf brk show ?thesis
      by (intro exI [of _ "[]"]) (auto simp: sub_break [simplified] intro: chunks_Nil)
  next
    case False
    with unf brk obtain ci p1 len p2 chunk p3 where steps:
      "read_head_byte bs pos = Inr (major, ci, p1)" "ci \<noteq> 31"
      "read_arg bs p1 ci = Inr (len, p2)" "read_raw bs p2 len = Inr (chunk, p3)"
      "read_chunks bs p3 major (out @ chunk) = Inr (b, p)"
      by (auto simp: result_simps split: if_splits)
    then have "\<exists>c d. b = (out @ chunk) @ d \<and> sub bs p3 p = c @ [0xFF] \<and> chunks major c d"
      by (intro "1.IH" [OF brk False]) auto
    then obtain c d where cd: "b = out @ chunk @ d" "sub bs p3 p = c @ [0xFF]" "chunks major c d"
      by auto
    note hd = head_of_head_at [OF head_atI [OF steps(1-3)]]
    note raw = read_raw_sub [OF steps(4)]
    have "p3 < p" using read_chunks_pos [OF steps(5)] by simp
    then have "sub bs pos p = sub bs pos p2 @ chunk @ sub bs p3 p"
      using hd raw sub_split [of pos p2 p bs] sub_split [of p2 p3 p bs] by simp
    moreover have "chunks major (sub bs pos p2 @ chunk @ c) (chunk @ d)"
      using hd raw cd(3) by (intro chunks_Cons) auto
    ultimately show ?thesis using cd
      by (intro exI [of _ "sub bs pos p2 @ chunk @ c"] exI [of _ "chunk @ d"]) simp
  qed
qed

text \<open>A string read after its head: definite or in chunks.\<close>

lemma read_string_sound:
  assumes hd: "read_head_byte bs pos = Inr (major, info, q)"
    and rs: "read_string_bytes bs q info major = Inr (b, p)"
  shows "(\<exists>a h. head major a h \<and> length b = unat a \<and> sub bs pos p = h @ b) \<or>
    (\<exists>c. chunks major c b \<and> sub bs pos p = (push_bit 5 major OR 31) # c @ [0xFF])"
proof (cases "info = 31")
  case True
  with rs have rc: "read_chunks bs q major [] = Inr (b, p)" by (simp add: read_string_bytes_def)
  from read_chunks_sound [OF rc] obtain c where "sub bs q p = c @ [0xFF]" "chunks major c b" by auto
  with sub_indefinite [OF hd [unfolded True], of p] read_chunks_pos [OF rc] show ?thesis by auto
next
  case False
  with rs obtain a r where ra: "read_arg bs q info = Inr (a, r)" and rr: "read_raw bs r a = Inr (b, p)"
    by (auto simp: read_string_bytes_def result_simps)
  note h = head_of_head_at [OF head_atI [OF hd False ra]]
  note raw = read_raw_sub [OF rr]
  from h raw sub_split [of pos r p bs] have "sub bs pos p = sub bs pos r @ b" by simp
  with h raw show ?thesis by auto
qed

lemma decode_sound:
  "from_slice bs pos = Inr (v, p) \<Longrightarrow> cbor_item (sub bs pos p) v"
  "read_array bs pos info = Inr (vs, p) \<Longrightarrow>
     (if info = 31 then \<exists>c. sub bs pos p = c @ [0xFF] \<and> cbor_items c vs
      else \<exists>a q. read_arg bs pos info = Inr (a, q) \<and> (q \<le> length bs \<longrightarrow> q \<le> p)
        \<and> length vs = unat a \<and> cbor_items (sub bs q p) vs)"
  "items_to_break bs pos = Inr (vs, p) \<Longrightarrow> \<exists>c. sub bs pos p = c @ [0xFF] \<and> cbor_items c vs"
  "items_counted bs pos count = Inr (vs, p) \<Longrightarrow>
     (pos \<le> length bs \<longrightarrow> pos \<le> p) \<and> length vs = count \<and> cbor_items (sub bs pos p) vs"
  "read_map bs pos info = Inr (es, p) \<Longrightarrow>
     (if info = 31 then \<exists>c. sub bs pos p = c @ [0xFF] \<and> cbor_entries c es
      else \<exists>a q. read_arg bs pos info = Inr (a, q) \<and> (q \<le> length bs \<longrightarrow> q \<le> p)
        \<and> length es = unat a \<and> cbor_entries (sub bs q p) es)"
  "entries_to_break bs pos = Inr (es, p) \<Longrightarrow> \<exists>c. sub bs pos p = c @ [0xFF] \<and> cbor_entries c es"
  "entries_counted bs pos count = Inr (es, p) \<Longrightarrow>
     (pos \<le> length bs \<longrightarrow> pos \<le> p) \<and> length es = count \<and> cbor_entries (sub bs pos p) es"
proof (induction bs pos and bs pos info and bs pos and bs pos count and bs pos info
    and bs pos and bs pos count
    arbitrary: v p and vs p and vs p and vs p and es p and es p and es p rule: decode_induct)
  case (1 bs pos)
  note unf = "1.prems"(1) [unfolded from_slice.simps [of bs pos]]
  then obtain major info q where hd: "read_head_byte bs pos = Inr (major, info, q)"
    by (auto simp: result_simps)
  note unf = unf [unfolded hd rbind_Inr prod.case]
  have p: "p \<le> length bs" "pos < p" using from_slice_pos [OF "1.prems"(1)] by simp_all
  have q: "q = pos + 1" "pos < length bs" and bpos: "bs ! pos = push_bit 5 major OR info"
    using hd head_byte_split [of "bs ! pos"] by (auto simp: read_head_byte_def split: if_splits)
  consider (u) "major = 0" | (n) "major = 1" | (b) "major = 2" | (t) "major = 3" | (arr) "major = 4"
    | (mp) "major = 5" | (tag) "major = 6" | (s) "major = 7" | (bad) "\<not> major \<le> 7"
    using u8_cases_8 [of major] by argo
  then show ?case
  proof cases
    case u
    with unf obtain a where ra: "read_arg bs q info = Inr (a, p)" "v = CInteger (int (unat a))"
      by (auto simp: result_simps)
    then have "info \<noteq> 31" by (auto simp: read_arg_def)
    from head_of_head_at [OF head_atI [OF hd this ra(1)]] ra(2) u show ?thesis
      by (auto intro: item_uint)
  next
    case n
    with unf obtain a where ra: "read_arg bs q info = Inr (a, p)" "v = CInteger (- 1 - int (unat a))"
      by (auto simp: result_simps)
    then have "info \<noteq> 31" by (auto simp: read_arg_def)
    from head_of_head_at [OF head_atI [OF hd this ra(1)]] ra(2) n show ?thesis
      by (auto intro: item_nint)
  next
    case b
    with unf obtain raw where raw: "read_string_bytes bs q info major = Inr (raw, p)" "v = CBytes raw"
      by (auto simp: result_simps)
    from read_string_sound [OF hd raw(1)] raw(2) b show ?thesis
      by (auto intro: item_bytes item_bytes_indef)
  next
    case t
    with unf obtain raw s where raw: "read_string_bytes bs q info major = Inr (raw, p)"
      and s: "from_utf8 raw = Some s" "v = CText s"
      by (auto simp: result_simps)
    from s have s: "utf8_ok raw" "v = CText (from_bytes raw)"
      by (auto simp: from_utf8_def split: if_splits)
    from read_string_sound [OF hd raw] s t show ?thesis
      by (auto intro: item_text item_text_indef)
  next
    case arr
    with unf obtain vs where vs: "read_array bs q info = Inr (vs, p)" "v = CArray vs"
      by (auto simp: result_simps)
    note ih = "1.IH"(1) [OF hd refl refl _ _ _ _ _ vs(1)]
    show ?thesis
    proof (cases "info = 31")
      case True
      with ih arr obtain c where c: "sub bs q p = c @ [0xFF]" "cbor_items c vs" by auto
      with sub_indefinite [OF hd [unfolded True], of p] p q arr
      have "sub bs pos p = 0x9F # c @ [0xFF]" by simp
      with c vs show ?thesis by (auto intro: item_array_indef)
    next
      case False
      with ih arr obtain a r where ra: "read_arg bs q info = Inr (a, r)"
        and its: "r \<le> length bs \<longrightarrow> r \<le> p" "length vs = unat a" "cbor_items (sub bs r p) vs"
        by auto
      note h = head_of_head_at [OF head_atI [OF hd False ra]]
      with its sub_split [of pos r p bs] have "sub bs pos p = sub bs pos r @ sub bs r p" by simp
      with h its vs arr show ?thesis by (auto intro: item_array)
    qed
  next
    case mp
    with unf obtain es where es: "read_map bs q info = Inr (es, p)" "v = CMap es"
      by (auto simp: result_simps)
    note ih = "1.IH"(2) [OF hd refl refl _ _ _ _ _ _ es(1)]
    show ?thesis
    proof (cases "info = 31")
      case True
      with ih mp obtain c where c: "sub bs q p = c @ [0xFF]" "cbor_entries c es" by auto
      with sub_indefinite [OF hd [unfolded True], of p] p q mp
      have "sub bs pos p = 0xBF # c @ [0xFF]" by simp
      with c es show ?thesis by (auto intro: item_map_indef)
    next
      case False
      with ih mp obtain a r where ra: "read_arg bs q info = Inr (a, r)"
        and its: "r \<le> length bs \<longrightarrow> r \<le> p" "length es = unat a" "cbor_entries (sub bs r p) es"
        by auto
      note h = head_of_head_at [OF head_atI [OF hd False ra]]
      with its sub_split [of pos r p bs] have "sub bs pos p = sub bs pos r @ sub bs r p" by simp
      with h its es mp show ?thesis by (auto intro: item_map)
    qed
  next
    case tag
    with unf obtain t r w where ra: "read_arg bs q info = Inr (t, r)"
      and fs: "from_slice bs r = Inr (w, p)" "v = CTag t w"
      by (auto simp: result_simps)
    then have i: "info \<noteq> 31" by (auto simp: read_arg_def)
    have w: "cbor_item (sub bs r p) w" using tag by (intro "1.IH"(3) [OF hd refl refl _ _ _ _ _ _ _ ra refl fs(1)]) auto
    note h = head_of_head_at [OF head_atI [OF hd i ra]]
    with from_slice_pos [OF fs(1)] sub_split [of pos r p bs]
    have "sub bs pos p = sub bs pos r @ sub bs r p" by simp
    with h fs w tag show ?thesis by (auto intro: item_tag)
  next
    case s
    with unf q bpos show ?thesis
      by (auto simp: result_simps read_simple_def sub_Suc split: if_splits
          intro: item_false item_true item_null item_undefined)
  next
    case bad
    with unf show ?thesis by (auto split: if_splits)
  qed
next
  case (2 bs pos info)
  note unf = "2.prems"(1) [unfolded read_array.simps [of bs pos]]
  show ?case
  proof (cases "info = 31")
    case True
    with unf "2.IH"(1) [OF True] show ?thesis by simp
  next
    case False
    with unf obtain c q where ra: "read_arg bs pos info = Inr (c, q)"
      and ic: "items_counted bs q (unat c) = Inr (vs, p)"
      by (auto simp: result_simps)
    from "2.IH"(2) [OF False ra refl usize_of_u64_total ic] False ra show ?thesis by auto
  qed
next
  case (3 bs pos)
  note unf = "3.prems"(1) [unfolded items_to_break.simps [of bs pos]]
  then obtain brk where brk: "peek_is_break bs pos = Inr brk" by (auto simp: result_simps)
  show ?case
  proof (cases brk)
    case True
    with unf brk show ?thesis
      by (intro exI [of _ "[]"]) (auto simp: sub_break [simplified] intro: items_Nil)
  next
    case False
    with unf brk obtain v q ws where fs: "from_slice bs pos = Inr (v, q)"
      and it: "items_to_break bs q = Inr (ws, p)" and vs: "vs = v # ws"
      by (auto simp: result_simps)
    from "3.IH"(2) [OF brk False fs refl it] obtain c where c: "sub bs q p = c @ [0xFF]" "cbor_items c ws"
      by auto
    then have "q < p" by (cases "q < p") (auto simp: sub_def)
    with c(1) from_slice_pos [OF fs] sub_split [of pos q p bs]
    have "sub bs pos p = (sub bs pos q @ c) @ [0xFF]" by simp
    moreover have "cbor_items (sub bs pos q @ c) vs"
      using "3.IH"(1) [OF brk False fs] c vs by (auto intro: items_Cons)
    ultimately show ?thesis by blast
  qed
next
  case (4 bs pos count)
  note unf = "4.prems"(1) [unfolded items_counted.simps [of bs pos]]
  show ?case
  proof (cases "count = 0")
    case True
    with unf show ?thesis by (auto intro: items_Nil)
  next
    case False
    with unf obtain v q ws where fs: "from_slice bs pos = Inr (v, q)"
      and it: "items_counted bs q (count - 1) = Inr (ws, p)" and vs: "vs = v # ws"
      by (auto simp: result_simps)
    from "4.IH"(2) [OF False fs refl it]
    have ws: "q \<le> length bs \<longrightarrow> q \<le> p" "length ws = count - 1" "cbor_items (sub bs q p) ws"
      by auto
    with from_slice_pos [OF fs] sub_split [of pos q p bs]
    have "sub bs pos p = sub bs pos q @ sub bs q p" by simp
    with ws vs from_slice_pos [OF fs] "4.IH"(1) [OF False fs] False show ?thesis
      by (auto intro: items_Cons)
  qed
next
  case (5 bs pos info)
  note unf = "5.prems"(1) [unfolded read_map.simps [of bs pos]]
  show ?case
  proof (cases "info = 31")
    case True
    with unf "5.IH"(1) [OF True] show ?thesis by simp
  next
    case False
    with unf obtain c q where ra: "read_arg bs pos info = Inr (c, q)"
      and ic: "entries_counted bs q (unat c) = Inr (es, p)"
      by (auto simp: result_simps)
    from "5.IH"(2) [OF False ra refl usize_of_u64_total ic] False ra show ?thesis by auto
  qed
next
  case (6 bs pos)
  note unf = "6.prems"(1) [unfolded entries_to_break.simps [of bs pos]]
  then obtain brk where brk: "peek_is_break bs pos = Inr brk" by (auto simp: result_simps)
  show ?case
  proof (cases brk)
    case True
    with unf brk show ?thesis
      by (intro exI [of _ "[]"]) (auto simp: sub_break [simplified] intro: entries_Nil)
  next
    case False
    with unf brk obtain k q v r es' where fk: "from_slice bs pos = Inr (k, q)"
      and fv: "from_slice bs q = Inr (v, r)" and it: "entries_to_break bs r = Inr (es', p)"
      and es: "es = (k, v) # es'"
      by (auto simp: result_simps)
    from "6.IH"(3) [OF brk False fk refl fv refl it] obtain c
      where c: "sub bs r p = c @ [0xFF]" "cbor_entries c es'" by auto
    then have "r < p" by (cases "r < p") (auto simp: sub_def)
    with c(1) from_slice_pos [OF fk] from_slice_pos [OF fv] sub_split [of pos q p bs] sub_split [of q r p bs]
    have "sub bs pos p = (sub bs pos q @ sub bs q r @ c) @ [0xFF]" by simp
    moreover have "cbor_entries (sub bs pos q @ sub bs q r @ c) es"
      using "6.IH"(1) [OF brk False fk] "6.IH"(2) [OF brk False fk refl fv] c es
      by (auto intro: entries_Cons)
    ultimately show ?thesis by blast
  qed
next
  case (7 bs pos count)
  note unf = "7.prems"(1) [unfolded entries_counted.simps [of bs pos]]
  show ?case
  proof (cases "count = 0")
    case True
    with unf show ?thesis by (auto intro: entries_Nil)
  next
    case False
    with unf obtain k q v r es' where fk: "from_slice bs pos = Inr (k, q)"
      and fv: "from_slice bs q = Inr (v, r)" and it: "entries_counted bs r (count - 1) = Inr (es', p)"
      and es: "es = (k, v) # es'"
      by (auto simp: result_simps)
    from "7.IH"(3) [OF False fk refl fv refl it]
    have ws: "r \<le> length bs \<longrightarrow> r \<le> p" "length es' = count - 1" "cbor_entries (sub bs r p) es'"
      by auto
    with from_slice_pos [OF fk] from_slice_pos [OF fv] sub_split [of pos q p bs] sub_split [of q r p bs]
    have "sub bs pos p = sub bs pos q @ sub bs q r @ sub bs r p" by simp
    with ws es from_slice_pos [OF fk] from_slice_pos [OF fv] "7.IH"(1) [OF False fk]
      "7.IH"(2) [OF False fk refl fv] False show ?thesis
      by (auto intro: entries_Cons)
  qed
qed

section \<open>The decoder accepts every encoding\<close>

lemma read_raw_append:
  assumes "length (pre @ b @ rest) < usize_limit" "length b = unat len"
  shows "read_raw (pre @ b @ rest) (length pre) len = Inr (b, length pre + length b)"
  using assms by (simp add: read_raw_def checked_add_usize_def slice_get_def)

lemma head_at_parts:
  assumes "head_at bs pos major a q"
  obtains info where "read_head_byte bs pos = Inr (major, info, pos + 1)" "info \<noteq> 31"
    "read_arg bs (pos + 1) info = Inr (a, q)"
  using assms by (auto simp: head_at_def)

lemma indefinite_head:
  assumes "unat major < 8"
  shows "read_head_byte (pre @ (push_bit 5 major OR 31) # rest) (length pre) = Inr (major, 31, length pre + 1)"
  using head_byte_parts [OF assms, of 31] by (simp add: read_head_byte_def del: drop_bit_or)

lemma peek_is_break_Cons [simp]: "peek_is_break (pre @ b # rest) (length pre) = Inr (b = 0xFF)"
  by (simp add: peek_is_break_def)

lemma read_chunks_complete:
  "chunks m c d \<Longrightarrow> unat m < 8 \<Longrightarrow> length (pre @ c @ 0xFF # rest) < usize_limit \<Longrightarrow>
     read_chunks (pre @ c @ 0xFF # rest) (length pre) m out = Inr (out @ d, length pre + length c + 1)"
proof (induction arbitrary: pre out rule: chunks.induct)
  case (chunks_Nil m)
  then show ?case by (simp add: read_chunks.simps)
next
  case (chunks_Cons m a h b c d)
  let ?bs = "pre @ (h @ b @ c) @ 0xFF # rest"
  have "head_at ?bs (length pre) m a (length pre + length h)"
    using head_at_append [OF chunks_Cons.hyps(1) chunks_Cons.prems(1), of pre "b @ c @ 0xFF # rest"]
      chunks_Cons.prems(2) by simp
  then obtain ci where ci: "read_head_byte ?bs (length pre) = Inr (m, ci, length pre + 1)" "ci \<noteq> 31"
    "read_arg ?bs (length pre + 1) ci = Inr (a, length pre + length h)"
    by (rule head_at_parts)
  have raw: "read_raw ?bs (length pre + length h) a = Inr (b, length pre + length h + length b)"
    using read_raw_append [of "pre @ h" b "c @ 0xFF # rest" a] chunks_Cons by simp
  have brk: "peek_is_break ?bs (length pre) = Inr False"
    using head_Cons [OF chunks_Cons.hyps(1) chunks_Cons.prems(1)] by auto
  have "read_chunks ?bs (length pre + length h + length b) m (out @ b)
      = Inr (out @ b @ d, length pre + length h + length b + length c + 1)"
    using chunks_Cons.IH [of "pre @ h @ b" "out @ b"] chunks_Cons.prems by (simp add: add.assoc)
  with ci raw brk show ?case by (subst read_chunks.simps) (simp add: add.assoc)
qed

lemma read_string_definite:
  assumes "head m a h" "unat m < 8" "length b = unat a" "length (pre @ (h @ b) @ rest) < usize_limit"
  obtains info where
    "read_head_byte (pre @ (h @ b) @ rest) (length pre) = Inr (m, info, length pre + 1)"
    "read_string_bytes (pre @ (h @ b) @ rest) (length pre + 1) info m
       = Inr (b, length pre + length (h @ b))"
proof -
  let ?bs = "pre @ (h @ b) @ rest"
  have "head_at ?bs (length pre) m a (length pre + length h)"
    using head_at_append [OF assms(1,2), of pre "b @ rest"] assms(4) by simp
  then obtain ci where ci: "read_head_byte ?bs (length pre) = Inr (m, ci, length pre + 1)" "ci \<noteq> 31"
    "read_arg ?bs (length pre + 1) ci = Inr (a, length pre + length h)"
    by (rule head_at_parts)
  have "read_raw ?bs (length pre + length h) a = Inr (b, length pre + length h + length b)"
    using read_raw_append [of "pre @ h" b rest a] assms by simp
  with ci that show thesis by (simp add: read_string_bytes_def add.assoc)
qed

lemma read_string_indefinite:
  assumes "chunks m c b" "unat m < 8" "length (pre @ (x # c @ [0xFF]) @ rest) < usize_limit"
  shows "read_string_bytes (pre @ (x # c @ [0xFF]) @ rest) (length pre + 1) 31 m
       = Inr (b, length pre + length (x # c @ [0xFF]))"
  using read_chunks_complete [OF assms(1,2), of "pre @ [x]" rest "[]"] assms(3)
  by (simp add: read_string_bytes_def)

text \<open>An encoding is not empty and does not begin with the break byte.\<close>

lemma cbor_item_Cons: "cbor_item b v \<Longrightarrow> \<exists>x t. b = x # t \<and> x \<noteq> 0xFF"
  by (cases rule: cbor_item.cases) (auto dest!: head_Cons)

lemma from_slice_arith:
  assumes "length (pre @ h @ rest) < usize_limit"
  shows "head 0 a h \<Longrightarrow> from_slice (pre @ h @ rest) (length pre)
      = Inr (CInteger (uint a), length pre + length h)"
    and "head 1 a h \<Longrightarrow> from_slice (pre @ h @ rest) (length pre)
      = Inr (CInteger (- 1 - uint a), length pre + length h)"
  using assms
  by (auto dest!: head_at_append [where pre = pre and rest = rest] elim!: head_at_parts
      simp: from_slice.simps)

lemma decode_complete:
  "cbor_item b v \<Longrightarrow> length (pre @ b @ rest) < usize_limit \<Longrightarrow>
     from_slice (pre @ b @ rest) (length pre) = Inr (v, length pre + length b)"
  "cbor_items c vs \<Longrightarrow>
     (length (pre @ c @ rest) < usize_limit \<longrightarrow>
       items_counted (pre @ c @ rest) (length pre) (length vs) = Inr (vs, length pre + length c)) \<and>
     (length (pre @ c @ 0xFF # rest) < usize_limit \<longrightarrow>
       items_to_break (pre @ c @ 0xFF # rest) (length pre) = Inr (vs, length pre + length c + 1))"
  "cbor_entries c es \<Longrightarrow>
     (length (pre @ c @ rest) < usize_limit \<longrightarrow>
       entries_counted (pre @ c @ rest) (length pre) (length es) = Inr (es, length pre + length c)) \<and>
     (length (pre @ c @ 0xFF # rest) < usize_limit \<longrightarrow>
       entries_to_break (pre @ c @ 0xFF # rest) (length pre) = Inr (es, length pre + length c + 1))"
proof (induction arbitrary: pre rest and pre rest and pre rest
    rule: cbor_item_cbor_items_cbor_entries.inducts)
  case (item_uint a h)
  then show ?case by (intro from_slice_arith)
next
  case (item_nint a h)
  then show ?case by (intro from_slice_arith)
next
  case (item_bytes a h b)
  then obtain info where
    "read_head_byte (pre @ (h @ b) @ rest) (length pre) = Inr (2, info, length pre + 1)"
    "read_string_bytes (pre @ (h @ b) @ rest) (length pre + 1) info 2
       = Inr (b, length pre + length (h @ b))"
    using read_string_definite [of 2 a h b pre rest] by auto
  then show ?case by (subst from_slice.simps) simp
next
  case (item_bytes_indef c b)
  from read_string_indefinite [OF item_bytes_indef.hyps, of pre "0x5F" rest]
    indefinite_head [of 2 pre "c @ 0xFF # rest"] item_bytes_indef.prems
  show ?case by (subst from_slice.simps) simp
next
  case (item_text a h b)
  then obtain info where
    "read_head_byte (pre @ (h @ b) @ rest) (length pre) = Inr (3, info, length pre + 1)"
    "read_string_bytes (pre @ (h @ b) @ rest) (length pre + 1) info 3
       = Inr (b, length pre + length (h @ b))"
    using read_string_definite [of 3 a h b pre rest] by auto
  with item_text show ?case by (subst from_slice.simps) (simp add: from_utf8_def)
next
  case (item_text_indef c b)
  from read_string_indefinite [OF item_text_indef.hyps(1), of pre "0x7F" rest]
    indefinite_head [of 3 pre "c @ 0xFF # rest"] item_text_indef
  show ?case by (subst from_slice.simps) (simp add: from_utf8_def)
next
  case (item_array a h vs c)
  from head_at_append [OF item_array.hyps(1), of pre "c @ rest"] item_array.prems
  have "head_at (pre @ (h @ c) @ rest) (length pre) 4 a (length pre + length h)" by simp
  moreover have "items_counted (pre @ (h @ c) @ rest) (length pre + length h) (unat a)
      = Inr (vs, length pre + length (h @ c))"
    using item_array.IH [of "pre @ h" rest] item_array by (simp add: add.assoc)
  ultimately show ?case
    by (auto elim!: head_at_parts simp: from_slice.simps [of _ "length pre"] read_array.simps)
next
  case (item_array_indef c vs)
  have "items_to_break (pre @ (0x9F # c @ [0xFF]) @ rest) (length pre + 1)
      = Inr (vs, length pre + length (0x9F # c @ [0xFF]))"
    using item_array_indef.IH [of "pre @ [0x9F]" rest] item_array_indef.prems by simp
  with indefinite_head [of 4 pre "c @ 0xFF # rest"] show ?case
    by (subst from_slice.simps) (simp add: read_array.simps)
next
  case (item_map a h es c)
  from head_at_append [OF item_map.hyps(1), of pre "c @ rest"] item_map.prems
  have "head_at (pre @ (h @ c) @ rest) (length pre) 5 a (length pre + length h)" by simp
  moreover have "entries_counted (pre @ (h @ c) @ rest) (length pre + length h) (unat a)
      = Inr (es, length pre + length (h @ c))"
    using item_map.IH [of "pre @ h" rest] item_map by (simp add: add.assoc)
  ultimately show ?case
    by (auto elim!: head_at_parts simp: from_slice.simps [of _ "length pre"] read_map.simps)
next
  case (item_map_indef c es)
  have "entries_to_break (pre @ (0xBF # c @ [0xFF]) @ rest) (length pre + 1)
      = Inr (es, length pre + length (0xBF # c @ [0xFF]))"
    using item_map_indef.IH [of "pre @ [0xBF]" rest] item_map_indef.prems by simp
  with indefinite_head [of 5 pre "c @ 0xFF # rest"] show ?case
    by (subst from_slice.simps) (simp add: read_map.simps)
next
  case (item_tag t h c v)
  from head_at_append [OF item_tag.hyps(1), of pre "c @ rest"] item_tag.prems
  have "head_at (pre @ (h @ c) @ rest) (length pre) 6 t (length pre + length h)" by simp
  moreover have "from_slice (pre @ (h @ c) @ rest) (length pre + length h)
      = Inr (v, length pre + length (h @ c))"
    using item_tag.IH [of "pre @ h" rest] item_tag.prems by (simp add: add.assoc)
  ultimately show ?case
    by (auto elim!: head_at_parts simp: from_slice.simps [of _ "length pre"])
next
  case item_false
  then show ?case by (simp add: from_slice.simps read_head_byte_def read_simple_def)
next
  case item_true
  then show ?case by (simp add: from_slice.simps read_head_byte_def read_simple_def)
next
  case item_null
  then show ?case by (simp add: from_slice.simps read_head_byte_def read_simple_def)
next
  case item_undefined
  then show ?case by (simp add: from_slice.simps read_head_byte_def read_simple_def)
next
  case items_Nil
  then show ?case by (simp add: items_counted.simps items_to_break.simps)
next
  case (items_Cons b v c vs)
  from cbor_item_Cons [OF items_Cons.hyps(1)] obtain x t where x: "b = x # t" "x \<noteq> 0xFF" by auto
  show ?case
  proof (intro conjI impI)
    assume "length (pre @ (b @ c) @ rest) < usize_limit"
    with items_Cons.IH(1) [of pre "c @ rest"] items_Cons.IH(2) [of "pre @ b" rest]
    show "items_counted (pre @ (b @ c) @ rest) (length pre) (length (v # vs))
        = Inr (v # vs, length pre + length (b @ c))"
      by (subst items_counted.simps) (simp add: add.assoc)
  next
    assume "length (pre @ (b @ c) @ 0xFF # rest) < usize_limit"
    with items_Cons.IH(1) [of pre "c @ 0xFF # rest"] items_Cons.IH(2) [of "pre @ b" rest] x
    show "items_to_break (pre @ (b @ c) @ 0xFF # rest) (length pre)
        = Inr (v # vs, length pre + length (b @ c) + 1)"
      by (subst items_to_break.simps) (simp add: add.assoc)
  qed
next
  case entries_Nil
  then show ?case by (simp add: entries_counted.simps entries_to_break.simps)
next
  case (entries_Cons b k b' v c es)
  from cbor_item_Cons [OF entries_Cons.hyps(1)] obtain x t where x: "b = x # t" "x \<noteq> 0xFF" by auto
  show ?case
  proof (intro conjI impI)
    assume "length (pre @ (b @ b' @ c) @ rest) < usize_limit"
    with entries_Cons.IH(1) [of pre "b' @ c @ rest"] entries_Cons.IH(2) [of "pre @ b" "c @ rest"]
      entries_Cons.IH(3) [of "pre @ b @ b'" rest]
    show "entries_counted (pre @ (b @ b' @ c) @ rest) (length pre) (length ((k, v) # es))
        = Inr ((k, v) # es, length pre + length (b @ b' @ c))"
      by (subst entries_counted.simps) (simp add: add.assoc)
  next
    assume "length (pre @ (b @ b' @ c) @ 0xFF # rest) < usize_limit"
    with entries_Cons.IH(1) [of pre "b' @ c @ 0xFF # rest"] entries_Cons.IH(2) [of "pre @ b" "c @ 0xFF # rest"]
      entries_Cons.IH(3) [of "pre @ b @ b'" rest] x
    show "entries_to_break (pre @ (b @ b' @ c) @ 0xFF # rest) (length pre)
        = Inr ((k, v) # es, length pre + length (b @ b' @ c) + 1)"
      by (subst entries_to_break.simps) (simp add: add.assoc)
  qed
qed

end
