(* ===== verification/Cbor_Correct.thy ===== *)
theory Cbor_Correct
  imports Cbor_Grammar
begin

text \<open>
  The contract of the CBOR crate: its encoder writes encodings of the grammar, its decoder
  reads exactly them, and so encoding and decoding are inverse on the well-formed items.
\<close>

section \<open>The encoder writes encodings\<close>

lemma uint_word_of_int_u64: "0 \<le> i \<Longrightarrow> i < 2 ^ 64 \<Longrightarrow> uint (word_of_int i :: u64) = i"
  by (simp add: unsigned_of_int take_bit_int_eq_self)

lemma word_of_nat_length: "length xs < usize_limit \<Longrightarrow> unat (word_of_nat (length xs) :: u64) = length xs"
  by (simp add: usize_limit_def unsigned_of_nat take_bit_nat_eq_self)

lemma encode_items:
  "(\<And>v. v \<in> set vs \<Longrightarrow> cbor_item (encode_value v) v) \<Longrightarrow>
     cbor_items (concat (map encode_value vs)) vs"
  by (induction vs) (auto intro: items_Nil items_Cons)

lemma encode_entries:
  "(\<And>k v. (k, v) \<in> set es \<Longrightarrow> cbor_item (encode_value k) k \<and> cbor_item (encode_value v) v)
   \<Longrightarrow> cbor_entries (concat (map (\<lambda>e. encode_value (fst e) @ encode_value (snd e)) es)) es"
proof (induction es)
  case (Cons e es)
  obtain k v where "e = (k, v)" by fastforce
  with Cons.prems [of k v] Cons.IH Cons.prems show ?case by (auto intro: entries_Cons)
qed (simp add: entries_Nil)

lemma encode_value_item: "cbor_ok v \<Longrightarrow> cbor_item (encode_value v) v"
proof (induction v rule: encode_value.induct)
  case (1 i)
  show ?case
  proof (cases "0 \<le> i")
    case True
    with 1 item_uint [OF head_encode_head, of "word_of_int i"] show ?thesis
      by (simp add: uint_word_of_int_u64)
  next
    case False
    with 1 have "uint (word_of_int (- 1 - i) :: u64) = - 1 - i"
      by (intro uint_word_of_int_u64) auto
    with False item_nint [OF head_encode_head, of "word_of_int (- 1 - i)"] show ?thesis
      by (simp del: of_int_diff)
  qed
next
  case (2 b)
  then show ?case by (auto simp: word_of_nat_length intro!: item_bytes [OF head_encode_head])
next
  case (3 s)
  then show ?case
    using item_text [OF head_encode_head, of "as_bytes s" "word_of_nat (length s)"]
    by (simp add: word_of_nat_length)
next
  case (4 vs)
  then show ?case
    by (auto simp: word_of_nat_length intro!: item_array [OF head_encode_head] encode_items)
next
  case (5 es)
  then show ?case
    by (auto simp: word_of_nat_length intro!: item_map [OF head_encode_head] encode_entries)
next
  case (6 t v)
  then show ?case by (auto intro!: item_tag [OF head_encode_head])
next
  case (7 b)
  then show ?case by (auto intro: item_false item_true)
next
  case 8
  then show ?case by (auto intro: item_null)
qed

section \<open>Decoded items are well-formed\<close>

lemma head_length: "head m a h \<Longrightarrow> 0 < length h"
  by (cases rule: head.cases) auto

lemma chunks_length: "chunks m c d \<Longrightarrow> length d \<le> length c"
  by (induction rule: chunks.induct) (auto dest: head_length)

lemma item_ok:
  "cbor_item b v \<Longrightarrow> length b < usize_limit \<Longrightarrow> cbor_ok v"
  "cbor_items c vs \<Longrightarrow> length vs \<le> length c \<and>
     (length c < usize_limit \<longrightarrow> (\<forall>v \<in> set vs. cbor_ok v))"
  "cbor_entries c es \<Longrightarrow> length es \<le> length c \<and>
     (length c < usize_limit \<longrightarrow> (\<forall>e \<in> set es. cbor_ok (fst e) \<and> cbor_ok (snd e)))"
proof (induction rule: cbor_item_cbor_items_cbor_entries.inducts)
  case (item_uint a h)
  have "uint a < 2 ^ 64" "0 \<le> uint a" using uint_lt2p [of a] by simp_all
  then show ?case unfolding cbor_ok.simps by linarith
next
  case (item_nint a h)
  have "uint a < 2 ^ 64" "0 \<le> uint a" using uint_lt2p [of a] by simp_all
  then show ?case unfolding cbor_ok.simps by linarith
qed (auto dest!: chunks_length cbor_item_Cons)

section \<open>The crate's contract\<close>

lemma sub_middle: "sub (pre @ b @ rest) (length pre) (length pre + length b) = b"
  by (simp add: sub_def)

lemma from_slice_item_iff:
  assumes "length (pre @ b @ rest) < usize_limit"
  shows "from_slice (pre @ b @ rest) (length pre) = Inr (v, length pre + length b) \<longleftrightarrow> cbor_item b v"
proof
  assume "from_slice (pre @ b @ rest) (length pre) = Inr (v, length pre + length b)"
  from decode_sound(1) [OF this] show "cbor_item b v" by (simp only: sub_middle)
next
  assume "cbor_item b v"
  from decode_complete(1) [OF this assms]
  show "from_slice (pre @ b @ rest) (length pre) = Inr (v, length pre + length b)" .
qed

text \<open>
  C3: \<open>from_slice\<close> accepts, at any position of any input, exactly the byte strings that the
  supported part of RFC 8949 describes, definite or indefinite, with the value they
  encode, and goes on right after them.
\<close>

theorem from_slice_decodes_grammar:
  assumes "length (pre @ b @ rest) < usize_limit"
  shows "from_slice (pre @ b @ rest) (length pre) = Inr (v, length pre + length b) \<longleftrightarrow> cbor_item b v"
  by (rule from_slice_item_iff [OF assms])

theorem from_slice_decodes_grammar_witness:
  "from_slice ([0x00] @ [0x9F, 0x18, 0x2A, 0xFF] @ [0x01]) 1 = Inr (CArray [CInteger 42], 5)"
proof -
  have "head 0 (word_of_nat (be_dec [0x2A])) ((push_bit 5 0 OR 24) # [0x2A])"
    by (rule head.wide) simp
  then have "cbor_item [0x18, 0x2A] (CInteger 42)" by (auto dest: item_uint simp: be_dec_def)
  from item_array_indef [OF items_Cons [OF this items_Nil]]
  have "cbor_item [0x9F, 0x18, 0x2A, 0xFF] (CArray [CInteger 42])" by simp
  then show ?thesis
    using from_slice_decodes_grammar [of "[0x00]" "[0x9F, 0x18, 0x2A, 0xFF]" "[0x01]" "CArray [CInteger 42]"]
    by (simp add: usize_limit_def)
qed

text \<open>
  C11: Decoding inverts encoding: for every well-formed item, \<open>from_slice\<close> at the
  beginning of \<open>to_vec v\<close>, wherever it stands in the input, returns \<open>v\<close> and the
  position after it.
\<close>

theorem cbor_roundtrip:
  assumes "cbor_ok v" "length (pre @ to_vec v @ rest) < usize_limit"
  shows "from_slice (pre @ to_vec v @ rest) (length pre) = Inr (v, length pre + length (to_vec v))"
  using assms encode_value_item [OF assms(1)] by (simp only: to_vec_def from_slice_item_iff)

theorem cbor_roundtrip_witness:
  "from_slice (to_vec (CMap [(CText ''a'', CTag 43 (CInteger (-300)))])) 0
     = Inr (CMap [(CText ''a'', CTag 43 (CInteger (-300)))], 8)"
  using cbor_roundtrip [of "CMap [(CText ''a'', CTag 43 (CInteger (-300)))]" "[]" "[]"]
  by (simp add: to_vec_def usize_limit_def encode_head_def as_bytes_def)

text \<open>
  C13: Whatever the decoder returns is a well-formed item of the value type (integers
  between \<open>- 2 ^ 64\<close> and \<open>2 ^ 64 - 1\<close>, text in UTF-8), read from at least one byte and
  within the input, and encoding it again loses nothing.
\<close>

theorem from_slice_result_ok:
  assumes "from_slice bs pos = Inr (v, p)" "length bs < usize_limit"
  shows "cbor_ok v \<and> pos < p \<and> p \<le> length bs \<and>
    (length (to_vec v) < usize_limit \<longrightarrow> from_slice (to_vec v) 0 = Inr (v, length (to_vec v)))"
proof -
  have item: "cbor_item (sub bs pos p) v" using assms(1) by (rule decode_sound)
  have pos: "pos < p \<and> p \<le> length bs" using assms(1) by (rule from_slice_pos)
  then have "length (sub bs pos p) < usize_limit" using assms(2) by (auto intro: le_less_trans)
  with item have ok: "cbor_ok v" by (rule item_ok)
  with from_slice_item_iff [of "[]" "to_vec v" "[]" v] encode_value_item [OF ok] pos
  show ?thesis by (simp add: to_vec_def)
qed

theorem from_slice_result_ok_witness: "cbor_ok (CInteger 5)"
  using from_slice_result_ok [of "[0x18, 0x05]" 0 "CInteger 5" 2]
  by (simp add: usize_limit_def from_slice.simps read_head_byte_def read_arg_def read_bytes_def
      checked_add_usize_def slice_get_def be_dec_def)

text \<open>
  C14: \<open>encode_head\<close> picks the narrowest form: no head the decoder reads with the same
  major type and argument is shorter.
\<close>

theorem encode_head_narrowest:
  assumes "head_at bs pos major arg q"
  shows "length (encode_head major arg) \<le> q - pos"
  using head_of_head_at [OF assms] head_shortest [of major arg "sub bs pos q"] by simp

theorem encode_head_narrowest_witness: "length (encode_head 0 24) \<le> 3"
proof -
  have "head_at [0x19, 0x00, 0x18] 0 0 24 3"
    by (simp add: head_at_def read_head_byte_def read_arg_def read_bytes_def
        checked_add_usize_def slice_get_def be_dec_def usize_limit_def)
  from encode_head_narrowest [OF this] show ?thesis by simp
qed

end
