(* ===== verification/Coap_Message.thy ===== *)
theory Coap_Message
  imports Prelude
begin

text \<open>
  CoAP messages (\<open>src/coap/src/message.rs\<close>): the block option, the option writer, the
  encoder of requests and the parser of received messages. Option numbers and lengths are
  \<open>u16\<close> values whose arithmetic wraps, as in a release build.
\<close>

section \<open>Data\<close>

definition OPT_URI_PATH :: u16 where "OPT_URI_PATH = 11"
definition OPT_CONTENT_FORMAT :: u16 where "OPT_CONTENT_FORMAT = 12"
definition OPT_URI_QUERY :: u16 where "OPT_URI_QUERY = 15"
definition OPT_ACCEPT :: u16 where "OPT_ACCEPT = 17"
definition OPT_BLOCK2 :: u16 where "OPT_BLOCK2 = 23"
definition OPT_BLOCK1 :: u16 where "OPT_BLOCK1 = 27"

lemmas option_numbers =
  OPT_URI_PATH_def OPT_CONTENT_FORMAT_def OPT_URI_QUERY_def OPT_ACCEPT_def OPT_BLOCK2_def OPT_BLOCK1_def

abbreviation PAYLOAD_MARKER :: u8 where "PAYLOAD_MARKER \<equiv> 0xFF"

definition YANG_DATA_CBOR :: u16 where "YANG_DATA_CBOR = 140"
definition YANG_IDENTIFIERS_CBOR :: u16 where "YANG_IDENTIFIERS_CBOR = 141"
definition YANG_INSTANCES_CBOR :: u16 where "YANG_INSTANCES_CBOR = 142"

datatype msg_type = Con | Non | Ack | Rst

definition msg_type_from_bits :: "u8 \<Rightarrow> msg_type" where
  "msg_type_from_bits b =
     (let x = b AND 0x3 in if x = 0 then Con else if x = 1 then Non else if x = 2 then Ack else Rst)"

datatype http_method = Get | Post | Put | Delete | Fetch | Ipatch

definition method_code :: "http_method \<Rightarrow> u8" where
  "method_code m = (case m of Get \<Rightarrow> 1 | Post \<Rightarrow> 2 | Put \<Rightarrow> 3 | Delete \<Rightarrow> 4 | Fetch \<Rightarrow> 5 | Ipatch \<Rightarrow> 7)"

definition code_class :: "u8 \<Rightarrow> u8" where
  "code_class code = drop_bit 5 code"

definition code_detail :: "u8 \<Rightarrow> u8" where
  "code_detail code = code AND 0x1F"

definition RESPONSE_CONTINUE :: u8 where
  "RESPONSE_CONTINUE = push_bit 5 2 OR 31"

record block =
  block_num :: u32
  block_more :: bool
  block_szx :: u8

definition block_size :: "block \<Rightarrow> u32" where
  "block_size b = push_bit (unat (block_szx b) + 4) 1"

definition szx_for_size :: "u32 \<Rightarrow> u8 option" where
  "szx_for_size sz =
     (if sz = 16 then Some 0 else if sz = 32 then Some 1 else if sz = 64 then Some 2
      else if sz = 128 then Some 3 else if sz = 256 then Some 4 else if sz = 512 then Some 5
      else if sz = 1024 then Some 6 else None)"

definition encode_block :: "block \<Rightarrow> u32" where
  "encode_block b = push_bit 4 (block_num b) OR (if block_more b then push_bit 3 1 else 0) OR (ucast (block_szx b) AND 7)"

definition decode_block :: "u32 \<Rightarrow> block" where
  "decode_block r = \<lparr>block_num = drop_bit 4 r, block_more = (drop_bit 3 r AND 1 \<noteq> 0), block_szx = ucast (r AND 7)\<rparr>"

record request_params =
  req_method :: http_method
  req_msg_id :: u16
  req_token :: u8
  req_uri :: string
  req_content_format :: "u16 option"
  req_accept :: "u16 option"
  req_block1 :: "block option"
  req_block2 :: block
  req_payload :: bytes

section \<open>Options\<close>

definition opt_uint_encode :: "u32 \<Rightarrow> bytes" where
  "opt_uint_encode val =
     (if val = 0 then []
      else if val \<le> 0xFF then [ucast val]
      else if val \<le> 0xFFFF then be_enc 2 (unat (ucast val :: u16))
      else if val \<le> 0xFFFFFF then ucast (drop_bit 16 val) # be_enc 2 (unat (ucast (val AND 0xFFFF) :: u16))
      else be_enc 4 (unat val))"

definition opt_uint_decode :: "bytes \<Rightarrow> u32" where
  "opt_uint_decode val =
     (if length val = 1 then ucast (val ! 0)
      else if length val = 2 then word_of_nat (be_dec [val ! 0, val ! 1])
      else if length val = 3 then push_bit 16 (ucast (val ! 0)) OR word_of_nat (be_dec [val ! 1, val ! 2])
      else if length val = 4 then word_of_nat (be_dec val)
      else 0)"

text \<open>The writer: the bytes so far and the number of the last option.\<close>

record writer =
  buf :: bytes
  prev_opt :: u16

definition writer_new :: writer where
  "writer_new = \<lparr>buf = [], prev_opt = 0\<rparr>"

definition nibble :: "u16 \<Rightarrow> u8" where
  "nibble x = (if x < 13 then ucast x else if x < 269 then 13 else 14)"

definition nibble_ext :: "u16 \<Rightarrow> bytes" where
  "nibble_ext x =
     (if nibble x = 13 then [ucast (x - 13)]
      else if nibble x = 14 then be_enc 2 (unat (x - 269))
      else [])"

definition opt_header :: "u16 \<Rightarrow> u16 \<Rightarrow> bytes" where
  "opt_header delta len = [push_bit 4 (nibble delta) OR nibble len] @ nibble_ext delta @ nibble_ext len"

definition write_opt :: "u16 \<Rightarrow> bytes \<Rightarrow> writer \<Rightarrow> writer" where
  "write_opt opt_num val w =
     w\<lparr>buf := buf w @ opt_header (opt_num - prev_opt w) (word_of_nat (length val)) @ val, prev_opt := opt_num\<rparr>"

definition write_opt_uint :: "u16 \<Rightarrow> u32 \<Rightarrow> writer \<Rightarrow> writer" where
  "write_opt_uint opt_num val w = write_opt opt_num (opt_uint_encode val) w"

definition write_opt_block :: "u16 \<Rightarrow> block \<Rightarrow> writer \<Rightarrow> writer" where
  "write_opt_block opt_num b w = write_opt opt_num (opt_uint_encode (encode_block b)) w"

definition uri_segments :: "string \<Rightarrow> char \<Rightarrow> string list" where
  "uri_segments s delim = filter (\<lambda>seg. seg \<noteq> []) (split_on delim s)"

section \<open>Requests\<close>

definition encode_request :: "request_params \<Rightarrow> bytes" where
  "encode_request p =
     (let w = writer_new\<lparr>buf := [push_bit 6 1 OR 1, method_code (req_method p)]
            @ be_enc 2 (unat (req_msg_id p)) @ [req_token p]\<rparr>;
          (path, query) = (case split_once CHR ''?'' (req_uri p) of
              Some (path, query) \<Rightarrow> (path, Some query) | None \<Rightarrow> (req_uri p, None));
          path = (case strip_prefix ''/'' path of Some rest \<Rightarrow> rest | None \<Rightarrow> path);
          w = fold (\<lambda>seg. write_opt OPT_URI_PATH (as_bytes seg)) (uri_segments path CHR ''/'') w;
          w = (case req_content_format p of
              Some cf \<Rightarrow> write_opt_uint OPT_CONTENT_FORMAT (ucast cf) w | None \<Rightarrow> w);
          w = (case query of
              Some q \<Rightarrow> fold (\<lambda>seg. write_opt OPT_URI_QUERY (as_bytes seg)) (uri_segments q CHR ''&'') w
            | None \<Rightarrow> w);
          w = (case req_accept p of Some a \<Rightarrow> write_opt_uint OPT_ACCEPT (ucast a) w | None \<Rightarrow> w);
          w = write_opt_block OPT_BLOCK2 ((req_block2 p)\<lparr>block_more := False\<rparr>) w;
          w = (case req_block1 p of Some b \<Rightarrow> write_opt_block OPT_BLOCK1 b w | None \<Rightarrow> w)
      in buf w @ (if req_payload p \<noteq> [] then PAYLOAD_MARKER # req_payload p else []))"

section \<open>Received messages\<close>

record parsed_message =
  pm_type :: msg_type
  pm_code :: u8
  pm_msg_id :: u16
  pm_content_format :: "u16 option"
  pm_block1 :: "block option"
  pm_block2 :: "block option"
  pm_payload :: bytes

datatype parse_error = ParseError

text \<open>The extended form of an option's delta or length.\<close>

definition opt_extended :: "bytes \<Rightarrow> nat \<Rightarrow> u16 \<Rightarrow> parse_error + u16 \<times> nat" where
  "opt_extended msg pos v =
     (if v = 13 then
        if pos \<ge> length msg then Inl ParseError else Inr (ucast (msg ! pos) + 13, pos + 1)
      else if v = 14 then
        if pos + 1 \<ge> length msg then Inl ParseError
        else Inr (word_of_nat (be_dec [msg ! pos, msg ! (pos + 1)]) + 269, pos + 2)
      else if v = 15 then Inl ParseError
      else Inr (v, pos))"

definition apply_opt :: "u16 \<Rightarrow> bytes \<Rightarrow> parsed_message \<Rightarrow> parsed_message" where
  "apply_opt opt_num val m =
     (if opt_num = OPT_CONTENT_FORMAT then m\<lparr>pm_content_format := Some (ucast (opt_uint_decode val))\<rparr>
      else if opt_num = OPT_BLOCK2 then m\<lparr>pm_block2 := Some (decode_block (opt_uint_decode val))\<rparr>
      else if opt_num = OPT_BLOCK1 then m\<lparr>pm_block1 := Some (decode_block (opt_uint_decode val))\<rparr>
      else m)"

lemma opt_extended_pos: "opt_extended msg pos v = Inr (x, q) \<Longrightarrow> pos \<le> q"
  by (auto simp: opt_extended_def split: if_splits)

function parse_options :: "bytes \<Rightarrow> nat \<Rightarrow> u16 \<Rightarrow> parsed_message \<Rightarrow> parse_error + parsed_message" where
  "parse_options msg pos prev_opt_num m =
     (if pos < length msg then
        if msg ! pos = PAYLOAD_MARKER then
          if pos + 1 \<ge> length msg then Inl ParseError
          else Inr (m\<lparr>pm_payload := drop (pos + 1) msg\<rparr>)
        else
          rbind (opt_extended msg (pos + 1) (ucast (drop_bit 4 (msg ! pos) AND 0x0F))) (\<lambda>(opt_delta, p1).
          rbind (opt_extended msg p1 (ucast (msg ! pos AND 0x0F))) (\<lambda>(opt_len, p2).
          if p2 + unat opt_len > length msg then Inl ParseError
          else
            let opt_num = prev_opt_num + opt_delta in
            parse_options msg (p2 + unat opt_len) opt_num
              (apply_opt opt_num (take (unat opt_len) (drop p2 msg)) m)))
      else Inr m)"
  by pat_completeness auto
termination
  by (relation "measure (\<lambda>(msg, pos, _). length msg - pos)") (auto dest!: opt_extended_pos)

declare parse_options.simps [simp del]

definition parse :: "bytes \<Rightarrow> parse_error + parsed_message" where
  "parse msg =
     (if length msg < 4 then Inl ParseError
      else if drop_bit 6 (msg ! 0) AND 3 \<noteq> 1 then Inl ParseError
      else
        let tkl = unat (msg ! 0 AND 0x0F) in
        if tkl > 8 \<or> 4 + tkl > length msg then Inl ParseError
        else parse_options msg (4 + tkl) 0
          \<lparr>pm_type = msg_type_from_bits (drop_bit 4 (msg ! 0)), pm_code = msg ! 1,
           pm_msg_id = word_of_nat (be_dec [msg ! 2, msg ! 3]), pm_content_format = None,
           pm_block1 = None, pm_block2 = None, pm_payload = []\<rparr>)"

end
