(* ===== verification/Coap_Wire.thy ===== *)
theory Coap_Wire
  imports Coap_Message
begin

text \<open>
  The message layer's contract: option values and block options survive their encoding, a
  request is its header, its options in ascending order and its payload, and the parser
  reads exactly these options back.
\<close>

section \<open>Option values\<close>

lemma mask_and:
  "x AND 0xFFFF = take_bit 16 (x :: u32)" "x AND 7 = take_bit 3 (x :: u32)"
  "y AND 0x0F = take_bit 4 (y :: u8)" "x AND 1 = take_bit 1 (x :: u32)"
  by (simp_all add: take_bit_eq_mask mask_eq_exp_minus_1)

lemma ucast_ucast_8: "ucast (ucast w :: u8) = take_bit 8 (w :: u32)"
  by (rule bit_word_eqI) (auto simp: bit_ucast_iff bit_take_bit_iff)

lemma bit_8: "bit (8 :: int) i \<longleftrightarrow> i = 3" "bit (8 :: nat) i \<longleftrightarrow> i = 3"
  using bit_exp_iff [of 3 i, where 'a = int] bit_exp_iff [of 3 i, where 'a = nat] by auto

lemma drop_and_1: "drop_bit n (r :: u32) AND 1 \<noteq> 0 \<longleftrightarrow> bit r n"
  by (simp add: bit_iff_odd_drop_bit and_one_eq mod_2_eq_odd)

lemma unat_push_or: "push_bit n (drop_bit n x) OR take_bit n x = (x :: u32)"
  by (rule bit_word_eqI) (auto simp: bit_or_iff bit_push_bit_iff bit_drop_bit_eq bit_take_bit_iff)

lemma be_dec_2: "be_dec [be_enc 2 x ! 0, be_enc 2 x ! Suc 0] = x mod 65536"
  using be_dec_enc [of 2 x] by (simp add: numeral_2_eq_2)

lemma opt_uint_roundtrip: "opt_uint_decode (opt_uint_encode v) = v"
proof -
  consider "v = 0" | "v \<noteq> 0" "v \<le> 0xFF" | "\<not> v \<le> 0xFF" "v \<le> 0xFFFF" | "\<not> v \<le> 0xFFFF" "v \<le> 0xFFFFFF"
    | "\<not> v \<le> 0xFFFFFF" by blast
  then show ?thesis
  proof cases
    case 2
    then have "unat v < 256" by (simp add: word_le_nat_alt)
    with 2 show ?thesis
      by (simp add: opt_uint_decode_def opt_uint_encode_def word_unat_eq_iff unsigned_ucast_eq
          unsigned_take_bit_eq take_bit_nat_eq_self)
  next
    case 3
    then have lt: "unat v < 65536" by (simp add: word_le_nat_alt)
    then have "unat (ucast v :: u16) = unat v"
      by (simp add: unsigned_ucast_eq unsigned_take_bit_eq take_bit_nat_eq_self)
    with 3 lt show ?thesis
      by (auto simp: opt_uint_decode_def opt_uint_encode_def be_dec_2 simp del: be_enc.simps)
  next
    case 4
    then have "unat v < 2 ^ 24" by (simp add: word_le_nat_alt)
    then have "unat (drop_bit 16 v) < 256"
      by (subst unsigned_drop_bit_eq) (simp add: drop_bit_eq_div take_bit_nat_eq_self div_less_iff_less_mult)
    then have hi: "ucast (ucast (drop_bit 16 v) :: u8) = drop_bit 16 v"
      by (simp only: ucast_ucast_8) (rule take_bit_small, simp)
    have lo: "word_of_nat (be_dec [be_enc 2 (unat (ucast (take_bit 16 v) :: u16)) ! 0,
        be_enc 2 (unat (ucast (take_bit 16 v) :: u16)) ! 1]) = take_bit 16 v"
    proof -
      have "unat (ucast (take_bit 16 v) :: u16) = unat (take_bit 16 v)" "unat (take_bit 16 v) < 65536"
        using take_bit_nat_less_exp [of 16 "unat v"]
        by (simp_all add: unsigned_ucast_eq unsigned_take_bit_eq)
      then show ?thesis by (simp add: be_dec_2)
    qed
    have "\<not> v \<le> 0xFF" using 4 by (simp add: word_le_nat_alt)
    with 4 hi lo unat_push_or [of 16 v] show ?thesis
      by (auto simp: opt_uint_decode_def opt_uint_encode_def mask_and(1) simp del: be_enc.simps)
  next
    case 5
    have "unat v < 256 ^ 4" using unsigned_less [of v, where 'a = nat] by simp
    with 5 show ?thesis
      by (auto simp: opt_uint_decode_def opt_uint_encode_def be_dec_enc word_le_nat_alt simp del: be_enc.simps)
  qed (simp add: opt_uint_decode_def opt_uint_encode_def)
qed

lemma opt_uint_length: "length (opt_uint_encode v) \<le> 4"
  by (simp add: opt_uint_encode_def)

lemma block_roundtrip:
  assumes "unat (block_num b) < 2 ^ 28" "block_szx b < 8"
  shows "decode_block (encode_block b) = b"
proof -
  have "take_bit 28 (block_num b) = block_num b"
    using assms(1) by (simp add: word_unat_eq_iff unsigned_take_bit_eq take_bit_nat_eq_self)
  then have n: "bit (block_num b) i \<Longrightarrow> i < 28" for i by (metis bit_take_bit_iff)
  have s: "take_bit 3 (block_szx b) = block_szx b"
    using assms(2) by (simp add: word_unat_eq_iff unsigned_take_bit_eq take_bit_nat_eq_self word_less_nat_alt)
  then have sb: "bit (block_szx b) i \<Longrightarrow> i < 3" for i by (metis bit_take_bit_iff)
  show ?thesis
  proof (rule block.equality)
    show "block_num (decode_block (encode_block b)) = block_num b"
      by (rule bit_word_eqI)
        (auto simp: decode_block_def encode_block_def mask_and bit_drop_bit_eq bit_or_iff bit_push_bit_iff
          bit_take_bit_iff bit_8 dest: n split: if_splits)
    show "block_more (decode_block (encode_block b)) = block_more b"
    proof -
      have "block_more (decode_block r) = bit r 3" for r by (simp only: decode_block_def block.simps drop_and_1)
      moreover have "bit (encode_block b) 3 = block_more b"
        by (auto simp: encode_block_def bit_or_iff bit_push_bit_iff mask_and bit_take_bit_iff bit_8)
      ultimately show ?thesis by simp
    qed
    show "block_szx (decode_block (encode_block b)) = block_szx b"
      by (rule bit_word_eqI)
        (auto simp: decode_block_def encode_block_def mask_and bit_or_iff bit_push_bit_iff
          bit_take_bit_iff bit_ucast_iff bit_8 dest: sb split: if_splits)
  qed simp
qed

section \<open>The option list\<close>

lemma nibble_cases:
  obtains (small) "x < 13" "nibble x = ucast x" "nibble_ext x = []"
  | (byte) "\<not> x < 13" "x < 269" "nibble x = 13" "nibble_ext x = [ucast (x - 13)]"
  | (short) "\<not> x < 13" "\<not> x < 269" "nibble x = 14" "nibble_ext x = be_enc 2 (unat (x - 269))"
proof -
  have "x < 13 \<Longrightarrow> unat (ucast x :: u8) < 13"
    by (simp add: unsigned_ucast_eq unsigned_take_bit_eq take_bit_nat_eq_self word_less_nat_alt)
  then have "x < 13 \<Longrightarrow> (ucast x :: u8) \<noteq> 13 \<and> (ucast x :: u8) \<noteq> 14" by auto
  with that show thesis by (cases "x < 13"; cases "x < 269") (auto simp: nibble_def nibble_ext_def)
qed

lemma unat_nibble: "unat (nibble x) \<le> 14"
proof (cases x rule: nibble_cases)
  case small
  then have "unat x < 13" by (simp add: word_less_nat_alt)
  then have "unat (ucast x :: u8) < 13"
    by (simp add: unsigned_ucast_eq unsigned_take_bit_eq take_bit_nat_eq_self)
  with small show ?thesis by simp
qed simp_all

lemma header_byte:
  fixes d l :: u8
  assumes "unat d < 16" "unat l < 15"
  shows "drop_bit 4 (push_bit 4 d OR l) AND 0x0F = d" "(push_bit 4 d OR l) AND 0x0F = l"
    and "push_bit 4 d OR l \<noteq> PAYLOAD_MARKER"
proof -
  have d: "take_bit 4 d = d" and l: "take_bit 4 l = l" using assms by (simp_all add: take_bit_small)
  then have bl: "bit l i \<Longrightarrow> i < 4" and bd: "bit d i \<Longrightarrow> i < 4" for i by (metis bit_take_bit_iff)+
  show "drop_bit 4 (push_bit 4 d OR l) AND 0x0F = d"
    by (rule bit_word_eqI)
      (auto simp: mask_and bit_drop_bit_eq bit_or_iff bit_push_bit_iff bit_take_bit_iff dest: bl bd)
  show low: "(push_bit 4 d OR l) AND 0x0F = l"
    by (rule bit_word_eqI)
      (auto simp: mask_and bit_or_iff bit_push_bit_iff bit_take_bit_iff dest: bl)
  show "push_bit 4 d OR l \<noteq> PAYLOAD_MARKER"
  proof
    assume "push_bit 4 d OR l = PAYLOAD_MARKER"
    with low have "l = 0x0F" by simp
    with assms(2) show False by simp
  qed
qed

lemma opt_extended_nibble:
  "opt_extended (pre @ nibble_ext x @ rest) (length pre) (ucast (nibble x))
     = Inr (x, length pre + length (nibble_ext x))"
proof (cases x rule: nibble_cases)
  case small
  then have "unat x < 13" by (simp add: word_less_nat_alt)
  then have "ucast (ucast x :: u8) = x" "x \<noteq> 13" "x \<noteq> 14" "x \<noteq> 15"
    by (auto simp: word_unat_eq_iff unsigned_ucast_eq unsigned_take_bit_eq take_bit_nat_eq_self)
  with small show ?thesis by (simp add: opt_extended_def)
next
  case byte
  then have x: "13 \<le> unat x" "unat x < 269" by (auto simp: word_less_nat_alt)
  then have "unat (x - 13) = unat x - 13" by (subst unat_sub) (simp_all add: word_le_nat_alt)
  then have "ucast (ucast (x - 13) :: u8) = x - 13" using x
    by (simp add: word_unat_eq_iff unsigned_ucast_eq unsigned_take_bit_eq take_bit_nat_eq_self)
  with byte show ?thesis by (simp add: opt_extended_def)
next
  case short
  then have x: "269 \<le> unat x" by (auto simp: word_less_nat_alt)
  have "unat (x - 269) < 65536" using unsigned_less [of "x - 269", where 'a = nat] by simp
  then have "word_of_nat (be_dec (be_enc 2 (unat (x - 269)))) = x - 269" by (simp add: be_dec_enc)
  moreover obtain a b where ab: "be_enc 2 (unat (x - 269)) = [a, b]"
    by (simp add: numeral_2_eq_2)
  ultimately show ?thesis using short by (simp add: opt_extended_def nth_append)
qed

lemma parse_options_step:
  fixes prev opt_num :: u16
  assumes "length val < 65536"
  defines "h \<equiv> opt_header (opt_num - prev) (word_of_nat (length val))"
  shows "parse_options (pre @ h @ val @ rest) (length pre) prev m
     = parse_options (pre @ h @ val @ rest) (length pre + length h + length val) opt_num (apply_opt opt_num val m)"
proof -
  let ?d = "opt_num - prev" and ?l = "word_of_nat (length val) :: u16"
  let ?b = "push_bit 4 (nibble ?d) OR nibble ?l"
  let ?msg = "pre @ h @ val @ rest"
  have l: "unat ?l = length val" using assms(1) by (simp add: unat_of_nat)
  have h: "h = [?b] @ nibble_ext ?d @ nibble_ext ?l" by (simp add: h_def opt_header_def)
  have "unat (nibble ?d) < 16" "unat (nibble ?l) < 15"
    using unat_nibble [of ?d] unat_nibble [of ?l] by linarith+
  note hb = header_byte [OF this]
  have b: "?msg ! length pre = ?b" "length pre < length ?msg" by (simp_all add: h)
  have e1: "opt_extended ?msg (length pre + 1) (ucast (nibble ?d))
      = Inr (?d, length pre + 1 + length (nibble_ext ?d))"
    using opt_extended_nibble [of "pre @ [?b]" ?d "nibble_ext ?l @ val @ rest"] by (simp add: h)
  have e2: "opt_extended ?msg (length pre + 1 + length (nibble_ext ?d)) (ucast (nibble ?l))
      = Inr (?l, length pre + length h)"
    using opt_extended_nibble [of "pre @ [?b] @ nibble_ext ?d" ?l "val @ rest"] by (simp add: h)
  have v: "take (length val) (drop (length pre + length h) ?msg) = val" by simp
  have "length pre + length h + length val \<le> length ?msg" by simp
  with b hb e1 e2 v show ?thesis
    by (subst parse_options.simps) (simp add: l del: drop_bit_or)
qed

text \<open>A list of options as the writer lays it out.\<close>

fun opts_bytes :: "u16 \<Rightarrow> (u16 \<times> bytes) list \<Rightarrow> bytes" where
  "opts_bytes prev [] = []"
| "opts_bytes prev ((n, val) # opts) =
     opt_header (n - prev) (word_of_nat (length val)) @ val @ opts_bytes n opts"

definition apply_opts :: "(u16 \<times> bytes) list \<Rightarrow> parsed_message \<Rightarrow> parsed_message" where
  "apply_opts opts m = fold (\<lambda>(n, val). apply_opt n val) opts m"

lemma writer_opts:
  "buf (fold (\<lambda>(n, val). write_opt n val) opts w) = buf w @ opts_bytes (prev_opt w) opts"
  by (induction opts arbitrary: w) (auto simp: write_opt_def)

lemma parse_opts:
  "\<forall>(n, val) \<in> set opts. length val < 65536 \<Longrightarrow>
   \<exists>prev'. parse_options (pre @ opts_bytes prev opts @ tail) (length pre) prev m
     = parse_options (pre @ opts_bytes prev opts @ tail) (length pre + length (opts_bytes prev opts)) prev'
         (apply_opts opts m)"
proof (induction opts arbitrary: pre prev m)
  case Nil
  then show ?case by (auto simp: apply_opts_def)
next
  case (Cons o' opts)
  obtain n val where o: "o' = (n, val)" by fastforce
  let ?h = "opt_header (n - prev) (word_of_nat (length val))"
  have "parse_options (pre @ ?h @ val @ opts_bytes n opts @ tail) (length pre) prev m
     = parse_options (pre @ ?h @ val @ opts_bytes n opts @ tail) (length pre + length ?h + length val) n
         (apply_opt n val m)"
    using Cons.prems o by (intro parse_options_step) auto
  moreover obtain prev' where "parse_options ((pre @ ?h @ val) @ opts_bytes n opts @ tail)
      (length (pre @ ?h @ val)) n (apply_opt n val m)
     = parse_options ((pre @ ?h @ val) @ opts_bytes n opts @ tail)
      (length (pre @ ?h @ val) + length (opts_bytes n opts)) prev' (apply_opts opts (apply_opt n val m))"
    using Cons.IH [of "pre @ ?h @ val" n "apply_opt n val m"] Cons.prems by auto
  ultimately show ?case using o by (auto simp: apply_opts_def add.assoc)
qed

section \<open>A request as a list of options\<close>

definition uri_path :: "string \<Rightarrow> string" where
  "uri_path uri =
     (let path = (case split_once CHR ''?'' uri of Some (path, _) \<Rightarrow> path | None \<Rightarrow> uri)
      in case strip_prefix ''/'' path of Some rest \<Rightarrow> rest | None \<Rightarrow> path)"

definition uri_queries :: "string \<Rightarrow> string list" where
  "uri_queries uri = (case split_once CHR ''?'' uri of
     Some (_, q) \<Rightarrow> uri_segments q CHR ''&'' | None \<Rightarrow> [])"

definition request_opts :: "request_params \<Rightarrow> (u16 \<times> bytes) list" where
  "request_opts p =
     map (\<lambda>seg. (OPT_URI_PATH, as_bytes seg)) (uri_segments (uri_path (req_uri p)) CHR ''/'')
     @ (case req_content_format p of Some cf \<Rightarrow> [(OPT_CONTENT_FORMAT, opt_uint_encode (ucast cf))] | None \<Rightarrow> [])
     @ map (\<lambda>seg. (OPT_URI_QUERY, as_bytes seg)) (uri_queries (req_uri p))
     @ (case req_accept p of Some a \<Rightarrow> [(OPT_ACCEPT, opt_uint_encode (ucast a))] | None \<Rightarrow> [])
     @ [(OPT_BLOCK2, opt_uint_encode (encode_block ((req_block2 p)\<lparr>block_more := False\<rparr>)))]
     @ (case req_block1 p of Some b \<Rightarrow> [(OPT_BLOCK1, opt_uint_encode (encode_block b))] | None \<Rightarrow> [])"

definition request_header :: "request_params \<Rightarrow> bytes" where
  "request_header p =
     [push_bit 6 1 OR 1, method_code (req_method p)] @ be_enc 2 (unat (req_msg_id p)) @ [req_token p]"

definition request_tail :: "request_params \<Rightarrow> bytes" where
  "request_tail p = (if req_payload p \<noteq> [] then PAYLOAD_MARKER # req_payload p else [])"

lemma fold_write_opt_map:
  "fold (\<lambda>seg. write_opt n (f seg)) segs w = fold (\<lambda>(n, val). write_opt n val) (map (\<lambda>seg. (n, f seg)) segs) w"
  by (induction segs arbitrary: w) simp_all

lemma encode_request_eq:
  "encode_request p = request_header p @ opts_bytes 0 (request_opts p) @ request_tail p"
proof -
  have "encode_request p = buf (fold (\<lambda>(n, val). write_opt n val) (request_opts p)
      (writer_new\<lparr>buf := request_header p\<rparr>)) @ request_tail p"
    by (simp add: encode_request_def request_opts_def request_header_def request_tail_def uri_path_def
        uri_queries_def write_opt_uint_def write_opt_block_def fold_write_opt_map Let_def
        split: option.split prod.split)
  then show ?thesis by (simp add: writer_opts writer_new_def)
qed

lemma apply_opts_append: "apply_opts (xs @ ys) m = apply_opts ys (apply_opts xs m)"
  by (simp add: apply_opts_def)

lemma apply_opts_Nil [simp]: "apply_opts [] m = m"
  by (simp add: apply_opts_def)

lemma apply_opts_Cons [simp]: "apply_opts ((n, val) # opts) m = apply_opts opts (apply_opt n val m)"
  by (simp add: apply_opts_def)

lemma apply_opts_other:
  "\<forall>(n, val) \<in> set opts. n \<notin> {OPT_CONTENT_FORMAT, OPT_BLOCK1, OPT_BLOCK2} \<Longrightarrow> apply_opts opts m = m"
  by (induction opts arbitrary: m) (auto simp: apply_opts_def apply_opt_def)

definition request_ok :: "request_params \<Rightarrow> bool" where
  "request_ok p \<longleftrightarrow>
     (\<forall>seg \<in> set (uri_segments (uri_path (req_uri p)) CHR ''/'' @ uri_queries (req_uri p)). length seg < 65536)
     \<and> (\<forall>b \<in> {req_block2 p} \<union> set_option (req_block1 p). unat (block_num b) < 2 ^ 28 \<and> block_szx b < 8)"

lemma ucast_u16: "ucast (ucast (cf :: u16) :: u32) = cf"
  by (rule bit_word_eqI) (auto simp: bit_ucast_iff dest: bit_imp_le_length)

lemma apply_request_opts:
  assumes "request_ok p"
  shows "apply_opts (request_opts p) m = m\<lparr>
    pm_content_format := (case req_content_format p of Some cf \<Rightarrow> Some cf | None \<Rightarrow> pm_content_format m),
    pm_block2 := Some ((req_block2 p)\<lparr>block_more := False\<rparr>),
    pm_block1 := (case req_block1 p of Some b \<Rightarrow> Some b | None \<Rightarrow> pm_block1 m)\<rparr>"
proof -
  have path: "apply_opts (map (\<lambda>seg. (OPT_URI_PATH, as_bytes seg)) segs) m' = m'" for segs m'
    by (rule apply_opts_other) (auto simp: option_numbers)
  have query: "apply_opts (map (\<lambda>seg. (OPT_URI_QUERY, as_bytes seg)) segs) m' = m'" for segs m'
    by (rule apply_opts_other) (auto simp: option_numbers)
  have cf: "apply_opt OPT_CONTENT_FORMAT (opt_uint_encode (ucast cf)) m' = m'\<lparr>pm_content_format := Some cf\<rparr>"
    for cf :: u16 and m' by (simp add: apply_opt_def opt_uint_roundtrip ucast_u16)
  have acc: "apply_opt OPT_ACCEPT v m' = m'" for v m'
    by (simp add: apply_opt_def option_numbers)
  have b2: "apply_opt OPT_BLOCK2 (opt_uint_encode (encode_block ((req_block2 p)\<lparr>block_more := False\<rparr>))) m'
      = m'\<lparr>pm_block2 := Some ((req_block2 p)\<lparr>block_more := False\<rparr>)\<rparr>" for m'
  proof -
    have "decode_block (encode_block ((req_block2 p)\<lparr>block_more := False\<rparr>)) = (req_block2 p)\<lparr>block_more := False\<rparr>"
      using assms by (intro block_roundtrip) (simp_all add: request_ok_def)
    then show ?thesis by (simp add: apply_opt_def opt_uint_roundtrip option_numbers)
  qed
  have b1: "apply_opt OPT_BLOCK1 (opt_uint_encode (encode_block b)) m' = m'\<lparr>pm_block1 := Some b\<rparr>"
    if "req_block1 p = Some b" for b m'
  proof -
    have "decode_block (encode_block b) = b" using assms that by (intro block_roundtrip) (simp_all add: request_ok_def)
    then show ?thesis by (simp add: apply_opt_def opt_uint_roundtrip option_numbers)
  qed
  show ?thesis
    by (cases "req_content_format p"; cases "req_accept p"; cases "req_block1 p")
      (simp_all add: request_opts_def apply_opts_append path query cf acc b2 b1)
qed

lemma request_opts_short:
  assumes "request_ok p"
  shows "\<forall>(n, val) \<in> set (request_opts p). length val < 65536"
proof -
  have "length (opt_uint_encode v) < 65536" for v using opt_uint_length [of v] by simp
  with assms show ?thesis by (auto simp: request_opts_def request_ok_def split: option.splits)
qed

lemma parse_options_tail:
  "parse_options (pre @ request_tail p) (length pre) prev m
     = Inr (if req_payload p = [] then m else m\<lparr>pm_payload := req_payload p\<rparr>)"
  by (subst parse_options.simps) (simp add: request_tail_def)

lemma parse_header:
  "parse (request_header p @ rest) = parse_options (request_header p @ rest) 5 0
     \<lparr>pm_type = Con, pm_code = method_code (req_method p), pm_msg_id = req_msg_id p,
      pm_content_format = None, pm_block1 = None, pm_block2 = None, pm_payload = []\<rparr>"
proof -
  have "unat (req_msg_id p) < 65536" using unsigned_less [of "req_msg_id p", where 'a = nat] by simp
  then have "word_of_nat (be_dec (be_enc 2 (unat (req_msg_id p)))) = req_msg_id p" by (simp add: be_dec_enc)
  moreover obtain a b where "be_enc 2 (unat (req_msg_id p)) = [a, b]" by (simp add: numeral_2_eq_2)
  ultimately have id: "word_of_nat (be_dec [a, b]) = req_msg_id p" and
    h: "request_header p = [0x41, method_code (req_method p), a, b, req_token p]"
    by (simp_all add: request_header_def)
  show ?thesis unfolding h using id
    by (simp add: parse_def Let_def msg_type_from_bits_def)
qed

lemma parse_encode_request:
  assumes "request_ok p"
  shows "parse (encode_request p) = Inr \<lparr>pm_type = Con, pm_code = method_code (req_method p),
    pm_msg_id = req_msg_id p, pm_content_format = req_content_format p, pm_block1 = req_block1 p,
    pm_block2 = Some ((req_block2 p)\<lparr>block_more := False\<rparr>), pm_payload = req_payload p\<rparr>"
proof -
  have len: "length (request_header p) = 5" by (simp add: request_header_def)
  let ?m = "\<lparr>pm_type = Con, pm_code = method_code (req_method p), pm_msg_id = req_msg_id p,
      pm_content_format = None, pm_block1 = None, pm_block2 = None, pm_payload = []\<rparr>"
  let ?o = "opts_bytes 0 (request_opts p)"
  obtain prev' where "parse_options (request_header p @ ?o @ request_tail p) 5 0 ?m
     = parse_options (request_header p @ ?o @ request_tail p) (5 + length ?o) prev'
         (apply_opts (request_opts p) ?m)"
    using parse_opts [OF request_opts_short [OF assms], of "request_header p" 0 "request_tail p" ?m] len by auto
  moreover have "parse_options (request_header p @ ?o @ request_tail p) (5 + length ?o) prev' m
      = Inr (if req_payload p = [] then m else m\<lparr>pm_payload := req_payload p\<rparr>)" for m
    using parse_options_tail [of "request_header p @ ?o" p prev' m] len by simp
  ultimately show ?thesis
    by (auto simp: encode_request_eq parse_header apply_request_opts [OF assms] split: option.splits)
qed

section \<open>The contract of the message layer\<close>

text \<open>
  C22: A request that is sent reads back as itself: for every method, identifier, URI with
  segments shorter than 65536 bytes, content format and block options in range, parsing
  the encoded request gives exactly its method code, message identifier, content format,
  block options and payload.
\<close>

theorem coap_request_roundtrip:
  assumes "request_ok p"
  shows "parse (encode_request p) = Inr \<lparr>pm_type = Con, pm_code = method_code (req_method p),
    pm_msg_id = req_msg_id p, pm_content_format = req_content_format p, pm_block1 = req_block1 p,
    pm_block2 = Some ((req_block2 p)\<lparr>block_more := False\<rparr>), pm_payload = req_payload p\<rparr>"
  by (rule parse_encode_request [OF assms])

theorem coap_request_roundtrip_witness:
  "parse (encode_request \<lparr>req_method = Fetch, req_msg_id = 0x1234, req_token = 7, req_uri = ''c?d=a'',
      req_content_format = Some 141, req_accept = None, req_block1 = Some \<lparr>block_num = 2, block_more = True, block_szx = 4\<rparr>,
      req_block2 = \<lparr>block_num = 0, block_more = False, block_szx = 4\<rparr>, req_payload = [1, 2]\<rparr>)
   = Inr \<lparr>pm_type = Con, pm_code = 5, pm_msg_id = 0x1234, pm_content_format = Some 141,
      pm_block1 = Some \<lparr>block_num = 2, block_more = True, block_szx = 4\<rparr>,
      pm_block2 = Some \<lparr>block_num = 0, block_more = False, block_szx = 4\<rparr>, pm_payload = [1, 2]\<rparr>"
  by (subst coap_request_roundtrip)
    (simp_all add: request_ok_def uri_path_def uri_queries_def uri_segments_def method_code_def)

text \<open>
  C27: The options of a request are written in ascending order of their numbers, so the
  writer's subtraction of the previous number never wraps.
\<close>

theorem request_options_ascending:
  "sorted (map fst (request_opts p))
   \<and> encode_request p = request_header p @ opts_bytes 0 (request_opts p) @ request_tail p"
proof
  show "sorted (map fst (request_opts p))"
    by (auto simp: request_opts_def sorted_append option_numbers o_def map_replicate_const split: option.splits)
qed (rule encode_request_eq)

text \<open>A block option value survives its encoding for every block number below \<open>2 ^ 28\<close>.\<close>

lemma coap_block_roundtrip:
  assumes "unat (block_num b) < 2 ^ 28" "block_szx b < 8"
  shows "decode_block (opt_uint_decode (opt_uint_encode (encode_block b))) = b"
  by (simp add: opt_uint_roundtrip block_roundtrip [OF assms])

section \<open>Option numbers that wrap around\<close>

lemma opt_extended_shift:
  "opt_extended (pre @ msg) (length pre + pos) v
     = (case opt_extended msg pos v of Inl e \<Rightarrow> Inl e | Inr (x, p) \<Rightarrow> Inr (x, length pre + p))"
  by (simp add: opt_extended_def nth_append)

lemma parse_options_shift: "parse_options (pre @ msg) (length pre + pos) prev m = parse_options msg pos prev m"
proof (induction msg pos prev m rule: parse_options.induct)
  case (1 msg pos prev m)
  let ?b = "msg ! pos"
  show ?case
  proof (cases "pos < length msg \<and> ?b \<noteq> PAYLOAD_MARKER")
    case False
    then show ?thesis by (subst (1 2) parse_options.simps) (auto simp: nth_append)
  next
    case True
    show ?thesis
    proof (cases "opt_extended msg (pos + 1) (ucast (drop_bit 4 ?b AND 0x0F))")
      case (Inl e)
      with True opt_extended_shift [of pre msg "pos + 1"] show ?thesis
        by (subst (1 2) parse_options.simps) (simp add: nth_append)
    next
      case (Inr r)
      obtain d p1 where d: "opt_extended msg (pos + 1) (ucast (drop_bit 4 ?b AND 0x0F)) = Inr (d, p1)"
        using Inr by (cases r) simp
      show ?thesis
      proof (cases "opt_extended msg p1 (ucast (?b AND 0x0F))")
        case (Inl e)
        with True d opt_extended_shift [of pre msg "pos + 1"] opt_extended_shift [of pre msg p1] show ?thesis
          by (subst (1 2) parse_options.simps) (simp add: nth_append)
      next
        case (Inr r')
        obtain n p2 where n: "opt_extended msg p1 (ucast (?b AND 0x0F)) = Inr (n, p2)" using Inr by (cases r') simp
        have "p2 + unat n \<le> length msg \<Longrightarrow>
            parse_options (pre @ msg) (length pre + (p2 + unat n)) (prev + d)
              (apply_opt (prev + d) (take (unat n) (drop p2 msg)) m)
            = parse_options msg (p2 + unat n) (prev + d) (apply_opt (prev + d) (take (unat n) (drop p2 msg)) m)"
          using "1.IH" True d n by (simp add: not_less)
        with True d n opt_extended_shift [of pre msg "pos + 1"] opt_extended_shift [of pre msg p1] show ?thesis
          by (subst (1 2) parse_options.simps) (simp add: nth_append add.assoc)
      qed
    qed
  qed
qed

text \<open>The option \<open>number\<close> of RFC 7252 as the first one of a message, in its two-byte extended form.\<close>

definition far_option :: "nat \<Rightarrow> bytes \<Rightarrow> bytes" where
  "far_option number val = [push_bit 4 14 OR nibble (word_of_nat (length val))] @ be_enc 2 (number - 269)
     @ nibble_ext (word_of_nat (length val)) @ val"

lemma parse_far_option:
  assumes "65536 \<le> number" "number < 65536 + 269" "length val < 65536"
  shows "parse_options (far_option number val @ rest) 0 0 m =
    parse_options rest 0 (word_of_nat (number - 65536)) (apply_opt (word_of_nat (number - 65536)) val m)"
proof -
  let ?l = "word_of_nat (length val) :: u16"
  let ?b = "push_bit 4 14 OR nibble ?l"
  let ?msg = "far_option number val @ rest"
  have l: "unat ?l = length val" using assms(3) by (simp add: unat_of_nat)
  obtain hi lo where hl: "be_enc 2 (number - 269) = [hi, lo]" by (simp add: numeral_2_eq_2)
  have msg: "?msg = ([?b, hi, lo] @ nibble_ext ?l @ val) @ rest" by (simp add: far_option_def hl)
  have "unat (nibble ?l) < 15" using unat_nibble [of ?l] by linarith
  note hb = header_byte [of 14, OF _ this]
  obtain n where n: "number = 65536 + n" "n < 269" using assms(1,2) by (metis add_less_cancel_left le_Suc_ex)
  have "be_dec [hi, lo] = 65267 + n" using be_dec_enc [of 2 "65267 + n"] hl n by simp
  moreover have "(word_of_nat (65267 + n) :: u16) + 269 = word_of_nat n" by simp
  moreover have "?msg ! 1 = hi" "?msg ! (1 + 1) = lo" "\<not> length ?msg \<le> 1 + 1" by (simp_all add: msg)
  ultimately have e1: "opt_extended ?msg 1 14 = Inr (word_of_nat (number - 65536), 3)"
    unfolding opt_extended_def n(1) by (simp del: of_nat_add)
  have e2: "opt_extended ?msg 3 (ucast (nibble ?l)) = Inr (?l, 3 + length (nibble_ext ?l))"
    using opt_extended_nibble [of "[?b, hi, lo]" ?l "val @ rest"] by (simp add: msg numeral_3_eq_3)
  have v: "take (length val) (drop (3 + length (nibble_ext ?l)) ?msg) = val" by (simp add: msg numeral_3_eq_3)
  have "parse_options ?msg 0 0 m = parse_options ?msg (3 + length (nibble_ext ?l) + length val)
      (word_of_nat (number - 65536)) (apply_opt (word_of_nat (number - 65536)) val m)"
    using hb e1 e2 v by (subst parse_options.simps) (simp add: msg l Let_def del: drop_bit_or)
  also have "\<dots> = parse_options rest 0 (word_of_nat (number - 65536)) (apply_opt (word_of_nat (number - 65536)) val m)"
    using parse_options_shift [of "[?b, hi, lo] @ nibble_ext ?l @ val" rest 0] by (simp add: msg add.assoc numeral_3_eq_3)
  finally show ?thesis .
qed

lemma parse_near_option:
  assumes "length val < 65536"
  shows "parse_options (opt_header n (word_of_nat (length val)) @ val @ rest) 0 0 m = parse_options rest 0 n (apply_opt n val m)"
  using parse_options_step [OF assms, of "[]" n 0 rest m]
    parse_options_shift [of "opt_header n (word_of_nat (length val)) @ val" rest 0] by simp

text \<open>
  C30: The sum of a received option number is not checked. Every number that RFC 7252 can write for
  the first option of a message and that does not fit 16 bits wraps around: the message is parsed as
  if it had the option of that number less 65536 there, whatever the option's value and the rest of
  the message are. So an option 65548 is taken for a content format. (A build with overflow checks
  panics at the addition.)
\<close>

theorem parse_option_number_wraps:
  assumes "65536 \<le> number" "number < 65536 + 269" "length val < 65536"
    and "length header = 4 + unat (header ! 0 AND 0x0F)"
  shows "parse (header @ far_option number val @ rest) =
    parse (header @ opt_header (word_of_nat (number - 65536)) (word_of_nat (length val)) @ val @ rest)"
proof -
  have "parse_options (header @ far_option number val @ rest) (4 + unat (header ! 0 AND 0x0F)) 0 m =
      parse_options (header @ opt_header (word_of_nat (number - 65536)) (word_of_nat (length val)) @ val @ rest)
        (4 + unat (header ! 0 AND 0x0F)) 0 m" for m
    using parse_options_shift [of header _ 0 0 m] parse_far_option [OF assms(1-3)] parse_near_option [OF assms(3)]
    by (simp add: assms(4) [symmetric])
  moreover have "(header @ x) ! k = header ! k" if "k < 4" for x k
    using that assms(4) by (simp add: nth_append)
  ultimately show ?thesis using assms(4) by (simp add: parse_def Let_def)
qed

theorem parse_option_number_wraps_witness:
  "parse [0x60, 0x45, 0, 1, 0xE1, 0xFE, 0xFF, 42] = parse [0x60, 0x45, 0, 1, 0xC1, 42]
   \<and> map_sum id pm_content_format (parse [0x60, 0x45, 0, 1, 0xC1, 42]) = Inr (Some 42)"
proof
  show "parse [0x60, 0x45, 0, 1, 0xE1, 0xFE, 0xFF, 42] = parse [0x60, 0x45, 0, 1, 0xC1, 42]"
  proof -
    have "be_enc (Suc (Suc 0)) 65279 = [0xFE, 0xFF]" by simp
    then have "be_enc 2 (65548 - 269) = [0xFE, 0xFF]" by (simp only: numeral_2_eq_2) simp
    moreover have "nibble 1 = 1" "nibble_ext 1 = []" by code_simp+
    ultimately have "far_option 65548 [42] = [0xE1, 0xFE, 0xFF, 42]" by (simp add: far_option_def)
    moreover have "opt_header (word_of_nat (65548 - 65536)) (word_of_nat (length [42 :: u8])) = opt_header 12 1" by simp
    moreover have "opt_header 12 1 = [0xC1]" by code_simp
    ultimately show ?thesis using parse_option_number_wraps [of 65548 "[42]" "[0x60, 0x45, 0, 1]" "[]"]
      by (simp del: be_enc.simps)
  qed
  show "map_sum id pm_content_format (parse [0x60, 0x45, 0, 1, 0xC1, 42]) = Inr (Some 42)"
    by (simp add: parse_def parse_options.simps [of _ 4] parse_options.simps [of _ 6] opt_extended_def
      apply_opt_def option_numbers opt_uint_decode_def be_dec_def Let_def)
qed

end
