(* ===== verification/Mup1_Checksum.thy ===== *)
theory Mup1_Checksum
  imports Prelude
begin

text \<open>
  The two checksums of a MUP1 connection (\<open>src/mup1/src/checksum.rs\<close>): the internet
  checksum of RFC 1071 in four hexadecimal digits, and CRC-32 in five base-128 digits.
  The table-driven CRC is shown equal to a bit-serial shift register, the folded sum to
  the one's-complement sum of 16-bit words, and the base-128 digits to avoid every byte
  with a meaning on the wire.
\<close>

section \<open>The algorithms\<close>

datatype checksum_type = Internet | Crc32

definition encoded_len :: "checksum_type \<Rightarrow> nat" where
  "encoded_len t = (case t of Internet \<Rightarrow> 4 | Crc32 \<Rightarrow> 5)"

datatype running = Running_Internet u32 u16 | Running_Crc32 u32

definition running_new :: "checksum_type \<Rightarrow> running" where
  "running_new t = (case t of
     Internet \<Rightarrow> Running_Internet 0 0
   | Crc32 \<Rightarrow> Running_Crc32 0xFFFFFFFF)"

text \<open>The CRC table, each entry from eight steps of the reflected polynomial.\<close>

definition crc32_step :: "u32 \<Rightarrow> u32" where
  "crc32_step c = (if c AND 1 \<noteq> 0 then 0xEDB88320 XOR drop_bit 1 c else drop_bit 1 c)"

definition build_crc32_table :: "u32 list" where
  "build_crc32_table = map (\<lambda>i. (crc32_step ^^ 8) (word_of_nat i)) [0..<256]"

text \<open>
  Feeding one byte. The additions wrap, as in a release build: the position's only its
  parity matters, and the sum does not below 131072 bytes (\<open>run_internet\<close>).
\<close>

definition running_update :: "u8 \<Rightarrow> running \<Rightarrow> running" where
  "running_update byte r = (case r of
     Running_Internet acc pos \<Rightarrow>
       Running_Internet
         (if pos mod 2 \<noteq> 0 then acc + ucast byte else acc + push_bit 8 (ucast byte))
         (pos + 1)
   | Running_Crc32 crc \<Rightarrow>
       Running_Crc32
         (drop_bit 8 crc XOR build_crc32_table ! unat ((crc XOR ucast byte) AND 0xFF)))"

definition inet_fold :: "u32 \<Rightarrow> u16" where
  "inet_fold acc =
     (let sum1 = drop_bit 16 acc + (acc AND 0xFFFF);
          sum2 = drop_bit 16 sum1 + (sum1 AND 0xFFFF)
      in NOT (ucast sum2))"

definition hex_digit :: "u8 \<Rightarrow> u8" where
  "hex_digit nibble = (if nibble < 10 then 0x30 + nibble else 0x61 + nibble - 10)"

definition hex4 :: "u16 \<Rightarrow> bytes" where
  "hex4 w = map (\<lambda>i. hex_digit (ucast (drop_bit (12 - 4 * i) w AND 0xF))) [0, 1, 2, 3]"

definition BASE128_ENCODE :: bytes where
  "BASE128_ENCODE = [
    0x2F, 0x30, 0x31, 0x32, 0x33, 0x34, 0x35, 0x36, 0x37, 0x38, 0x39, 0x3F, 0x40, 0x41, 0x42, 0x43,
    0x44, 0x45, 0x46, 0x47, 0x48, 0x49, 0x4A, 0x4B, 0x4C, 0x4D, 0x4E, 0x4F, 0x50, 0x51, 0x52, 0x53,
    0x54, 0x55, 0x56, 0x57, 0x58, 0x59, 0x5A, 0x61, 0x62, 0x63, 0x64, 0x65, 0x66, 0x67, 0x68, 0x69,
    0x6A, 0x6B, 0x6C, 0x6D, 0x6E, 0x6F, 0x70, 0x71, 0x72, 0x73, 0x74, 0x75, 0x76, 0x77, 0x78, 0x79,
    0x7A, 0xBF, 0xC0, 0xC1, 0xC2, 0xC3, 0xC4, 0xC5, 0xC6, 0xC7, 0xC8, 0xC9, 0xCA, 0xCB, 0xCC, 0xCD,
    0xCE, 0xCF, 0xD0, 0xD1, 0xD2, 0xD3, 0xD4, 0xD5, 0xD6, 0xD7, 0xD8, 0xD9, 0xDA, 0xDB, 0xDC, 0xDD,
    0xDE, 0xDF, 0xE0, 0xE1, 0xE2, 0xE3, 0xE4, 0xE5, 0xE6, 0xE7, 0xE8, 0xE9, 0xEA, 0xEB, 0xEC, 0xED,
    0xEE, 0xEF, 0xF0, 0xF1, 0xF2, 0xF3, 0xF4, 0xF5, 0xF6, 0xF7, 0xF8, 0xF9, 0xFA, 0xFB, 0xFC, 0xFD]"

text \<open>The digits, most significant first: digit \<open>i\<close> is the value shifted \<open>4 - i\<close> times.\<close>

definition base128_encode :: "u32 \<Rightarrow> bytes" where
  "base128_encode x =
     map (\<lambda>i. BASE128_ENCODE ! unat (ucast (drop_bit (7 * (4 - i)) x AND 0x7F) :: u8)) [0, 1, 2, 3, 4]"

definition base128_decode_digit :: "u8 \<Rightarrow> u8 option" where
  "base128_decode_digit byte = map_option word_of_nat (position (\<lambda>b. b = byte) BASE128_ENCODE)"

fun base128_decode_loop :: "nat \<Rightarrow> u32 \<Rightarrow> bytes \<Rightarrow> u32 option" where
  "base128_decode_loop i x [] = Some x"
| "base128_decode_loop i x (b # bs) =
    (case base128_decode_digit b of
       None \<Rightarrow> None
     | Some digit \<Rightarrow>
         let x' = x OR ucast digit in
         base128_decode_loop (i + 1) (if i \<noteq> 4 then push_bit 7 x' else x') bs)"

definition base128_decode :: "bytes \<Rightarrow> u32 option" where
  "base128_decode encoded = (if length encoded \<noteq> 5 then None else base128_decode_loop 0 0 encoded)"

definition running_finalize :: "running \<Rightarrow> bytes" where
  "running_finalize r = (case r of
     Running_Internet acc _ \<Rightarrow> hex4 (inet_fold acc)
   | Running_Crc32 crc \<Rightarrow> base128_encode (crc XOR 0xFFFFFFFF))"

definition is_ignore_sentinel :: "checksum_type \<Rightarrow> bytes \<Rightarrow> bool" where
  "is_ignore_sentinel t wire_bytes \<longleftrightarrow> t = Internet \<and> list_all (\<lambda>b. b = 0x30) wire_bytes"

text \<open>The checksum state after a sequence of bytes.\<close>

definition run :: "checksum_type \<Rightarrow> bytes \<Rightarrow> running" where
  "run t bs = fold running_update bs (running_new t)"

lemma run_Nil [simp]: "run t [] = running_new t"
  by (simp add: run_def)

lemma run_snoc: "run t (bs @ [b]) = running_update b (run t bs)"
  by (simp add: run_def)

section \<open>CRC-32\<close>

text \<open>
  The reference: a shift register fed the bits of the message, least significant bit of
  each byte first, started and finished with all bits inverted.
\<close>

definition crc_bit :: "u32 \<Rightarrow> bool \<Rightarrow> u32" where
  "crc_bit c m = (if bit c 0 \<noteq> m then 0xEDB88320 XOR drop_bit 1 c else drop_bit 1 c)"

definition byte_bits :: "u8 \<Rightarrow> bool list" where
  "byte_bits b = map (bit b) [0..<8]"

definition crc32_spec :: "bytes \<Rightarrow> u32" where
  "crc32_spec bs = NOT (foldl crc_bit 0xFFFFFFFF (concat (map byte_bits bs)))"

lemma crc32_step_odd: "crc32_step c = (if odd c then 0xEDB88320 XOR drop_bit 1 c else drop_bit 1 c)"
  by (auto simp: crc32_step_def and_one_eq mod_2_eq_odd)

lemma odd_xor: "odd (x XOR y :: u32) \<longleftrightarrow> odd x \<noteq> odd y"
  by (simp add: bit_0 [symmetric] bit_xor_iff del: bit_0)

lemma crc32_step_xor: "crc32_step (x XOR y) = crc32_step x XOR crc32_step y"
  by (rule bit_word_eqI) (auto simp: crc32_step_odd odd_xor bit_xor_iff bit_drop_bit_eq)

lemma crc32_steps_xor: "(crc32_step ^^ n) (x XOR y) = (crc32_step ^^ n) x XOR (crc32_step ^^ n) y"
  by (induction n) (simp_all add: crc32_step_xor)

lemma crc32_steps_zeros:
  "(\<forall>i<n. \<not> bit x i) \<Longrightarrow> (crc32_step ^^ n) x = drop_bit n x"
proof (induction n arbitrary: x)
  case (Suc n)
  then have "\<not> odd x" using Suc.prems by (auto simp: bit_0 [symmetric])
  then have "crc32_step x = drop_bit 1 x" by (simp add: crc32_step_odd)
  moreover have "\<forall>i<n. \<not> bit (drop_bit 1 x) i" using Suc.prems by (simp add: bit_drop_bit_eq)
  ultimately show ?case using Suc.IH [of "drop_bit 1 x"] by (simp add: funpow_Suc_right drop_bit_drop_bit del: funpow.simps)
qed simp

lemma crc_bit_step: "crc_bit c (odd b) XOR drop_bit 1 b = crc32_step (c XOR b)"
  by (rule bit_word_eqI) (auto simp: crc_bit_def bit_0 crc32_step_odd odd_xor bit_xor_iff bit_drop_bit_eq)

lemma crc_bits_steps:
  "(crc32_step ^^ n) (c XOR b) = foldl crc_bit c (map (bit b) [0..<n]) XOR drop_bit n b"
proof (induction n)
  case (Suc n)
  have "odd (drop_bit n b) = bit b n" by (simp add: bit_iff_odd_drop_bit)
  with Suc crc_bit_step [of "foldl crc_bit c (map (bit b) [0..<n])" "drop_bit n b"]
  show ?case by (simp add: drop_bit_drop_bit)
qed simp

lemma and_xor_and_not: "(y :: u32) = (y AND m) XOR (y AND NOT m)"
  by (rule bit_word_eqI) (auto simp: bit_xor_iff bit_and_iff bit_not_iff)

lemma drop_bit_and_not_mask: "drop_bit 8 (y AND NOT 0xFF) = drop_bit 8 (y :: u32)"
proof -
  have "drop_bit 8 (y AND NOT (mask 8)) = drop_bit 8 y"
    by (rule bit_word_eqI) (auto simp: bit_drop_bit_eq bit_and_iff bit_not_iff bit_mask_iff
        dest: bit_imp_le_length simp del: drop_bit_and)
  then show ?thesis by (simp add: mask_eq_exp_minus_1)
qed

lemma crc_table_update:
  "running_update byte (Running_Crc32 crc)
     = Running_Crc32 (foldl crc_bit crc (byte_bits byte))"
proof -
  let ?b = "ucast byte :: u32"
  let ?y = "crc XOR ?b"
  have lo: "unat (?y AND 0xFF) < 256"
  proof -
    have "?y AND 0xFF = take_bit 8 ?y" by (simp add: take_bit_eq_mask mask_eq_exp_minus_1)
    moreover have "take_bit 8 (unat ?y) < 256" using take_bit_nat_less_exp [of 8 "unat ?y"] by simp
    ultimately show ?thesis by (simp add: unsigned_take_bit_eq del: take_bit_xor)
  qed
  have "?y = (?y AND 0xFF) XOR (?y AND NOT 0xFF)"
    by (rule and_xor_and_not)
  then have "(crc32_step ^^ 8) ?y = (crc32_step ^^ 8) (?y AND 0xFF) XOR (crc32_step ^^ 8) (?y AND NOT 0xFF)"
    by (metis crc32_steps_xor)
  moreover have "(crc32_step ^^ 8) (?y AND NOT 0xFF) = drop_bit 8 (?y AND NOT 0xFF)"
  proof (rule crc32_steps_zeros, intro allI impI)
    fix i :: nat assume "i < 8"
    then have "bit (mask 8 :: u32) i" by (simp add: bit_mask_iff)
    then have "bit (0xFF :: u32) i" by (simp add: mask_eq_exp_minus_1)
    then show "\<not> bit (?y AND NOT 0xFF) i"
      by (simp only: bit_and_iff bit_not_iff) simp
  qed
  moreover have b0: "drop_bit 8 ?b = 0"
    by (rule bit_word_eqI) (auto simp: bit_drop_bit_eq bit_ucast_iff dest: bit_imp_le_length)
  moreover have "drop_bit 8 (?y AND NOT 0xFF) = drop_bit 8 crc"
    by (simp only: drop_bit_and_not_mask drop_bit_xor b0 xor.right_neutral)
  moreover have "map (bit ?b) [0..<8] = byte_bits byte"
    by (simp add: byte_bits_def bit_ucast_iff)
  ultimately show ?thesis
    using lo crc_bits_steps [of 8 crc ?b]
    by (simp add: running_update_def build_crc32_table_def xor.commute)
qed

lemma run_crc32: "run Crc32 bs = Running_Crc32 (foldl crc_bit 0xFFFFFFFF (concat (map byte_bits bs)))"
proof (induction bs rule: rev_induct)
  case (snoc b bs)
  then show ?case by (simp add: run_snoc crc_table_update)
qed (simp add: running_new_def)

section \<open>The internet checksum\<close>

text \<open>
  The reference: the bytes as 16-bit big-endian words, the last one padded with zero,
  added up.
\<close>

fun words_sum :: "bytes \<Rightarrow> nat" where
  "words_sum [] = 0"
| "words_sum [a] = 256 * unat a"
| "words_sum (a # b # bs) = 256 * unat a + unat b + words_sum bs"

lemma words_sum_snoc:
  "words_sum (bs @ [b]) = words_sum bs + (if even (length bs) then 256 * unat b else unat b)"
  by (induction bs rule: words_sum.induct) simp_all

lemma words_sum_le: "words_sum bs \<le> 65535 * ((length bs + 1) div 2)"
proof (induction bs rule: words_sum.induct)
  case (2 a)
  have "unat a < 256" by (rule unat_u8_less)
  then show ?case by simp
next
  case (3 a b bs)
  have "unat a < 256" "unat b < 256" by (rule unat_u8_less)+
  with 3 show ?case by simp
qed simp

lemma u16_of_nat_mod_2: "(word_of_nat n :: u16) mod 2 = of_bool (odd n)"
proof -
  have "unat ((word_of_nat n :: u16) mod 2) = n mod 65536 mod 2" by (simp add: unat_mod unat_of_nat)
  also have "\<dots> = n mod 2" by (simp add: mod_mod_cancel)
  finally show ?thesis by (simp add: word_unat_eq_iff mod_2_eq_odd)
qed

lemma run_internet:
  "run Internet bs = Running_Internet (word_of_nat (words_sum bs)) (word_of_nat (length bs))"
proof (induction bs rule: rev_induct)
  case (snoc b bs)
  have b: "(ucast b :: u32) = word_of_nat (unat b)" by simp
  have "push_bit 8 (ucast b :: u32) = word_of_nat (256 * unat b)"
    by (simp add: push_bit_eq_mult)
  with snoc b show ?case
    by (simp add: run_snoc running_update_def u16_of_nat_mod_2 words_sum_snoc)
qed (simp add: running_new_def)

lemma fold_step: "unat (drop_bit 16 x + (x AND 0xFFFF) :: u32) = unat x div 65536 + unat x mod 65536"
proof -
  have m: "x AND 0xFFFF = take_bit 16 x" by (simp add: take_bit_eq_mask mask_eq_exp_minus_1)
  have d: "unat (drop_bit 16 x) = unat x div 65536"
    using unsigned_less [of x, where 'a = nat]
    by (subst unsigned_drop_bit_eq) (simp add: drop_bit_eq_div take_bit_eq_mod)
  have t: "unat (take_bit 16 x) = unat x mod 65536"
    by (subst unsigned_take_bit_eq) (simp add: take_bit_eq_mod)
  have "unat x < 2 ^ 32" using unsigned_less [of x, where 'a = nat] by simp
  then have "unat x div 65536 < 65536" by (simp add: div_less_iff_less_mult)
  moreover have "unat x mod 65536 < 65536" by simp
  ultimately have "unat x div 65536 + unat x mod 65536 < 2 ^ 32" by simp
  then show ?thesis by (simp only: m unat_word_ariths d t) simp
qed

lemma mod_65535: "(a div 65536 + a mod 65536) mod 65535 = a mod (65535 :: nat)"
proof -
  have "a = (a div 65536 + a mod 65536) + 65535 * (a div 65536)"
    using div_mult_mod_eq [of a 65536] by linarith
  then show ?thesis by (metis mod_mult_self2)
qed

lemma two_folds:
  assumes "(a :: nat) < 2 ^ 32"
  defines "s \<equiv> a div 65536 + a mod 65536"
  shows "s div 65536 + s mod 65536 < 65536" and "s div 65536 + s mod 65536 = 0 \<longleftrightarrow> a = 0"
proof -
  have "a div 65536 < 65536" using assms(1) by (simp add: div_less_iff_less_mult)
  moreover have "a mod 65536 < 65536" by simp
  ultimately have "s \<le> 131070" unfolding s_def by linarith
  then have "s div 65536 \<le> 131070 div 65536" by (rule div_le_mono)
  then have "s div 65536 \<le> 1" by simp
  moreover have "s = s div 65536 * 65536 + s mod 65536" by simp
  ultimately show "s div 65536 + s mod 65536 < 65536" using \<open>s \<le> 131070\<close> by linarith
  have "a = a div 65536 * 65536 + a mod 65536" by simp
  then show "s div 65536 + s mod 65536 = 0 \<longleftrightarrow> a = 0"
    using \<open>s = _\<close> unfolding s_def by (metis add_eq_0_iff_both_eq_0 div_0 mod_0 mult_0)
qed

lemma inet_fold_unat:
  "unat (NOT (inet_fold acc)) mod 65535 = unat acc mod 65535 \<and>
   (unat (NOT (inet_fold acc)) = 0 \<longleftrightarrow> acc = 0)"
proof -
  let ?s1 = "unat acc div 65536 + unat acc mod 65536"
  let ?s2 = "?s1 div 65536 + ?s1 mod 65536"
  have acc: "unat acc < 2 ^ 32" using unsigned_less [of acc, where 'a = nat] by simp
  note s2 = two_folds(1) [OF acc] and z = two_folds(2) [OF acc]
  have "unat (NOT (inet_fold acc)) = ?s2"
    using s2 fold_step [of "drop_bit 16 acc + (acc AND 0xFFFF)"]
    by (simp add: inet_fold_def Let_def fold_step unsigned_ucast_eq take_bit_nat_eq_self)
  then show ?thesis using z mod_65535 [of ?s1] mod_65535 [of "unat acc"]
    by (simp add: unat_eq_zero)
qed

section \<open>Base-128 digits\<close>

lemma base128_table: "sorted_wrt (<) BASE128_ENCODE" "length BASE128_ENCODE = 128"
proof -
  have "successively (<) BASE128_ENCODE" by (simp add: BASE128_ENCODE_def)
  then show "sorted_wrt (<) BASE128_ENCODE" by (simp add: successively_conv_sorted_wrt)
qed (simp add: BASE128_ENCODE_def)

lemma base128_table_avoids:
  "list_all (\<lambda>b. b \<notin> {0x3E, 0x3C, 0x5C, 0x00, 0xFF, 0x0D, 0x0A}) BASE128_ENCODE"
  by (simp add: BASE128_ENCODE_def)

lemma position_distinct: "distinct xs \<Longrightarrow> d < length xs \<Longrightarrow> position (\<lambda>b. b = xs ! d) xs = Some d"
  by (induction xs arbitrary: d) (auto simp: less_Suc_eq_0_disj nth_Cons split: nat.splits)

lemma base128_digit:
  assumes "d < 128"
  shows "base128_decode_digit (BASE128_ENCODE ! d) = Some (word_of_nat d)"
    and "BASE128_ENCODE ! d \<notin> {0x3E, 0x3C, 0x5C, 0x00, 0xFF, 0x0D, 0x0A}"
proof -
  have "distinct BASE128_ENCODE" using base128_table(1) by (simp add: strict_sorted_iff)
  with assms base128_table(2) position_distinct [of BASE128_ENCODE d]
  show "base128_decode_digit (BASE128_ENCODE ! d) = Some (word_of_nat d)"
    by (simp add: base128_decode_digit_def)
  show "BASE128_ENCODE ! d \<notin> {0x3E, 0x3C, 0x5C, 0x00, 0xFF, 0x0D, 0x0A}"
    using base128_table_avoids base128_table(2) assms by (auto simp only: list_all_length)
qed

lemma digit_7:
  shows "unat (ucast (x AND 0x7F :: u32) :: u8) < 128"
    and "(ucast (ucast (x AND 0x7F) :: u8) :: u32) = take_bit 7 x"
proof -
  have m: "x AND 0x7F = take_bit 7 x" by (simp add: take_bit_eq_mask mask_eq_exp_minus_1)
  have lt: "take_bit 7 (unat x) < 128" using take_bit_nat_less_exp [of 7 "unat x"] by simp
  have u: "unat (ucast (take_bit 7 x) :: u8) = take_bit 7 (unat x)"
    by (simp add: unsigned_ucast_eq unsigned_take_bit_eq)
  show "unat (ucast (x AND 0x7F :: u32) :: u8) < 128" unfolding m using lt by (simp add: u)
  show "(ucast (ucast (x AND 0x7F) :: u8) :: u32) = take_bit 7 x" unfolding m
    by (simp add: word_unat_eq_iff unsigned_ucast_eq unsigned_take_bit_eq)
qed

lemma base128_telescope:
  "push_bit 7 (drop_bit (n + 7) x) OR take_bit 7 (drop_bit n x) = drop_bit n (x :: u32)"
proof (rule bit_word_eqI)
  fix i assume "i < LENGTH(32)"
  then show "bit (push_bit 7 (drop_bit (n + 7) x) OR take_bit 7 (drop_bit n x)) i = bit (drop_bit n x) i"
    by (cases "i < 7") (auto simp: bit_or_iff bit_push_bit_iff bit_drop_bit_eq bit_take_bit_iff ac_simps)
qed

lemma base128_top: "take_bit 7 (drop_bit 28 x) = drop_bit 28 (x :: u32)"
  by (rule bit_word_eqI) (auto simp: bit_take_bit_iff bit_drop_bit_eq dest: bit_imp_le_length)

lemma base128_decode_encode: "base128_decode (base128_encode x) = Some x"
proof -
  define e where "e n = BASE128_ENCODE ! unat (ucast (drop_bit n x AND 0x7F) :: u8)" for n
  have d: "base128_decode_digit (e n) = Some (ucast (drop_bit n x AND 0x7F))" for n
    unfolding e_def using base128_digit(1) [OF digit_7(1) [of "drop_bit n x"]] by simp
  have "base128_encode x = [e 28, e 21, e 14, e 7, e 0]"
    by (simp add: base128_encode_def e_def)
  then show ?thesis
    using base128_telescope [of 21 x] base128_telescope [of 14 x] base128_telescope [of 7 x]
      base128_telescope [of 0 x]
    by (simp add: base128_decode_def d digit_7(2) base128_top Let_def del: push_bit_or)
qed

section \<open>The digits on the wire\<close>

lemma base128_encode_avoids:
  assumes "b \<in> set (base128_encode x)"
  shows "b \<notin> {0x3E, 0x3C, 0x5C, 0x00, 0xFF, 0x0D, 0x0A}"
proof -
  from assms obtain n where "b = BASE128_ENCODE ! unat (ucast (drop_bit n x AND 0x7F) :: u8)"
    by (auto simp only: base128_encode_def set_map)
  with base128_digit(2) [OF digit_7(1) [of "drop_bit n x"]] show ?thesis by simp
qed

lemma length_base128_encode [simp]: "length (base128_encode x) = 5"
  by (simp add: base128_encode_def)

lemma length_hex4 [simp]: "length (hex4 w) = 4"
  by (simp add: hex4_def)

fun running_of_type :: "checksum_type \<Rightarrow> running \<Rightarrow> bool" where
  "running_of_type Internet (Running_Internet acc pos) = True"
| "running_of_type Crc32 (Running_Crc32 crc) = True"
| "running_of_type _ _ = False"

lemma running_of_type_new [simp]: "running_of_type t (running_new t)"
  by (cases t) (simp_all add: running_new_def)

lemma running_of_type_update [simp]: "running_of_type t r \<Longrightarrow> running_of_type t (running_update b r)"
  by (cases t; cases r) (simp_all add: running_update_def)

lemma length_running_finalize: "running_of_type t r \<Longrightarrow> length (running_finalize r) = encoded_len t"
  by (cases t; cases r) (simp_all add: running_finalize_def encoded_len_def)

section \<open>What goes on the wire\<close>

text \<open>
  C16: The table-driven CRC-32 is the bit-serial one: for every sequence of bytes the
  checksum on the wire is the base-128 form of the register that has shifted in the
  message bit by bit, least significant bit first, with both inversions.
\<close>

theorem crc32_table_is_bit_serial:
  "running_finalize (run Crc32 bs) = base128_encode (crc32_spec bs)"
proof -
  have "c XOR 0xFFFFFFFF = NOT c" for c :: u32
  proof -
    have "(0xFFFFFFFF :: u32) = - 1" by simp
    then show ?thesis by (simp only: bit.xor_one_right)
  qed
  then show ?thesis by (simp add: running_finalize_def run_crc32 crc32_spec_def)
qed

text \<open>The check value of CRC-32/ISO-HDLC, the checksum of the nine digits.\<close>

lemma crc32_check_value: "crc32_spec (map word_of_nat [0x31..<0x3A]) = 0xCBF43926"
  by code_simp

lemma unat_not_u16: "unat (NOT s :: u16) = 65535 - unat s"
proof -
  have "NOT s = - 1 - s" by (simp add: not_eq_complement)
  moreover have "unat (- 1 - s) = unat (- 1 :: u16) - unat s" by (rule unat_sub) simp
  moreover have "unat (- 1 :: u16) = 65535" by (simp add: unsigned_minus_1_eq_mask mask_eq_exp_minus_1)
  ultimately show ?thesis by simp
qed

text \<open>
  C17: The internet checksum is the complement of the one's-complement sum of the bytes
  taken as 16-bit big-endian words: added to the checksum sent, the words sum to zero
  modulo \<open>2 ^ 16 - 1\<close>. It is all ones only for a message of zeros, so folding the
  carries twice is enough.
\<close>

theorem internet_checksum_rfc1071:
  assumes "length bs < 131072"
  shows "\<exists>s. running_finalize (run Internet bs) = hex4 s
    \<and> (words_sum bs + unat s) mod 65535 = 0 \<and> (unat s = 65535 \<longleftrightarrow> words_sum bs = 0)"
proof (intro exI conjI)
  let ?acc = "word_of_nat (words_sum bs) :: u32"
  let ?s = "inet_fold ?acc"
  show "running_finalize (run Internet bs) = hex4 ?s"
    by (simp add: running_finalize_def run_internet)
  have "words_sum bs \<le> 65535 * 65536"
    using words_sum_le [of bs] assms by (intro le_trans [OF words_sum_le] mult_le_mono) auto
  then have acc: "unat ?acc = words_sum bs" by (simp add: unat_of_nat)
  have neg: "unat (NOT ?s) = 65535 - unat ?s" by (rule unat_not_u16)
  have le: "unat ?s \<le> 65535" using unsigned_less [of ?s, where 'a = nat] by simp
  note f = inet_fold_unat [of ?acc, unfolded neg acc]
  have "(words_sum bs + unat ?s) mod 65535 = ((65535 - unat ?s) + unat ?s) mod 65535"
    using f by (metis mod_add_left_eq)
  with le show "(words_sum bs + unat ?s) mod 65535 = 0" by simp
  show "unat ?s = 65535 \<longleftrightarrow> words_sum bs = 0"
    using f le acc by (metis add_diff_inverse_nat diff_is_0_eq diff_self_eq_0 le_antisym unat_eq_zero)
qed

theorem internet_checksum_rfc1071_witness:
  "\<exists>s. running_finalize (run Internet [0x3E, 0x70, 0x3C, 0x3C]) = hex4 s
    \<and> (words_sum [0x3E, 0x70, 0x3C, 0x3C] + unat s) mod 65535 = 0"
  using internet_checksum_rfc1071 [of "[0x3E, 0x70, 0x3C, 0x3C]"] by auto

text \<open>
  C18: The base-128 digits of a checksum decode to it again, and none of them is a control
  byte of the framing (SOF, EOF, ESC, 0x00, 0xFF) or of its line ending (CR, LF).
\<close>

theorem base128_roundtrip:
  "base128_decode (base128_encode x) = Some x
   \<and> set (base128_encode x) \<inter> {0x3E, 0x3C, 0x5C, 0x00, 0xFF, 0x0D, 0x0A} = {}"
  using base128_decode_encode base128_encode_avoids by blast

end
