(* ===== verification/Mup1_Frame.thy ===== *)
theory Mup1_Frame
  imports Mup1_Checksum
begin

text \<open>
  MUP1 framing (\<open>src/mup1/src/frame.rs\<close>): the encoder, and the byte-fed decoder as a
  record with one operation per method. An index out of range panics in the code; such
  an operation returns \<open>None\<close> here.
\<close>

section \<open>Bytes with a meaning\<close>

abbreviation SOF :: u8 where "SOF \<equiv> 0x3E"
abbreviation EOF :: u8 where "EOF \<equiv> 0x3C"
abbreviation ESC :: u8 where "ESC \<equiv> 0x5C"
abbreviation ESCAPED_00 :: u8 where "ESCAPED_00 \<equiv> 0x30"
abbreviation ESCAPED_FF :: u8 where "ESCAPED_FF \<equiv> 0x46"
abbreviation CR :: u8 where "CR \<equiv> 0x0D"
abbreviation LF :: u8 where "LF \<equiv> 0x0A"

definition MAX_DATA_SIZE :: nat where
  "MAX_DATA_SIZE = 300"

definition TYPE_RAW :: u8 where
  "TYPE_RAW = 0xFF"

definition RAW_BUF_CAP :: nat where
  "RAW_BUF_CAP = 1 + 1 + 2 * MAX_DATA_SIZE + 2 + 5"

lemma RAW_BUF_CAP_eq [simp]: "RAW_BUF_CAP = 609"
  by (simp add: RAW_BUF_CAP_def MAX_DATA_SIZE_def)

definition needs_escape :: "u8 \<Rightarrow> bool" where
  "needs_escape b \<longleftrightarrow> b = SOF \<or> b = EOF \<or> b = ESC \<or> b = 0x00 \<or> b = 0xFF"

definition escape_byte :: "u8 \<Rightarrow> u8" where
  "escape_byte b = (if b = 0x00 then ESCAPED_00 else if b = 0xFF then ESCAPED_FF else b)"

definition unescape_byte :: "u8 \<Rightarrow> u8" where
  "unescape_byte b = (if b = ESCAPED_00 then 0x00 else if b = ESCAPED_FF then 0xFF else b)"

record frame =
  type_byte :: u8
  frame_data :: bytes

section \<open>Encoding\<close>

definition escape_data :: "bytes \<Rightarrow> bytes" where
  "escape_data data = concat (map (\<lambda>b. if needs_escape b then [ESC, escape_byte b] else [b]) data)"

definition encode_frame :: "checksum_type \<Rightarrow> u8 \<Rightarrow> bytes \<Rightarrow> bytes" where
  "encode_frame ct t data =
     (let running = run ct ([SOF, t] @ data @ [EOF]);
          pad = (ct = Internet \<and> length data mod 2 = 0);
          running = (if pad then running_update EOF running else running)
      in [SOF, t] @ escape_data data @ [EOF] @ (if pad then [EOF] else [])
         @ running_finalize running @ [CR, LF])"

section \<open>The decoder\<close>

datatype state = Idle | Sof | Data | DataEsc | Eof | Checksum | PostFrame | PostFrameCr

record inject_status =
  frame_ready :: bool
  checksum_error :: bool
  buffer_full :: bool

record decoder =
  ctype :: checksum_type
  dstate :: state
  raw :: bytes
  raw_head :: nat
  data_end :: nat
  data_len :: nat
  chk_state :: running
  checksum_len :: nat
  checksum_bytes :: bytes
  frames :: "frame list"
  drop_count :: u64
  timeout_ms :: u64
  open_len_at_last_tick :: nat
  time_of_last_progress :: u64

definition decoder_new :: "checksum_type \<Rightarrow> decoder" where
  "decoder_new ct = \<lparr>ctype = ct, dstate = Idle, raw = [], raw_head = 0, data_end = 0, data_len = 0,
     chk_state = running_new ct, checksum_len = 0, checksum_bytes = [], frames = [], drop_count = 0,
     timeout_ms = 500, open_len_at_last_tick = 0, time_of_last_progress = 0\<rparr>"

definition set_timeout_ms :: "u64 \<Rightarrow> decoder \<Rightarrow> decoder" where
  "set_timeout_ms ms d = d\<lparr>timeout_ms := ms\<rparr>"

definition status :: "decoder \<Rightarrow> bool \<Rightarrow> bool \<Rightarrow> inject_status" where
  "status d err full =
     \<lparr>frame_ready = (frames d \<noteq> [] \<or> raw_head d > 0), checksum_error = err, buffer_full = full\<rparr>"

definition raw_append :: "u8 \<Rightarrow> decoder \<Rightarrow> decoder option" where
  "raw_append b d = (if length (raw d) \<ge> RAW_BUF_CAP then None else Some (d\<lparr>raw := raw d @ [b]\<rparr>))"

definition resolve_raw :: "decoder \<Rightarrow> decoder" where
  "resolve_raw d = d\<lparr>raw_head := length (raw d), dstate := Idle\<rparr>"

definition resolve_raw_before_last :: "decoder \<Rightarrow> decoder" where
  "resolve_raw_before_last d = d\<lparr>raw_head := length (raw d) - 1, dstate := Idle\<rparr>"

definition checksum_ok :: "decoder \<Rightarrow> bool" where
  "checksum_ok d \<longleftrightarrow>
     is_ignore_sentinel (ctype d) (checksum_bytes d) \<or> running_finalize (chk_state d) = checksum_bytes d"

text \<open>The loop of \<open>resolve_success\<close>, from index \<open>i\<close>.\<close>

function unescape_from :: "bytes \<Rightarrow> nat \<Rightarrow> nat \<Rightarrow> bytes option" where
  "unescape_from bs i end_pos =
     (if i < end_pos then
        if i < length bs then
          let b = bs ! i in
          if b = ESC then
            if i + 1 < length bs
            then map_option ((#) (unescape_byte (bs ! (i + 1)))) (unescape_from bs (i + 2) end_pos)
            else None
          else map_option ((#) b) (unescape_from bs (i + 1) end_pos)
        else None
      else Some [])"
  by pat_completeness auto
termination
  by (relation "measure (\<lambda>(bs, i, end_pos). end_pos - i)") auto

declare unescape_from.simps [simp del]

definition resolve_success :: "decoder \<Rightarrow> decoder option" where
  "resolve_success d =
     (if raw_head d + 1 < length (raw d) then
        case unescape_from (raw d) (raw_head d + 2) (data_end d) of
          None \<Rightarrow> None
        | Some decoded \<Rightarrow> Some (d\<lparr>
            frames := frames d @ [\<lparr>type_byte = raw d ! (raw_head d + 1), frame_data = decoded\<rparr>],
            raw := take (raw_head d) (raw d), dstate := PostFrame\<rparr>)
      else None)"

text \<open>
  \<open>inject\<close> after the byte is appended and the line ending after a frame is dealt with,
  in the order of the code's tests.
\<close>

definition inject_checksum :: "u8 \<Rightarrow> decoder \<Rightarrow> (inject_status \<times> decoder) option" where
  "inject_checksum ch d =
     (let d = d\<lparr>checksum_bytes := checksum_bytes d @ [ch]\<rparr> in
      if length (checksum_bytes d) < checksum_len d then Some (status d False False, d)
      else if checksum_ok d then
        map_option (\<lambda>d'. (\<lparr>frame_ready = True, checksum_error = False, buffer_full = False\<rparr>, d'))
          (resolve_success d)
      else let d = resolve_raw d in Some (status d True False, d))"

definition inject_eof :: "decoder \<Rightarrow> decoder" where
  "inject_eof d =
     (if dstate d \<noteq> Data \<and> dstate d \<noteq> Eof then d\<lparr>raw_head := length (raw d)\<rparr>
      else
        let pad = (dstate d = Data \<and> ctype d = Internet \<and> data_len d mod 2 = 0);
            d = (if dstate d = Data then d\<lparr>data_end := length (raw d) - 1\<rparr> else d);
            d = d\<lparr>chk_state := running_update EOF (chk_state d)\<rparr>
        in if pad then d\<lparr>dstate := Eof\<rparr>
           else d\<lparr>checksum_bytes := [], checksum_len := encoded_len (ctype d), dstate := Checksum\<rparr>)"

definition inject_byte :: "u8 \<Rightarrow> decoder \<Rightarrow> decoder" where
  "inject_byte ch d =
     (if ch = SOF \<and> dstate d \<noteq> DataEsc then
        (resolve_raw_before_last d)\<lparr>chk_state := running_update SOF (running_new (ctype d)),
          data_len := 0, dstate := Sof\<rparr>
      else if dstate d = Sof then
        (if ch = EOF then resolve_raw d
         else d\<lparr>chk_state := running_update ch (chk_state d), dstate := Data\<rparr>)
      else if ch = ESC \<and> dstate d = Data then d\<lparr>dstate := DataEsc\<rparr>
      else if ch = EOF \<and> dstate d \<noteq> DataEsc then inject_eof d
      else if dstate d = Eof then resolve_raw d
      else if dstate d = DataEsc then
        d\<lparr>chk_state := running_update (unescape_byte ch) (chk_state d), data_len := data_len d + 1,
          dstate := Data\<rparr>
      else if dstate d \<noteq> Data then d\<lparr>raw_head := length (raw d)\<rparr>
      else d\<lparr>chk_state := running_update ch (chk_state d), data_len := data_len d + 1\<rparr>)"

definition pop_raw :: "decoder \<Rightarrow> decoder" where
  "pop_raw d = d\<lparr>raw := butlast (raw d)\<rparr>"

definition inject :: "u8 \<Rightarrow> decoder \<Rightarrow> (inject_status \<times> decoder) option" where
  "inject ch d =
     (case raw_append ch d of
        None \<Rightarrow>
          let d = (resolve_raw d)\<lparr>drop_count := drop_count d + 1\<rparr> in Some (status d False True, d)
      | Some d \<Rightarrow>
          if dstate d = PostFrame \<and> ch = CR then
            let d = (pop_raw d)\<lparr>dstate := PostFrameCr\<rparr> in Some (status d False False, d)
          else if dstate d = PostFrameCr \<and> ch = LF then
            let d = (pop_raw d)\<lparr>dstate := Idle\<rparr> in Some (status d False False, d)
          else
            let d = (if dstate d = PostFrame \<or> dstate d = PostFrameCr then d\<lparr>dstate := Idle\<rparr> else d) in
            if dstate d = Checksum then inject_checksum ch d
            else let d = inject_byte ch d in Some (status d False False, d))"

definition saturating_sub :: "u64 \<Rightarrow> u64 \<Rightarrow> u64" where
  "saturating_sub a b = (if b \<le> a then a - b else 0)"

definition tick :: "u64 \<Rightarrow> decoder \<Rightarrow> inject_status \<times> decoder" where
  "tick now_ms d =
     (let open_len = length (raw d) - raw_head d;
          d = (if open_len \<noteq> open_len_at_last_tick d then
                 d\<lparr>open_len_at_last_tick := open_len, time_of_last_progress := now_ms\<rparr>
               else if 0 < open_len \<and> timeout_ms d \<le> saturating_sub now_ms (time_of_last_progress d)
               then resolve_raw d
               else d)
      in (status d False False, d))"

definition get :: "decoder \<Rightarrow> frame option \<times> decoder" where
  "get d =
     (case frames d of
        f # fs \<Rightarrow> (Some f, d\<lparr>frames := fs\<rparr>)
      | [] \<Rightarrow>
          if 0 < raw_head d then
            (Some \<lparr>type_byte = TYPE_RAW, frame_data = take (raw_head d) (raw d)\<rparr>,
             d\<lparr>raw := drop (raw_head d) (raw d), raw_head := 0\<rparr>)
          else (None, d))"

text \<open>A sequence of received bytes.\<close>

fun inject_all :: "bytes \<Rightarrow> decoder \<Rightarrow> decoder option" where
  "inject_all [] d = Some d"
| "inject_all (ch # chs) d =
     (case inject ch d of None \<Rightarrow> None | Some (_, d') \<Rightarrow> inject_all chs d')"

lemma inject_all_append:
  "inject_all (xs @ ys) d = (case inject_all xs d of None \<Rightarrow> None | Some d' \<Rightarrow> inject_all ys d')"
  by (induction xs arbitrary: d) (auto split: option.splits prod.splits)

end
