(* ===== verification/Mup1_Wire.thy ===== *)
theory Mup1_Wire
  imports Mup1_Frame
begin

text \<open>
  A frame on the wire: the escaped data as the decoder reads it (\<open>wire_data\<close>), the
  checksum over the logical bytes, and the decoder's run over an encoded frame, phase by
  phase, from any state in which a SOF starts an attempt.
\<close>

section \<open>Sending: the decoder on an encoded frame\<close>

lemma raw_append_room [simp]:
  "length (raw d) < RAW_BUF_CAP \<Longrightarrow> raw_append b d = Some (d\<lparr>raw := raw d @ [b]\<rparr>)"
  by (simp add: raw_append_def)

lemma inject_plain:
  assumes "dstate d = Data" "length (raw d) < RAW_BUF_CAP" "\<not> needs_escape b"
  shows "inject_all [b] d = Some (d\<lparr>raw := raw d @ [b], chk_state := running_update b (chk_state d),
    data_len := data_len d + 1\<rparr>)"
  using assms by (simp add: inject_def inject_byte_def needs_escape_def Let_def)

lemma inject_escaped:
  assumes "dstate d = Data" "length (raw d) + 1 < RAW_BUF_CAP"
  shows "inject_all [ESC, b] d = Some (d\<lparr>raw := raw d @ [ESC, b],
    chk_state := running_update (unescape_byte b) (chk_state d), data_len := data_len d + 1\<rparr>)"
  using assms by (simp add: inject_def inject_byte_def Let_def)

lemma unescape_escape_byte: "needs_escape b \<Longrightarrow> unescape_byte (escape_byte b) = b"
  by (auto simp: needs_escape_def escape_byte_def unescape_byte_def)

lemma escape_data_Cons:
  "escape_data (b # data) = (if needs_escape b then [ESC, escape_byte b] else [b]) @ escape_data data"
  by (simp add: escape_data_def)

lemma escape_data_Nil [simp]: "escape_data [] = []"
  by (simp add: escape_data_def)

lemma inject_data:
  "dstate d = Data \<Longrightarrow> length (raw d) + length (escape_data data) \<le> RAW_BUF_CAP \<Longrightarrow>
   inject_all (escape_data data) d = Some (d\<lparr>raw := raw d @ escape_data data,
     chk_state := fold running_update data (chk_state d), data_len := data_len d + length data\<rparr>)"
proof (induction data arbitrary: d)
  case Nil
  then show ?case by simp
next
  case (Cons b data)
  let ?e = "if needs_escape b then [ESC, escape_byte b] else [b]"
  let ?d = "d\<lparr>raw := raw d @ ?e, chk_state := running_update b (chk_state d), data_len := data_len d + 1\<rparr>"
  have room: "length (raw d) + length ?e + length (escape_data data) \<le> RAW_BUF_CAP"
    using Cons.prems by (simp add: escape_data_Cons)
  then have "inject_all ?e d = Some ?d"
    using Cons.prems inject_plain [of d b] inject_escaped [of d "escape_byte b"]
    by (simp add: unescape_escape_byte del: inject_all.simps split: if_splits)
  moreover have "inject_all (escape_data data) ?d = Some (?d\<lparr>raw := raw ?d @ escape_data data,
     chk_state := fold running_update data (chk_state ?d), data_len := data_len ?d + length data\<rparr>)"
    using Cons.prems room by (intro Cons.IH) simp_all
  ultimately show ?case by (simp add: escape_data_Cons inject_all_append del: inject_all.simps)
qed

lemma inject_checksum_bytes:
  "dstate d = Checksum \<Longrightarrow> length (raw d) + length cs \<le> RAW_BUF_CAP \<Longrightarrow>
   length (checksum_bytes d) + length cs < checksum_len d \<Longrightarrow>
   inject_all cs d = Some (d\<lparr>raw := raw d @ cs, checksum_bytes := checksum_bytes d @ cs\<rparr>)"
proof (induction cs arbitrary: d)
  case Nil
  then show ?case by simp
next
  case (Cons c cs)
  then have "inject_all [c] d = Some (d\<lparr>raw := raw d @ [c], checksum_bytes := checksum_bytes d @ [c]\<rparr>)"
    by (simp add: inject_def inject_checksum_def Let_def)
  with Cons show ?case using inject_all_append [of "[c]" cs d] by (simp del: inject_all.simps)
qed

text \<open>The data between SOF TYPE and the end of data, as the decoder reads it.\<close>

inductive wire_data :: "bytes \<Rightarrow> bytes \<Rightarrow> bool" where
  wire_Nil: "wire_data [] []"
| wire_plain: "b \<notin> {SOF, EOF, ESC} \<Longrightarrow> wire_data w ds \<Longrightarrow> wire_data (b # w) (b # ds)"
| wire_esc: "wire_data w ds \<Longrightarrow> wire_data (ESC # c # w) (unescape_byte c # ds)"

lemma wire_data_append: "wire_data v cs \<Longrightarrow> wire_data w ds \<Longrightarrow> wire_data (v @ w) (cs @ ds)"
  by (induction rule: wire_data.induct) (auto intro: wire_plain wire_esc)

lemma wire_data_snoc:
  "wire_data w ds \<Longrightarrow> b \<notin> {SOF, EOF, ESC} \<Longrightarrow> wire_data (w @ [b]) (ds @ [b])"
  "wire_data w ds \<Longrightarrow> wire_data (w @ [ESC, c]) (ds @ [unescape_byte c])"
  by (auto intro: wire_data_append wire_data.intros)

lemma wire_data_escape: "wire_data (escape_data data) data"
proof (induction data)
  case (Cons b data)
  then show ?case
    using wire_esc [OF Cons.IH, of "escape_byte b"] wire_plain [OF _ Cons.IH, of b]
    by (auto simp: escape_data_Cons unescape_escape_byte needs_escape_def)
qed (simp add: wire_Nil)

lemma unescape_from_wire:
  "wire_data w ds \<Longrightarrow> unescape_from (pre @ w @ rest) (length pre) (length pre + length w) = Some ds"
proof (induction arbitrary: pre rule: wire_data.induct)
  case wire_Nil
  then show ?case by (simp add: unescape_from.simps)
next
  case (wire_plain b w ds)
  then show ?case using wire_plain.IH [of "pre @ [b]"]
    by (subst unescape_from.simps) simp
next
  case (wire_esc w ds c)
  then show ?case using wire_esc.IH [of "pre @ [ESC, c]"]
    by (subst unescape_from.simps) (simp add: nth_append)
qed

lemma run_Cons2: "run ct ([a, b] @ bs) = fold running_update bs (running_update b (running_update a (running_new ct)))"
  by (simp add: run_def)

lemma running_of_type_run [simp]: "running_of_type ct (run ct bs)"
  by (induction bs rule: rev_induct) (simp_all add: run_snoc)

text \<open>
  The checksum part of a frame: \<open>pad\<close> is the second EOF of an even frame with the
  internet checksum.
\<close>

definition pad_eof :: "checksum_type \<Rightarrow> bytes \<Rightarrow> bytes" where
  "pad_eof ct data = (if ct = Internet \<and> even (length data) then [EOF] else [])"

definition frame_checksum :: "checksum_type \<Rightarrow> u8 \<Rightarrow> bytes \<Rightarrow> bytes" where
  "frame_checksum ct t data = running_finalize (run ct ([SOF, t] @ data @ [EOF] @ pad_eof ct data))"

lemma length_frame_checksum [simp]: "length (frame_checksum ct t data) = encoded_len ct"
  unfolding frame_checksum_def by (rule length_running_finalize) simp

lemma encode_frame_eq:
  "encode_frame ct t data =
     [SOF, t] @ escape_data data @ [EOF] @ pad_eof ct data @ frame_checksum ct t data @ [CR, LF]"
  by (simp add: encode_frame_def frame_checksum_def pad_eof_def Let_def run_def even_iff_mod_2_eq_zero)

lemma encoded_len_pos: "encoded_len ct = Suc (encoded_len ct - 1)"
  by (cases ct) (simp_all add: encoded_len_def)

lemma encoded_len_gt [simp]: "0 < encoded_len ct" "encoded_len ct \<noteq> 0"
  by (cases ct; simp add: encoded_len_def)+

lemma inject_eof_bytes:
  assumes "dstate d = Data" "ctype d = ct" "data_len d = length data"
    and "length (raw d) + 1 + length (pad_eof ct data) \<le> RAW_BUF_CAP"
  shows "inject_all ([EOF] @ pad_eof ct data) d = Some (d\<lparr>raw := raw d @ [EOF] @ pad_eof ct data,
    data_end := length (raw d), chk_state := fold running_update ([EOF] @ pad_eof ct data) (chk_state d),
    checksum_bytes := [], checksum_len := encoded_len ct, dstate := Checksum\<rparr>)"
  using assms
  by (auto simp: pad_eof_def inject_def inject_byte_def inject_eof_def Let_def even_iff_mod_2_eq_zero)

lemma inject_last_checksum_byte:
  assumes "dstate d = Checksum" "length (raw d) < RAW_BUF_CAP"
    and "length (checksum_bytes d) + 1 = checksum_len d"
    and "running_finalize (chk_state d) = checksum_bytes d @ [c]"
    and "raw d = pre @ SOF # t # w @ EOF # rest" "raw_head d = length pre"
    and "wire_data w data" "data_end d = length pre + 2 + length w"
  shows "\<exists>d'. inject_all [c] d = Some d' \<and> ctype d' = ctype d \<and> dstate d' = PostFrame \<and> raw d' = pre \<and>
    raw_head d' = length pre \<and> frames d' = frames d @ [\<lparr>type_byte = t, frame_data = data\<rparr>] \<and>
    drop_count d' = drop_count d"
proof -
  have "unescape_from (raw d @ [c]) (length pre + 2) (length pre + 2 + length w) = Some data"
    using unescape_from_wire [OF assms(7), of "pre @ [SOF, t]" "EOF # rest @ [c]"] assms(5) by simp
  then show ?thesis using assms
    by (simp add: inject_def inject_checksum_def checksum_ok_def resolve_success_def Let_def nth_append)
qed

lemma inject_line_end:
  assumes "dstate d = PostFrame" "length (raw d) < RAW_BUF_CAP"
  shows "inject_all [CR, LF] d = Some (d\<lparr>dstate := Idle\<rparr>)"
  using assms by (simp add: inject_def pop_raw_def Let_def)

lemma inject_start:
  assumes "dstate d \<notin> {DataEsc, Checksum}" "length (raw d) + 1 < RAW_BUF_CAP" "t \<noteq> SOF" "t \<noteq> EOF"
  shows "inject_all [SOF, t] d = Some (d\<lparr>raw := raw d @ [SOF, t], raw_head := length (raw d),
    chk_state := run (ctype d) [SOF, t], data_len := 0, dstate := Data\<rparr>)"
  using assms
  by (auto simp: inject_def inject_byte_def resolve_raw_before_last_def Let_def run_def)

lemma inject_all_then: "inject_all xs d = Some d' \<Longrightarrow> inject_all (xs @ ys) d = inject_all ys d'"
  by (simp add: inject_all_append)

lemma inject_encoded_frame:
  assumes st: "dstate d \<notin> {DataEsc, Checksum}" and t: "t \<noteq> SOF" "t \<noteq> EOF"
    and room: "length (raw d) + length (encode_frame (ctype d) t data) \<le> RAW_BUF_CAP + 2"
  shows "\<exists>d'. inject_all (encode_frame (ctype d) t data) d = Some d' \<and> ctype d' = ctype d \<and>
    dstate d' = Idle \<and> raw d' = raw d \<and> raw_head d' = length (raw d) \<and>
    frames d' = frames d @ [\<lparr>type_byte = t, frame_data = data\<rparr>] \<and> drop_count d' = drop_count d"
proof -
  let ?ct = "ctype d" and ?w = "escape_data data"
  let ?pad = "pad_eof ?ct data" and ?cs = "frame_checksum ?ct t data"
  let ?cs' = "butlast ?cs" and ?c = "last ?cs"
  obtain n where n: "encoded_len ?ct = Suc n" using encoded_len_pos [of ?ct] by blast
  have "0 < length ?cs" by (subst length_frame_checksum, subst encoded_len_pos) simp
  then have "?cs \<noteq> []" by (rule length_greater_0_conv [THEN iffD1])
  then have cs: "?cs = ?cs' @ [?c]" by (rule append_butlast_last_id [symmetric])
  have lcs: "length ?cs' = n" by (simp add: n)
  have room: "length (raw d) + 2 + length ?w + 1 + length ?pad + encoded_len ?ct \<le> RAW_BUF_CAP"
    using room by (simp add: encode_frame_eq)
  define d1 where "d1 = d\<lparr>raw := raw d @ [SOF, t], raw_head := length (raw d),
    chk_state := run ?ct [SOF, t], data_len := 0, dstate := Data\<rparr>"
  define d2 where "d2 = d1\<lparr>raw := raw d1 @ ?w, chk_state := fold running_update data (chk_state d1),
    data_len := data_len d1 + length data\<rparr>"
  define d3 where "d3 = d2\<lparr>raw := raw d2 @ [EOF] @ ?pad, data_end := length (raw d2),
    chk_state := fold running_update ([EOF] @ ?pad) (chk_state d2), checksum_bytes := [],
    checksum_len := encoded_len ?ct, dstate := Checksum\<rparr>"
  define d4 where "d4 = d3\<lparr>raw := raw d3 @ ?cs', checksum_bytes := checksum_bytes d3 @ ?cs'\<rparr>"
  note ds = d1_def d2_def d3_def d4_def
  have 1: "inject_all [SOF, t] d = Some d1"
    unfolding d1_def using st t room by (intro inject_start) simp_all
  have 2: "inject_all ?w d1 = Some d2"
    unfolding d2_def using room by (intro inject_data) (simp_all add: d1_def)
  have 3: "inject_all ([EOF] @ ?pad) d2 = Some d3"
    unfolding d3_def using room by (intro inject_eof_bytes) (simp_all add: d1_def d2_def)
  have 4: "inject_all ?cs' d3 = Some d4"
    unfolding d4_def using room lcs n
    by (intro inject_checksum_bytes) (simp_all add: d1_def d2_def d3_def)
  have "running_finalize (chk_state d4) = checksum_bytes d4 @ [?c]"
    using cs by (simp add: ds frame_checksum_def run_def)
  then have "\<exists>d'. inject_all [?c] d4 = Some d' \<and> ctype d' = ctype d4 \<and> dstate d' = PostFrame \<and>
      raw d' = raw d \<and> raw_head d' = length (raw d) \<and>
      frames d' = frames d4 @ [\<lparr>type_byte = t, frame_data = data\<rparr>] \<and> drop_count d' = drop_count d4"
    using room lcs n
    by (intro inject_last_checksum_byte [where w = ?w and rest = "?pad @ ?cs'"])
      (simp_all add: ds wire_data_escape)
  then obtain d5 where 5: "inject_all [?c] d4 = Some d5" and d5: "ctype d5 = ?ct" "dstate d5 = PostFrame"
      "raw d5 = raw d" "raw_head d5 = length (raw d)"
      "frames d5 = frames d @ [\<lparr>type_byte = t, frame_data = data\<rparr>]" "drop_count d5 = drop_count d"
    by (auto simp: ds)
  have 6: "inject_all [CR, LF] d5 = Some (d5\<lparr>dstate := Idle\<rparr>)"
    using d5 room by (intro inject_line_end) simp_all
  have "encode_frame ?ct t data = [SOF, t] @ ?w @ ([EOF] @ ?pad) @ ?cs' @ [?c] @ [CR, LF]"
    unfolding encode_frame_eq by (subst cs) simp
  then have "inject_all (encode_frame ?ct t data) d = Some (d5\<lparr>dstate := Idle\<rparr>)"
    by (simp only: inject_all_then [OF 1] inject_all_then [OF 2] inject_all_then [OF 3]
        inject_all_then [OF 4] inject_all_then [OF 5] 6)
  with d5 show ?thesis by simp
qed

end
