(* ===== verification/Machine.thy ===== *)
theory Machine
  imports Main
begin

text \<open>
  State machines driven by events: a step that may fail (a panic of the code), runs over
  a sequence of events, and the contract \<open>safe_machine\<close> under which a run never fails.
  The MUP1 decoder and the CoAP sessions are instances.
\<close>

fun steps :: "('e \<Rightarrow> 's \<Rightarrow> 's option) \<Rightarrow> 'e list \<Rightarrow> 's \<Rightarrow> 's option" where
  "steps step [] s = Some s"
| "steps step (e # es) s = (case step e s of None \<Rightarrow> None | Some s' \<Rightarrow> steps step es s')"

text \<open>Every event of the run meets the caller's side of the contract where it happens.\<close>

fun allowed :: "('e \<Rightarrow> 's \<Rightarrow> 's option) \<Rightarrow> ('e \<Rightarrow> 's \<Rightarrow> bool) \<Rightarrow> 'e list \<Rightarrow> 's \<Rightarrow> bool" where
  "allowed step ok [] s = True"
| "allowed step ok (e # es) s \<longleftrightarrow>
     ok e s \<and> (case step e s of None \<Rightarrow> True | Some s' \<Rightarrow> allowed step ok es s')"

lemma steps_append:
  "steps step (es @ fs) s = (case steps step es s of None \<Rightarrow> None | Some s' \<Rightarrow> steps step fs s')"
  by (induction es arbitrary: s) (auto split: option.splits)

locale safe_machine =
  fixes step :: "'e \<Rightarrow> 's \<Rightarrow> 's option"
    and ok :: "'e \<Rightarrow> 's \<Rightarrow> bool"
    and inv :: "'s \<Rightarrow> bool"
    and init :: 's
  assumes inv_init: "inv init"
    and inv_step: "inv s \<Longrightarrow> ok e s \<Longrightarrow> \<exists>s'. step e s = Some s' \<and> inv s'"
begin

lemma run_from: "inv s \<Longrightarrow> allowed step ok es s \<Longrightarrow> \<exists>s'. steps step es s = Some s' \<and> inv s'"
proof (induction es arbitrary: s)
  case (Cons e es)
  then obtain s' where "step e s = Some s'" "inv s'" using inv_step [of s e] by auto
  with Cons show ?case by simp
qed simp

lemma run_safe: "allowed step ok es init \<Longrightarrow> \<exists>s'. steps step es init = Some s' \<and> inv s'"
  by (rule run_from [OF inv_init])

lemma run_inv: "allowed step ok es init \<Longrightarrow> steps step es init = Some s \<Longrightarrow> inv s"
  using run_safe [of es] by simp

end

end
