(* ===== verification/Mup1_Correct.thy ===== *)
theory Mup1_Correct
  imports Mup1_Wire Machine
begin

text \<open>
  The contract of the MUP1 decoder: the invariant that ties the open attempt, the running
  checksum and the recorded positions to the bytes in the buffer, its preservation by
  every operation, and what follows for runs: no panic, authentic frames, and the round
  trip of a whole line.
\<close>

section \<open>Receiving: the decoder's invariant\<close>

text \<open>The bytes of the open attempt, and what they are in each state.\<close>

definition open_bytes :: "decoder \<Rightarrow> bytes" where
  "open_bytes d = drop (raw_head d) (raw d)"

definition attempt_ok :: "decoder \<Rightarrow> u8 \<Rightarrow> bytes \<Rightarrow> bytes \<Rightarrow> bytes \<Rightarrow> bytes \<Rightarrow> bool" where
  "attempt_ok d t w data tail fed \<longleftrightarrow>
     open_bytes d = [SOF, t] @ w @ tail \<and> t \<noteq> SOF \<and> t \<noteq> EOF \<and> wire_data w data
     \<and> chk_state d = run (ctype d) ([SOF, t] @ data @ fed)"

definition dec_inv :: "decoder \<Rightarrow> bool" where
  "dec_inv d \<longleftrightarrow> raw_head d \<le> length (raw d) \<and> length (raw d) \<le> RAW_BUF_CAP \<and>
     (case dstate d of
        Sof \<Rightarrow> open_bytes d = [SOF] \<and> chk_state d = run (ctype d) [SOF] \<and> data_len d = 0
      | Data \<Rightarrow> \<exists>t w data. attempt_ok d t w data [] [] \<and> data_len d = length data
      | DataEsc \<Rightarrow> \<exists>t w data. attempt_ok d t w data [ESC] [] \<and> data_len d = length data
      | Eof \<Rightarrow> \<exists>t w data. attempt_ok d t w data [EOF] [EOF] \<and> pad_eof (ctype d) data = [EOF]
          \<and> data_end d = raw_head d + 2 + length w
      | Checksum \<Rightarrow> \<exists>t w data.
          attempt_ok d t w data ([EOF] @ pad_eof (ctype d) data @ checksum_bytes d)
            ([EOF] @ pad_eof (ctype d) data)
          \<and> data_end d = raw_head d + 2 + length w
          \<and> checksum_len d = encoded_len (ctype d) \<and> length (checksum_bytes d) < encoded_len (ctype d)
      | _ \<Rightarrow> raw_head d = length (raw d))"

lemma dec_inv_new: "dec_inv (decoder_new ct)"
  by (simp add: dec_inv_def decoder_new_def)

lemma dec_inv_raw_head: "dec_inv d \<Longrightarrow> raw_head d \<le> length (raw d) \<and> length (raw d) \<le> RAW_BUF_CAP"
  by (simp add: dec_inv_def)

lemma dec_inv_resolve_raw: "length (raw d) \<le> RAW_BUF_CAP \<Longrightarrow> dec_inv (resolve_raw d)"
  by (simp add: dec_inv_def resolve_raw_def)

lemma dec_inv_progress [simp]:
  "dec_inv (d\<lparr>open_len_at_last_tick := x, time_of_last_progress := y\<rparr>) = dec_inv d"
  by (simp add: dec_inv_def open_bytes_def attempt_ok_def cong: state.case_cong)

lemma dec_inv_tick: "dec_inv d \<Longrightarrow> dec_inv (snd (tick now d))"
  by (auto simp: tick_def Let_def intro: dec_inv_resolve_raw dest: dec_inv_raw_head)

lemma dec_inv_set_timeout: "dec_inv d \<Longrightarrow> dec_inv (set_timeout_ms ms d)"
  by (simp add: set_timeout_ms_def dec_inv_def open_bytes_def attempt_ok_def split: state.splits)

lemma dec_inv_cases:
  assumes "dec_inv d"
  obtains "dstate d \<in> {Idle, PostFrame, PostFrameCr}" "raw_head d = length (raw d)"
  | "dstate d = Sof" "open_bytes d = [SOF]" "chk_state d = run (ctype d) [SOF]" "data_len d = 0"
  | t w data where "dstate d = Data" "attempt_ok d t w data [] []" "data_len d = length data"
  | t w data where "dstate d = DataEsc" "attempt_ok d t w data [ESC] []" "data_len d = length data"
  | t w data where "dstate d = Eof" "attempt_ok d t w data [EOF] [EOF]"
      "pad_eof (ctype d) data = [EOF]" "data_end d = raw_head d + 2 + length w"
  | t w data where "dstate d = Checksum"
      "attempt_ok d t w data ([EOF] @ pad_eof (ctype d) data @ checksum_bytes d)
            ([EOF] @ pad_eof (ctype d) data)"
      "data_end d = raw_head d + 2 + length w"
      "checksum_len d = encoded_len (ctype d)" "length (checksum_bytes d) < encoded_len (ctype d)"
proof (cases "dstate d")
qed (use assms that in \<open>auto simp: dec_inv_def\<close>)

lemma dec_invI:
  assumes "raw_head d \<le> length (raw d)" "length (raw d) \<le> RAW_BUF_CAP"
  shows "dstate d \<in> {Idle, PostFrame, PostFrameCr} \<Longrightarrow> raw_head d = length (raw d) \<Longrightarrow> dec_inv d"
    and "dstate d = Data \<Longrightarrow> attempt_ok d t w data [] [] \<Longrightarrow> data_len d = length data \<Longrightarrow> dec_inv d"
    and "dstate d = DataEsc \<Longrightarrow> attempt_ok d t w data [ESC] [] \<Longrightarrow> data_len d = length data \<Longrightarrow> dec_inv d"
    and "dstate d = Eof \<Longrightarrow> attempt_ok d t w data [EOF] [EOF] \<Longrightarrow> pad_eof (ctype d) data = [EOF] \<Longrightarrow>
      data_end d = raw_head d + 2 + length w \<Longrightarrow> dec_inv d"
    and "dstate d = Checksum \<Longrightarrow>
      attempt_ok d t w data ([EOF] @ pad_eof (ctype d) data @ checksum_bytes d)
            ([EOF] @ pad_eof (ctype d) data) \<Longrightarrow>
      data_end d = raw_head d + 2 + length w \<Longrightarrow> checksum_len d = encoded_len (ctype d) \<Longrightarrow>
      length (checksum_bytes d) < encoded_len (ctype d) \<Longrightarrow> dec_inv d"
  using assms by (auto simp: dec_inv_def)

text \<open>A frame was delivered: the attempt and its last byte are exactly its wire form.\<close>

definition delivered :: "decoder \<Rightarrow> u8 \<Rightarrow> decoder \<Rightarrow> bool" where
  "delivered d ch d' \<longleftrightarrow> (\<exists>t w data cs.
     frames d' = frames d @ [\<lparr>type_byte = t, frame_data = data\<rparr>]
     \<and> open_bytes d @ [ch] = [SOF, t] @ w @ [EOF] @ pad_eof (ctype d) data @ cs
     \<and> t \<noteq> SOF \<and> t \<noteq> EOF \<and> wire_data w data
     \<and> (cs = frame_checksum (ctype d) t data \<or> is_ignore_sentinel (ctype d) cs)
     \<and> raw d' = take (raw_head d) (raw d))"

lemma dec_inv_first_eof:
  assumes "length (raw d) = raw_head d + 2 + length w" "ch = EOF" "dstate d = Data"
    and att: "attempt_ok d t w data [] []" and "data_len d = length data"
    and "raw_head d \<le> length (raw d)" "length (raw d) < RAW_BUF_CAP"
    and ob: "drop (raw_head d) (raw d @ [ch]) = open_bytes d @ [ch]"
  shows "dec_inv (inject_byte ch (d\<lparr>raw := raw d @ [ch]\<rparr>))"
proof (cases "ctype d = Internet \<and> data_len d mod 2 = 0")
  case True
  with assms have "inject_byte ch (d\<lparr>raw := raw d @ [ch]\<rparr>) = d\<lparr>raw := raw d @ [ch],
      data_end := length (raw d), chk_state := running_update EOF (chk_state d), dstate := Eof\<rparr>"
    by (simp add: inject_byte_def inject_eof_def)
  moreover have "even (length data)" using True assms(5) by (simp add: even_iff_mod_2_eq_zero)
  ultimately show ?thesis using True assms(1,2,6,7) att ob
    by (intro dec_invI(4) [where t = t and w = w and data = data])
      (auto simp: attempt_ok_def open_bytes_def pad_eof_def run_def)
next
  case False
  with assms have "inject_byte ch (d\<lparr>raw := raw d @ [ch]\<rparr>) = d\<lparr>raw := raw d @ [ch],
      data_end := length (raw d), chk_state := running_update EOF (chk_state d), checksum_bytes := [],
      checksum_len := encoded_len (ctype d), dstate := Checksum\<rparr>"
    by (auto simp: inject_byte_def inject_eof_def Let_def)
  moreover have "pad_eof (ctype d) data = []" using False assms(5)
    by (auto simp: pad_eof_def even_iff_mod_2_eq_zero)
  ultimately show ?thesis using assms(1,2,6,7) att ob
    by (intro dec_invI(5) [where t = t and w = w and data = data])
      (auto simp: attempt_ok_def open_bytes_def run_def)
qed

lemma dec_inv_inject_byte:
  assumes inv: "dec_inv d" and st: "dstate d \<noteq> Checksum" and room: "length (raw d) < RAW_BUF_CAP"
  shows "dec_inv (inject_byte ch (d\<lparr>raw := raw d @ [ch]\<rparr>))"
proof -
  have head: "raw_head d \<le> length (raw d)" using dec_inv_raw_head [OF inv] by simp
  then have ob: "drop (raw_head d) (raw d @ [ch]) = open_bytes d @ [ch]" by (simp add: open_bytes_def)
  have sof: "dec_inv (inject_byte SOF (e\<lparr>raw := raw e @ [SOF]\<rparr>))"
    if "dstate e \<noteq> DataEsc" "length (raw e) < RAW_BUF_CAP" for e
    using that by (simp add: inject_byte_def resolve_raw_before_last_def dec_inv_def open_bytes_def run_def)
  from inv show ?thesis
  proof (cases rule: dec_inv_cases)
    case 1
    with room sof [of d] show ?thesis
      by (auto simp: inject_byte_def inject_eof_def dec_inv_def)
  next
    case 2
    show ?thesis
    proof (cases "ch = SOF \<or> ch = EOF")
      case True
      with 2 room sof [of d] show ?thesis
        by (auto simp: inject_byte_def intro!: dec_inv_resolve_raw)
    next
      case False
      with 2 have "inject_byte ch (d\<lparr>raw := raw d @ [ch]\<rparr>) =
          d\<lparr>raw := raw d @ [ch], chk_state := running_update ch (chk_state d), dstate := Data\<rparr>"
        by (simp add: inject_byte_def)
      with False 2 head room ob show ?thesis
        by (intro dec_invI(2) [where t = ch and w = "[]" and data = "[]"])
          (auto simp: attempt_ok_def open_bytes_def wire_Nil run_def)
    qed
  next
    case (3 t w data)
    consider "ch = SOF" | "ch = ESC" | "ch = EOF" | "ch \<notin> {SOF, EOF, ESC}" by blast
    then show ?thesis
    proof cases
      case 1
      with 3 room sof [of d] show ?thesis by simp
    next
      case 2
      with 3 have "inject_byte ch (d\<lparr>raw := raw d @ [ch]\<rparr>) = d\<lparr>raw := raw d @ [ch], dstate := DataEsc\<rparr>"
        by (simp add: inject_byte_def)
      with 2 3 head room ob show ?thesis
        by (intro dec_invI(3) [where t = t and w = w and data = data])
          (auto simp: attempt_ok_def open_bytes_def)
    next
      case 3: 3
      with \<open>attempt_ok d t w data [] []\<close> have "drop (raw_head d) (raw d) = SOF # t # w"
        by (simp add: attempt_ok_def open_bytes_def)
      then have "length (drop (raw_head d) (raw d)) = 2 + length w" by simp
      then have "length (raw d) = raw_head d + 2 + length w" using head by simp
      moreover note \<open>ch = EOF\<close> \<open>dstate d = Data\<close> \<open>attempt_ok d t w data [] []\<close> \<open>data_len d = length data\<close>
      ultimately show ?thesis using head room ob by (intro dec_inv_first_eof)
    next
      case 4
      with 3 have "inject_byte ch (d\<lparr>raw := raw d @ [ch]\<rparr>) = d\<lparr>raw := raw d @ [ch],
          chk_state := running_update ch (chk_state d), data_len := data_len d + 1\<rparr>"
        by (simp add: inject_byte_def)
      with 4 3 head room ob wire_data_snoc(1) [of w data ch] show ?thesis
        by (intro dec_invI(2) [where t = t and w = "w @ [ch]" and data = "data @ [ch]"])
          (auto simp: attempt_ok_def open_bytes_def run_def)
    qed
  next
    case (4 t w data)
    then have "inject_byte ch (d\<lparr>raw := raw d @ [ch]\<rparr>) = d\<lparr>raw := raw d @ [ch],
        chk_state := running_update (unescape_byte ch) (chk_state d), data_len := data_len d + 1,
        dstate := Data\<rparr>"
      by (simp add: inject_byte_def)
    with 4 head room ob wire_data_snoc(2) [of w data ch] show ?thesis
      by (intro dec_invI(2) [where t = t and w = "w @ [ESC, ch]" and data = "data @ [unescape_byte ch]"])
        (auto simp: attempt_ok_def open_bytes_def run_def)
  next
    case (5 t w data)
    consider "ch = SOF" | "ch = EOF" | "ch \<notin> {SOF, EOF}" by blast
    then show ?thesis
    proof cases
      case 1
      with 5 room sof [of d] show ?thesis by simp
    next
      case 2
      with 5 have "inject_byte ch (d\<lparr>raw := raw d @ [ch]\<rparr>) = d\<lparr>raw := raw d @ [ch],
          chk_state := running_update EOF (chk_state d), checksum_bytes := [],
          checksum_len := encoded_len (ctype d), dstate := Checksum\<rparr>"
        by (simp add: inject_byte_def inject_eof_def)
      with 2 5 head room ob show ?thesis
        by (intro dec_invI(5) [where t = t and w = w and data = data])
          (auto simp: attempt_ok_def open_bytes_def run_def)
    next
      case 3
      with 5 room show ?thesis by (auto simp: inject_byte_def intro!: dec_inv_resolve_raw)
    qed
  next
    case (6 t w data)
    with st show ?thesis by simp
  qed
qed

lemma dec_inv_inject_checksum:
  assumes inv: "dec_inv d" and st: "dstate d = Checksum" and room: "length (raw d) < RAW_BUF_CAP"
  shows "\<exists>st d'. inject_checksum ch (d\<lparr>raw := raw d @ [ch]\<rparr>) = Some (st, d') \<and> dec_inv d' \<and>
    ctype d' = ctype d \<and> drop_count d' = drop_count d \<and> (frames d' = frames d \<or> delivered d ch d')"
proof -
  have head: "raw_head d \<le> length (raw d)" using dec_inv_raw_head [OF inv] by simp
  from inv st obtain t w data where
    att: "attempt_ok d t w data ([EOF] @ pad_eof (ctype d) data @ checksum_bytes d)
            ([EOF] @ pad_eof (ctype d) data)"
    and de: "data_end d = raw_head d + 2 + length w"
    and cl: "checksum_len d = encoded_len (ctype d)" "length (checksum_bytes d) < encoded_len (ctype d)"
    by (auto elim: dec_inv_cases)
  let ?cs = "checksum_bytes d @ [ch]"
  let ?tail = "[EOF] @ pad_eof (ctype d) data @ ?cs"
  have split: "raw d @ [ch] = take (raw_head d) (raw d) @ [SOF, t] @ w @ ?tail"
  proof -
    have "raw d = take (raw_head d) (raw d) @ open_bytes d" by (simp add: open_bytes_def)
    with att show ?thesis by (simp add: attempt_ok_def)
  qed
  define d1 where "d1 = d\<lparr>raw := raw d @ [ch], checksum_bytes := ?cs\<rparr>"
  have step: "inject_checksum ch (d\<lparr>raw := raw d @ [ch]\<rparr>) =
     (if length ?cs < checksum_len d then Some (status d1 False False, d1)
      else if checksum_ok d1 then
        map_option (\<lambda>d'. (\<lparr>frame_ready = True, checksum_error = False, buffer_full = False\<rparr>, d'))
          (resolve_success d1)
      else Some (status (resolve_raw d1) True False, resolve_raw d1))"
    by (simp add: inject_checksum_def d1_def Let_def)
  have raw_len: "raw_head d + 1 < length (raw d @ [ch])"
    unfolding split using head by simp
  have nth: "(raw d @ [ch]) ! (raw_head d + 1) = t"
    unfolding split using head by (simp add: nth_append)
  have tk: "take (raw_head d) (raw d @ [ch]) = take (raw_head d) (raw d)" using head by simp
  consider "length ?cs < checksum_len d" | "\<not> length ?cs < checksum_len d" "checksum_ok d1"
    | "\<not> length ?cs < checksum_len d" "\<not> checksum_ok d1" by blast
  then show ?thesis
  proof cases
    case 1
    with step have "inject_checksum ch (d\<lparr>raw := raw d @ [ch]\<rparr>) = Some (status d1 False False, d1)" by simp
    moreover have "dec_inv d1" using 1 att de cl st head room
      by (intro dec_invI(5) [where t = t and w = w and data = data])
        (auto simp: d1_def attempt_ok_def open_bytes_def)
    ultimately show ?thesis by (simp add: d1_def)
  next
    case 2
    have "unescape_from (raw d @ [ch]) (raw_head d + 2) (data_end d) = Some data"
      using unescape_from_wire [of w data "take (raw_head d) (raw d) @ [SOF, t]" ?tail] att head
      unfolding split de by (simp add: attempt_ok_def)
    moreover define d' where "d' = d1\<lparr>frames := frames d @ [\<lparr>type_byte = t, frame_data = data\<rparr>],
        raw := take (raw_head d) (raw d), dstate := PostFrame\<rparr>"
    ultimately have "resolve_success d1 = Some d'"
      using raw_len nth tk by (simp add: resolve_success_def d1_def)
    moreover have "delivered d ch d'"
    proof -
      have "chk_state d = run (ctype d) ([SOF, t] @ data @ [EOF] @ pad_eof (ctype d) data)"
        using att by (simp add: attempt_ok_def)
      then have "?cs = frame_checksum (ctype d) t data \<or> is_ignore_sentinel (ctype d) ?cs"
        using 2 by (auto simp: checksum_ok_def d1_def frame_checksum_def)
      with att show ?thesis unfolding delivered_def
        by (intro exI [of _ t] exI [of _ w] exI [of _ data] exI [of _ ?cs])
          (auto simp: d'_def attempt_ok_def)
    qed
    moreover have "dec_inv d'" using head room by (simp add: dec_inv_def d'_def d1_def)
    ultimately show ?thesis using step 2 by (simp add: d'_def d1_def)
  next
    case 3
    with step have "inject_checksum ch (d\<lparr>raw := raw d @ [ch]\<rparr>)
        = Some (status (resolve_raw d1) True False, resolve_raw d1)" by simp
    moreover have "dec_inv (resolve_raw d1)" using room by (intro dec_inv_resolve_raw) (simp add: d1_def)
    ultimately show ?thesis by (simp add: d1_def resolve_raw_def)
  qed
qed

text \<open>Every byte received in any state of the invariant: no panic, and the invariant again.\<close>

lemma dec_inv_idle [simp]:
  "dec_inv d \<Longrightarrow> dstate d \<in> {PostFrame, PostFrameCr} \<Longrightarrow> dec_inv (d\<lparr>dstate := Idle\<rparr>)"
  by (auto simp: dec_inv_def)

lemma inject_byte_frames [simp]:
  "frames (inject_byte ch d) = frames d" "ctype (inject_byte ch d) = ctype d"
  "drop_count (inject_byte ch d) = drop_count d"
  by (simp_all add: inject_byte_def inject_eof_def resolve_raw_def resolve_raw_before_last_def Let_def)

lemma dec_inv_inject:
  assumes inv: "dec_inv d"
  shows "\<exists>st d'. inject ch d = Some (st, d') \<and> dec_inv d' \<and> ctype d' = ctype d \<and>
    (frames d' = frames d \<or> delivered d ch d')"
proof (cases "length (raw d) < RAW_BUF_CAP")
  case False
  with inv have "inject ch d = Some (status ((resolve_raw d)\<lparr>drop_count := drop_count d + 1\<rparr>) False True,
      (resolve_raw d)\<lparr>drop_count := drop_count d + 1\<rparr>)"
    by (simp add: inject_def raw_append_def Let_def)
  moreover have "dec_inv ((resolve_raw d)\<lparr>drop_count := drop_count d + 1\<rparr>)"
    using dec_inv_raw_head [OF inv] by (simp add: dec_inv_def resolve_raw_def)
  ultimately show ?thesis by (simp add: resolve_raw_def)
next
  case room: True
  consider "dstate d = PostFrame" "ch = CR" | "dstate d = PostFrameCr" "ch = LF"
    | "dstate d = PostFrame" "ch \<noteq> CR" | "dstate d = PostFrameCr" "ch \<noteq> LF"
    | "dstate d = Checksum" | "dstate d \<notin> {PostFrame, PostFrameCr, Checksum}" by blast
  moreover have eq: "d\<lparr>raw := raw d @ [ch], dstate := Idle\<rparr> = d\<lparr>dstate := Idle, raw := raw d @ [ch]\<rparr>"
    by simp
  ultimately show ?thesis
  proof cases
    case 5
    with room dec_inv_inject_checksum [OF inv 5 room, of ch] show ?thesis
      by (auto simp: inject_def Let_def)
  next
    case 6
    with room dec_inv_inject_byte [OF inv _ room, of ch] show ?thesis
      by (auto simp: inject_def Let_def)
  next
    case 3
    with room dec_inv_inject_byte [of "d\<lparr>dstate := Idle\<rparr>" ch] dec_inv_idle [OF inv] show ?thesis
      by (auto simp: inject_def Let_def eq)
  next
    case 4
    with room dec_inv_inject_byte [of "d\<lparr>dstate := Idle\<rparr>" ch] dec_inv_idle [OF inv] show ?thesis
      by (auto simp: inject_def Let_def eq)
  qed (use room inv in \<open>auto simp: inject_def pop_raw_def Let_def dec_inv_def\<close>)
qed

section \<open>The decoder as a machine\<close>

text \<open>
  The events of a decoder's life. \<open>get\<close> is called safely when a completed frame waits,
  when there is no settled raw content, or when no checksum is being received
  (the theory \<open>Mup1_Interrupted\<close> shows why this is needed).
\<close>

datatype dec_event = Rx u8 | Tick u64 | Call_get | Set_timeout u64

definition dec_step :: "dec_event \<Rightarrow> decoder \<Rightarrow> decoder option" where
  "dec_step e d = (case e of
     Rx b \<Rightarrow> map_option snd (inject b d)
   | Tick now \<Rightarrow> Some (snd (tick now d))
   | Call_get \<Rightarrow> Some (snd (get d))
   | Set_timeout ms \<Rightarrow> Some (set_timeout_ms ms d))"

definition get_ok :: "dec_event \<Rightarrow> decoder \<Rightarrow> bool" where
  "get_ok e d \<longleftrightarrow>
     e \<noteq> Call_get \<or> frames d \<noteq> [] \<or> raw_head d = 0 \<or> dstate d \<notin> {Eof, Checksum}"

lemma dec_inv_get:
  assumes "dec_inv d" "get_ok Call_get d"
  shows "dec_inv (snd (get d))"
proof (cases "frames d")
  case (Cons f fs)
  with assms show ?thesis
    by (simp add: get_def dec_inv_def open_bytes_def attempt_ok_def cong: state.case_cong)
next
  case Nil
  show ?thesis
  proof (cases "raw_head d = 0")
    case True
    with Nil assms show ?thesis by (simp add: get_def)
  next
    case False
    with Nil assms have st: "dstate d \<notin> {Eof, Checksum}" by (simp add: get_ok_def)
    let ?d = "d\<lparr>raw := drop (raw_head d) (raw d), raw_head := 0\<rparr>"
    have ob: "open_bytes ?d = open_bytes d" by (simp add: open_bytes_def)
    have att: "attempt_ok ?d t w data tail fed = attempt_ok d t w data tail fed" for t w data tail fed
      by (simp only: attempt_ok_def ob) simp
    have "dec_inv ?d" using assms(1) st
      by (cases "dstate d") (auto simp: dec_inv_def att ob)
    with Nil False show ?thesis by (simp add: get_def)
  qed
qed

interpretation mup1: safe_machine dec_step get_ok dec_inv "decoder_new ct" for ct
proof unfold_locales
  show "dec_inv (decoder_new ct)" by (rule dec_inv_new)
next
  fix d e assume "dec_inv d" "get_ok e d"
  then show "\<exists>d'. dec_step e d = Some d' \<and> dec_inv d'"
    using dec_inv_inject [of d] dec_inv_tick dec_inv_get dec_inv_set_timeout
    by (cases e) (force simp: dec_step_def)+
qed

section \<open>The contract of the framing\<close>

lemma inject_noise:
  "dstate d = Idle \<Longrightarrow> raw_head d = length (raw d) \<Longrightarrow> SOF \<notin> set ns \<Longrightarrow>
   length (raw d) + length ns \<le> RAW_BUF_CAP \<Longrightarrow>
   inject_all ns d = Some (d\<lparr>raw := raw d @ ns, raw_head := length (raw d @ ns)\<rparr>)"
proof (induction ns arbitrary: d)
  case (Cons n ns)
  let ?d = "d\<lparr>raw := raw d @ [n], raw_head := length (raw d @ [n])\<rparr>"
  from Cons.prems have "inject_all [n] d = Some ?d"
    by (auto simp: inject_def inject_byte_def inject_eof_def Let_def)
  moreover have "inject_all ns ?d = Some (?d\<lparr>raw := raw ?d @ ns, raw_head := length (raw ?d @ ns)\<rparr>)"
    using Cons.prems by (intro Cons.IH) simp_all
  ultimately show ?case using inject_all_append [of "[n]" ns d] by (simp del: inject_all.simps)
qed simp

text \<open>A line carries frames, each after some output that is not part of a frame.\<close>

fun line :: "checksum_type \<Rightarrow> (bytes \<times> u8 \<times> bytes) list \<Rightarrow> bytes" where
  "line ct [] = []"
| "line ct ((noise, t, data) # fs) = noise @ encode_frame ct t data @ line ct fs"

fun line_ok :: "checksum_type \<Rightarrow> nat \<Rightarrow> (bytes \<times> u8 \<times> bytes) list \<Rightarrow> bool" where
  "line_ok ct n [] = True"
| "line_ok ct n ((noise, t, data) # fs) \<longleftrightarrow>
     SOF \<notin> set noise \<and> t \<noteq> SOF \<and> t \<noteq> EOF \<and>
     n + length noise + length (encode_frame ct t data) \<le> RAW_BUF_CAP + 2 \<and>
     line_ok ct (n + length noise) fs"

lemma inject_line:
  "dstate d = Idle \<Longrightarrow> raw_head d = length (raw d) \<Longrightarrow> line_ok (ctype d) (length (raw d)) fs \<Longrightarrow>
   \<exists>d'. inject_all (line (ctype d) fs) d = Some d'
     \<and> frames d' = frames d @ map (\<lambda>(noise, t, data). \<lparr>type_byte = t, frame_data = data\<rparr>) fs
     \<and> raw d' = raw d @ concat (map fst fs) \<and> raw_head d' = length (raw d')
     \<and> drop_count d' = drop_count d \<and> dstate d' = Idle \<and> ctype d' = ctype d"
proof (induction fs arbitrary: d)
  case (Cons f fs)
  obtain noise t data where f: "f = (noise, t, data)" by (cases f) auto
  let ?d1 = "d\<lparr>raw := raw d @ noise, raw_head := length (raw d @ noise)\<rparr>"
  have "0 < length (encode_frame (ctype d) t data) - 2"
    by (simp add: encode_frame_eq)
  then have "inject_all noise d = Some ?d1"
    using Cons.prems f by (intro inject_noise) auto
  moreover obtain d2 where d2: "inject_all (encode_frame (ctype d) t data) ?d1 = Some d2"
    "ctype d2 = ctype d" "dstate d2 = Idle" "raw d2 = raw d @ noise" "raw_head d2 = length (raw d @ noise)"
    "frames d2 = frames d @ [\<lparr>type_byte = t, frame_data = data\<rparr>]" "drop_count d2 = drop_count d"
    using inject_encoded_frame [of ?d1 t data] Cons.prems f by auto
  moreover obtain d3 where "inject_all (line (ctype d2) fs) d2 = Some d3"
    "frames d3 = frames d2 @ map (\<lambda>(noise, t, data). \<lparr>type_byte = t, frame_data = data\<rparr>) fs"
    "raw d3 = raw d2 @ concat (map fst fs)" "raw_head d3 = length (raw d3)" "drop_count d3 = drop_count d2"
    "dstate d3 = Idle" "ctype d3 = ctype d2"
    using Cons.IH [of d2] Cons.prems d2 f by auto
  ultimately show ?case using f by (simp add: inject_all_append)
qed simp

text \<open>
  C9: What \<open>encode\<close> sends, the decoder receives: a line carrying any number of frames,
  each preceded by other output without a SOF, is decoded into exactly these frames in
  order, whatever bytes their data holds, and the other output is kept as raw content;
  no byte is dropped. The type of a frame must not be SOF or EOF, and the output waiting
  with the frame must fit the decoder's buffer.
\<close>

theorem mup1_line_roundtrip:
  assumes "line_ok ct 0 fs"
  shows "\<exists>d. inject_all (line ct fs) (decoder_new ct) = Some d
    \<and> frames d = map (\<lambda>(noise, t, data). \<lparr>type_byte = t, frame_data = data\<rparr>) fs
    \<and> raw d = concat (map fst fs) \<and> raw_head d = length (raw d) \<and> drop_count d = 0"
  using inject_line [of "decoder_new ct" fs] assms by (auto simp: decoder_new_def)

theorem mup1_line_roundtrip_witness:
  "\<exists>d. inject_all (line Crc32 [([0x41], 0x70, [0x3E, 0x00, 0x5C]), ([], 0x43, [])]) (decoder_new Crc32) = Some d
    \<and> frames d = [\<lparr>type_byte = 0x70, frame_data = [0x3E, 0x00, 0x5C]\<rparr>, \<lparr>type_byte = 0x43, frame_data = []\<rparr>]
    \<and> raw d = [0x41]"
  using mup1_line_roundtrip [of Crc32 "[([0x41], 0x70, [0x3E, 0x00, 0x5C]), ([], 0x43, [])]"]
  by (auto simp: encode_frame_eq escape_data_def needs_escape_def pad_eof_def encoded_len_def)

lemma length_encode_frame: "length (encode_frame ct t data) \<le> 2 * length data + 11"
proof -
  have "length (escape_data data) \<le> 2 * length data"
    by (induction data) (simp_all add: escape_data_Cons)
  moreover have "encoded_len ct + length (pad_eof ct data) \<le> 6"
    by (cases ct) (simp_all add: encoded_len_def pad_eof_def)
  ultimately show ?thesis by (simp add: encode_frame_eq)
qed

text \<open>
  C19: The largest payload the protocol allows (\<open>MAX_DATA_SIZE\<close>) fits the decoder's
  buffer even when every byte is escaped, with either checksum.
\<close>

theorem mup1_max_payload_fits:
  assumes "length data \<le> MAX_DATA_SIZE"
  shows "length (encode_frame ct t data) \<le> RAW_BUF_CAP + 2"
  using length_encode_frame [of ct t data] assms by (simp add: MAX_DATA_SIZE_def)

theorem mup1_max_payload_fits_witness: "length (encode_frame Internet 0x70 (replicate 300 0x3E)) \<le> 611"
  using mup1_max_payload_fits [where data = "replicate 300 0x3E" and ct = Internet and t = "0x70"] by (simp add: MAX_DATA_SIZE_def)

text \<open>
  C15: Nothing a device sends makes the decoder panic: for every sequence of received
  bytes, clock ticks, changes of the timeout and calls of \<open>get\<close> that do not fall into
  a frame's checksum while settled content waits, every step returns, and the buffer
  stays within its capacity with the settled part inside it.
\<close>

theorem mup1_decoder_total:
  assumes "allowed dec_step get_ok es (decoder_new ct)"
  shows "\<exists>d. steps dec_step es (decoder_new ct) = Some d
    \<and> raw_head d \<le> length (raw d) \<and> length (raw d) \<le> RAW_BUF_CAP"
  using mup1.run_safe [OF assms] dec_inv_raw_head by blast

theorem mup1_decoder_total_witness:
  "\<exists>d. steps dec_step [Rx 0x3E, Call_get, Rx 0x41, Tick 7, Call_get] (decoder_new Internet) = Some d
    \<and> raw_head d \<le> length (raw d) \<and> length (raw d) \<le> RAW_BUF_CAP"
  by (rule mup1_decoder_total) (simp add: dec_step_def get_ok_def decoder_new_def inject_def
      inject_byte_def resolve_raw_before_last_def get_def tick_def Let_def)

text \<open>
  C4: A frame is only ever delivered for bytes that are one, as long as no \<open>get\<close> falls into
  the checksum of a frame while settled content waits: after any run without such a call,
  when a received byte adds frames to the queue, it adds one, the bytes of the attempt
  with this byte are SOF, the type, escaped data that reads as the delivered data, the
  end marks and a checksum, and the checksum is the right one or the internet
  checksum's "0000"; these bytes and no others leave the buffer.
\<close>

theorem mup1_frame_authentic:
  assumes "allowed dec_step get_ok es (decoder_new ct)"
    and "steps dec_step es (decoder_new ct) = Some d"
    and "inject ch d = Some (st, d')" and "frames d' \<noteq> frames d"
  shows "\<exists>t w data cs. frames d' = frames d @ [\<lparr>type_byte = t, frame_data = data\<rparr>]
    \<and> open_bytes d @ [ch] = [SOF, t] @ w @ [EOF] @ pad_eof (ctype d) data @ cs
    \<and> wire_data w data
    \<and> (cs = frame_checksum (ctype d) t data \<or> is_ignore_sentinel (ctype d) cs)
    \<and> raw d' = take (raw_head d) (raw d)"
proof -
  have "dec_inv d" using mup1.run_inv [OF assms(1,2)] .
  with dec_inv_inject [of d ch] assms(3,4) have "delivered d ch d'" by auto
  then show ?thesis unfolding delivered_def by blast
qed

theorem mup1_frame_authentic_witness:
  "\<exists>d st d' t data. steps dec_step (map Rx [0x3E, 0x70, 0x3C, 0x3C, 0x30, 0x30, 0x30]) (decoder_new Internet) = Some d
    \<and> inject 0x30 d = Some (st, d') \<and> frames d' = frames d @ [\<lparr>type_byte = t, frame_data = data\<rparr>]"
proof -
  let ?run = "steps dec_step (map Rx [0x3E, 0x70, 0x3C, 0x3C, 0x30, 0x30, 0x30]) (decoder_new Internet)"
  have "Option.bind ?run (\<lambda>d. map_option (\<lambda>r. frames (snd r) = frames d) (inject 0x30 d)) = Some False"
    by code_simp
  then obtain d st d' where run: "?run = Some d" and inj: "inject 0x30 d = Some (st, d')"
    and fr: "frames d' \<noteq> frames d" by (auto simp: Option.bind_eq_Some_conv)
  have "allowed dec_step get_ok (map Rx [0x3E, 0x70, 0x3C, 0x3C, 0x30, 0x30, 0x30]) (decoder_new Internet)"
    by code_simp
  from mup1_frame_authentic [OF this run inj fr] run inj show ?thesis by blast
qed

end
