(* ===== verification/Mup1_Client.thy ===== *)
theory Mup1_Client
  imports Mup1_Correct
begin

text \<open>
  The MUP1 client (\<open>src/mup1/src/client.rs\<close>) between a decoder and a transport. The
  transport and the clock are outside: \<open>poll\<close> takes what one \<open>read\<close> returned (an error
  or up to 1024 bytes) and the time, and returns what the code hands to \<open>on_frame\<close>.
\<close>

section \<open>Frame types\<close>

definition FRAME_ANNOUNCE :: u8 where "FRAME_ANNOUNCE = 0x41"
definition FRAME_COAP_LOWER :: u8 where "FRAME_COAP_LOWER = 0x63"
definition FRAME_COAP_UPPER :: u8 where "FRAME_COAP_UPPER = 0x43"
definition FRAME_DTLS_LOWER :: u8 where "FRAME_DTLS_LOWER = 0x64"
definition FRAME_DTLS_UPPER :: u8 where "FRAME_DTLS_UPPER = 0x44"
definition FRAME_PING :: u8 where "FRAME_PING = 0x70"
definition FRAME_PONG :: u8 where "FRAME_PONG = 0x50"
definition FRAME_TRACE :: u8 where "FRAME_TRACE = 0x54"

section \<open>The client\<close>

record mup1_client =
  mc_decoder :: decoder
  mc_checksum_type :: checksum_type

definition mup1_client_new :: "checksum_type \<Rightarrow> mup1_client" where
  "mup1_client_new ct = \<lparr>mc_decoder = decoder_new ct, mc_checksum_type = ct\<rparr>"

text \<open>The bytes given to the transport.\<close>

definition mup1_send :: "mup1_client \<Rightarrow> u8 \<Rightarrow> bytes \<Rightarrow> bytes" where
  "mup1_send c t data = encode_frame (mc_checksum_type c) t data"

text \<open>\<open>while let Some(f) = self.decoder.get()\<close>\<close>

function drain :: "decoder \<Rightarrow> frame list \<times> decoder" where
  "drain d = (case get d of
     (Some f, d') \<Rightarrow> (let (fs, d'') = drain d' in (f # fs, d''))
   | (None, d') \<Rightarrow> ([], d'))"
  by pat_completeness auto
termination
  by (relation "measure (\<lambda>d. length (frames d) + (if 0 < raw_head d then 1 else 0))")
    (auto simp: get_def split: list.splits if_splits)

declare drain.simps [simp del]

text \<open>Nothing is a panic of the decoder, an error one of the transport.\<close>

definition poll :: "'e + bytes \<Rightarrow> u64 \<Rightarrow> mup1_client \<Rightarrow> ('e + frame list \<times> bool \<times> mup1_client) option" where
  "poll input now c = (case input of
     Inl e \<Rightarrow> Some (Inl e)
   | Inr bytes_read \<Rightarrow>
       (case inject_all bytes_read (mc_decoder c) of
          None \<Rightarrow> None
        | Some d \<Rightarrow>
            let (fs, d') = drain (snd (tick now d))
            in Some (Inr (fs, bytes_read \<noteq> [], c\<lparr>mc_decoder := d'\<rparr>))))"

section \<open>What a poll hands on\<close>

lemma drain_eq:
  "drain d = (frames d @ (if 0 < raw_head d
       then [\<lparr>type_byte = TYPE_RAW, frame_data = take (raw_head d) (raw d)\<rparr>] else []),
     if 0 < raw_head d then d\<lparr>frames := [], raw := drop (raw_head d) (raw d), raw_head := 0\<rparr>
     else d\<lparr>frames := []\<rparr>)"
proof (induction d rule: drain.induct)
  case (1 d)
  show ?case
  proof (cases "frames d")
    case (Cons f fs)
    then have g: "get d = (Some f, d\<lparr>frames := fs\<rparr>)" by (simp add: get_def)
    from "1.IH" [OF g [symmetric] refl] show ?thesis
      by (subst drain.simps) (simp add: g Cons)
  next
    case Nil
    show ?thesis
    proof (cases "0 < raw_head d")
      case True
      let ?d = "d\<lparr>raw := drop (raw_head d) (raw d), raw_head := 0\<rparr>"
      have g: "get d = (Some \<lparr>type_byte = TYPE_RAW, frame_data = take (raw_head d) (raw d)\<rparr>, ?d)"
        using Nil True by (simp add: get_def)
      from "1.IH" [OF g [symmetric] refl] Nil True show ?thesis
        by (subst drain.simps) (simp add: g)
    next
      case False
      with Nil have "get d = (None, d)" by (simp add: get_def)
      with Nil False show ?thesis by (subst drain.simps) simp
    qed
  qed
qed

text \<open>
  C21: A poll drains the decoder: the callback gets every completed frame, oldest first,
  and then the settled raw content as one frame of type RAW, in that order even when the
  raw bytes arrived before a frame; afterwards no frame and no settled byte is left.
\<close>

theorem poll_drains:
  assumes "poll (Inr bytes_read) now c = Some (Inr (fs, got, c'))"
  shows "\<exists>d. inject_all bytes_read (mc_decoder c) = Some d \<and>
    (let d' = snd (tick now d) in
     fs = frames d' @ (if 0 < raw_head d' then [\<lparr>type_byte = TYPE_RAW, frame_data = take (raw_head d') (raw d')\<rparr>] else [])
     \<and> raw (mc_decoder c') = drop (raw_head d') (raw d'))
    \<and> frames (mc_decoder c') = [] \<and> raw_head (mc_decoder c') = 0 \<and> (got \<longleftrightarrow> bytes_read \<noteq> [])"
  using assms by (auto simp: poll_def drain_eq Let_def split: option.splits if_splits)

theorem poll_drains_witness:
  "\<exists>c'. poll (Inr ([0x41] @ encode_frame Internet 0x70 []) :: string + bytes) 0 (mup1_client_new Internet)
     = Some (Inr ([\<lparr>type_byte = 0x70, frame_data = []\<rparr>, \<lparr>type_byte = TYPE_RAW, frame_data = [0x41]\<rparr>], True, c'))
   \<and> frames (mc_decoder c') = []"
proof -
  let ?w = "[0x41] @ encode_frame Internet 0x70 []"
  obtain d where d: "inject_all ?w (decoder_new Internet) = Some d" "raw d = [0x41]" "raw_head d = 1"
    "frames d = [\<lparr>type_byte = 0x70, frame_data = []\<rparr>]"
    using inject_line [of "decoder_new Internet" "[([0x41], 0x70, [])]"]
    by (auto simp: decoder_new_def encode_frame_eq pad_eof_def encoded_len_def)
  have t: "raw (snd (tick 0 d)) = [0x41]" "raw_head (snd (tick 0 d)) = 1"
    "frames (snd (tick 0 d)) = [\<lparr>type_byte = 0x70, frame_data = []\<rparr>]"
    using d by (auto simp: tick_def resolve_raw_def Let_def)
  obtain fs got c' where p: "poll (Inr ?w :: string + bytes) 0 (mup1_client_new Internet) = Some (Inr (fs, got, c'))"
    using d by (cases "drain (snd (tick 0 d))") (simp add: poll_def mup1_client_new_def)
  from poll_drains [OF p] d t have "fs = [\<lparr>type_byte = 0x70, frame_data = []\<rparr>, \<lparr>type_byte = TYPE_RAW, frame_data = [0x41]\<rparr>]"
    "got" "frames (mc_decoder c') = []"
    by (auto simp: mup1_client_new_def Let_def)
  with p show ?thesis by auto
qed

end
