(* ===== verification/Coap_Client.thy ===== *)
theory Coap_Client
  imports Coap_Wire Mup1_Client
begin

text \<open>
  The CoAP request driver (\<open>src/coap/src/client.rs\<close>, \<open>src/coap/src/lib.rs\<close>): the session
  of one request, the handling of responses with their block-wise continuations, and the
  loop with its retransmissions. The transport and the clock are inputs of each
  iteration. An index out of range, which panics in the code, is \<open>None\<close>.
\<close>

section \<open>State\<close>

datatype coap_error = Timeout | Io string | Protocol string

record response =
  r_code_class :: u8
  r_code_detail :: u8
  r_content_format :: "u16 option"
  r_payload :: bytes

definition is_success :: "response \<Rightarrow> bool" where
  "is_success r \<longleftrightarrow> r_code_class r = 2"

record session =
  block1_num :: u32
  block1_szx :: u8
  block2_num :: u32
  block2_szx :: u8
  msg_id :: u16
  req_payload_cleared :: bool
  resp_payload :: bytes
  resp_content_format :: "u16 option"
  resp_code :: u8
  req_payload_size :: nat
  s_done :: bool
  s_error :: "coap_error option"
  need_resend :: bool

record client =
  c_msg_id :: u16
  c_token :: u8
  c_block_size :: u32

definition DEFAULT_BLOCK_SIZE :: u32 where "DEFAULT_BLOCK_SIZE = 256"
definition RETRANSMIT_MS :: nat where "RETRANSMIT_MS = 3000"
definition MAX_RETRANSMIT :: nat where "MAX_RETRANSMIT = 5"

text \<open>The seed is taken from the clock and the process number.\<close>

definition client_new :: "nat \<Rightarrow> client" where
  "client_new seed = \<lparr>c_msg_id = word_of_nat seed, c_token = word_of_nat (seed div 2 ^ 16),
     c_block_size = DEFAULT_BLOCK_SIZE\<rparr>"

definition set_block_size :: "u32 \<Rightarrow> client \<Rightarrow> coap_error + client" where
  "set_block_size sz c =
     rbind (ok_or (Protocol ''block size must be a power of two, 16..=1024'') (szx_for_size sz)) (\<lambda>_.
     Inr (c\<lparr>c_block_size := sz\<rparr>))"

section \<open>Responses\<close>

definition szx_bytes :: "u8 \<Rightarrow> u32" where
  "szx_bytes s = push_bit (unat s + 4) 1"

text \<open>The part of \<open>process_response\<close> after Block2: a 2.31 Continue asks for the next block.\<close>

definition process_continue :: "parsed_message \<Rightarrow> session \<Rightarrow> session" where
  "process_continue p s =
     (case (if pm_code p = RESPONSE_CONTINUE then pm_block1 p else None) of
        Some b1 \<Rightarrow>
          let next_block_size = szx_bytes (block_szx b1);
              next_offset = (ucast (block1_num s) + 1) * ucast next_block_size :: u64
          in if req_payload_size s \<le> unat next_offset then
               s\<lparr>s_error := Some (Protocol ''server sent a spurious 2.31 Continue past the end of the request body''),
                 s_done := True\<rparr>
             else s\<lparr>block1_szx := block_szx b1, block1_num := block1_num s + 1, msg_id := msg_id s + 1,
                    need_resend := True\<rparr>
      | None \<Rightarrow> s\<lparr>s_done := True\<rparr>)"

definition process_response :: "parsed_message \<Rightarrow> session \<Rightarrow> session" where
  "process_response p s =
     (let s = s\<lparr>resp_code := pm_code p, resp_content_format := pm_content_format p\<rparr>;
          s = (if pm_payload p \<noteq> [] then s\<lparr>resp_payload := resp_payload s @ pm_payload p\<rparr> else s)
      in case pm_block2 p of
        Some b2 \<Rightarrow>
          if block_more b2 then
            s\<lparr>block2_num := block_num b2 + 1, block2_szx := block_szx b2, msg_id := msg_id s + 1,
              req_payload_cleared := True, need_resend := True\<rparr>
          else process_continue p s
      | None \<Rightarrow> process_continue p s)"

section \<open>Sending a block\<close>

text \<open>What \<open>request\<close> keeps for the whole exchange.\<close>

record request_ctx =
  x_method :: http_method
  x_uri :: string
  x_content_format :: "u16 option"
  x_accept :: "u16 option"
  x_payload :: bytes
  x_token :: u8

text \<open>The block of the body to send: the Block1 option and the bytes.\<close>

definition body_block :: "bytes \<Rightarrow> session \<Rightarrow> (block option \<times> bytes) option" where
  "body_block payload s =
     (let effective_payload = (if req_payload_cleared s then [] else payload);
          block1_block_size = szx_bytes (block1_szx s)
      in if effective_payload \<noteq> [] then
           let offset = unat (block1_num s * block1_block_size);
               remaining = length effective_payload - offset;
               tk = min remaining (unat block1_block_size)
           in if offset \<le> length effective_payload then
                Some (if unat block1_block_size < length effective_payload \<or> 0 < block1_num s
                        then Some \<lparr>block_num = block1_num s, block_more = unat block1_block_size < remaining,
                                   block_szx = block1_szx s\<rparr>
                        else None,
                      take tk (drop offset effective_payload))
              else None
         else Some (None, []))"

definition send_frame :: "request_ctx \<Rightarrow> session \<Rightarrow> bytes option" where
  "send_frame x s =
     map_option (\<lambda>(block1_opt, chunk). encode_request
       \<lparr>req_method = x_method x, req_msg_id = msg_id s, req_token = x_token x, req_uri = x_uri x,
        req_content_format = x_content_format x, req_accept = x_accept x, req_block1 = block1_opt,
        req_block2 = \<lparr>block_num = block2_num s, block_more = False, block_szx = block2_szx s\<rparr>,
        req_payload = chunk\<rparr>)
     (body_block (x_payload x) s)"

section \<open>The request loop\<close>

text \<open>The callback of \<open>poll\<close>; a frame of another type goes to \<open>on_other_frame\<close>.\<close>

definition is_coap_frame :: "frame \<Rightarrow> bool" where
  "is_coap_frame f \<longleftrightarrow> type_byte f = FRAME_COAP_LOWER \<or> type_byte f = FRAME_COAP_UPPER"

definition on_frame :: "frame \<Rightarrow> session \<Rightarrow> session" where
  "on_frame f s =
     (if is_coap_frame f then
        (case parse (frame_data f) of
           Inl _ \<Rightarrow> s
         | Inr p \<Rightarrow>
             if pm_msg_id p \<noteq> msg_id s then s
             else (case pm_type p of
                 Rst \<Rightarrow> s\<lparr>s_error := Some (Protocol ''device sent RST''), s_done := True\<rparr>
               | Ack \<Rightarrow> process_response p s
               | _ \<Rightarrow> s))
      else s)"

text \<open>
  One iteration's inputs: what \<open>poll\<close> handed over or its error, the clock where the
  deadline is tested and where it is set, and the error of a write, if it fails.
\<close>

record loop_input =
  in_poll :: "string + frame list"
  in_now :: nat
  in_now_set :: nat
  in_write_error :: "string option"

record loop_state =
  l_session :: session
  l_deadline :: nat
  l_count :: nat
  l_sent :: "bytes list"
  l_others :: "frame list"

datatype outcome =
  Running loop_state
| Finished "coap_error + response" "u16 option"

text \<open>
  The result of a request with the message number the client keeps (nothing where the
  code leaves it as it was).
\<close>

definition finish_request :: "session \<Rightarrow> outcome" where
  "finish_request s = (case s_error s of
     Some e \<Rightarrow> Finished (Inl e) (Some (msg_id s))
   | None \<Rightarrow> Finished (Inr \<lparr>r_code_class = code_class (resp_code s), r_code_detail = code_detail (resp_code s),
        r_content_format = resp_content_format s, r_payload = resp_payload s\<rparr>) (Some (msg_id s)))"

definition transmit :: "request_ctx \<Rightarrow> loop_input \<Rightarrow> loop_state \<Rightarrow> outcome option" where
  "transmit x inp l = (case send_frame x (l_session l) of
     None \<Rightarrow> None
   | Some wire \<Rightarrow>
       (case in_write_error inp of
          Some e \<Rightarrow> Some (Finished (Inl (Io e)) None)
        | None \<Rightarrow> Some (Running (l\<lparr>l_sent := l_sent l @ [wire]\<rparr>))))"

definition loop_body :: "request_ctx \<Rightarrow> loop_input \<Rightarrow> loop_state \<Rightarrow> outcome option" where
  "loop_body x inp l = (case in_poll inp of
     Inl e \<Rightarrow> Some (Finished (Inl (Io e)) None)
   | Inr fs \<Rightarrow>
       let s = fold on_frame fs (l_session l);
           l = l\<lparr>l_session := s, l_others := l_others l @ filter (\<lambda>f. \<not> is_coap_frame f) fs\<rparr>
       in if s_error s \<noteq> None then Some (finish_request s)
          else if need_resend s then
            transmit x inp (l\<lparr>l_session := s\<lparr>need_resend := False\<rparr>, l_count := 0,
              l_deadline := in_now_set inp + RETRANSMIT_MS\<rparr>)
          else if s_done s then Some (finish_request s)
          else if l_deadline l \<le> in_now inp then
            (if MAX_RETRANSMIT \<le> l_count l then Some (Finished (Inl Timeout) (Some (msg_id s)))
             else transmit x inp (l\<lparr>l_count := l_count l + 1, l_deadline := in_now_set inp + RETRANSMIT_MS\<rparr>))
          else Some (Running l))"

text \<open>The loop: it tests \<open>session.done\<close> before each iteration.\<close>

definition loop_step :: "request_ctx \<Rightarrow> loop_input \<Rightarrow> outcome \<Rightarrow> outcome option" where
  "loop_step x inp out = (case out of
     Finished r m \<Rightarrow> Some out
   | Running l \<Rightarrow> if s_done (l_session l) then Some (finish_request (l_session l)) else loop_body x inp l)"

definition session_new :: "u16 \<Rightarrow> u8 \<Rightarrow> bytes \<Rightarrow> session" where
  "session_new mid s payload = \<lparr>block1_num = 0, block1_szx = s, block2_num = 0, block2_szx = s,
     msg_id = mid, req_payload_cleared = False, resp_payload = [], resp_content_format = None,
     resp_code = 0, req_payload_size = length payload, s_done = False, s_error = None, need_resend = False\<rparr>"

definition request_start ::
  "http_method \<Rightarrow> string \<Rightarrow> u16 option \<Rightarrow> u16 option \<Rightarrow> bytes \<Rightarrow> loop_input \<Rightarrow> client
    \<Rightarrow> (client \<times> request_ctx \<times> outcome) option" where
  "request_start m uri cf acc payload inp c =
     (let c = c\<lparr>c_token := c_token c + 1, c_msg_id := c_msg_id c + 1\<rparr>;
          x = \<lparr>x_method = m, x_uri = uri, x_content_format = cf, x_accept = acc, x_payload = payload,
               x_token = c_token c\<rparr>
      in case szx_for_size (c_block_size c) of
           None \<Rightarrow> None
         | Some s \<Rightarrow> map_option (\<lambda>out. (c, x, out))
             (transmit x inp \<lparr>l_session = session_new (c_msg_id c) s payload,
                l_deadline = in_now_set inp + RETRANSMIT_MS, l_count = 0, l_sent = [], l_others = []\<rparr>))"

section \<open>The CORECONF operations\<close>

text \<open>The method, the content format and the body of each operation of the crate.\<close>

definition coap_get :: "string \<Rightarrow> loop_input \<Rightarrow> client \<Rightarrow> (client \<times> request_ctx \<times> outcome) option" where
  "coap_get uri = request_start Get uri None None []"

definition coap_put :: "string \<Rightarrow> bytes \<Rightarrow> loop_input \<Rightarrow> client \<Rightarrow> (client \<times> request_ctx \<times> outcome) option" where
  "coap_put uri payload = request_start Put uri (Some YANG_DATA_CBOR) None payload"

definition coap_post :: "string \<Rightarrow> bytes \<Rightarrow> loop_input \<Rightarrow> client \<Rightarrow> (client \<times> request_ctx \<times> outcome) option" where
  "coap_post uri payload = request_start Post uri (Some YANG_INSTANCES_CBOR) None payload"

definition coap_delete :: "string \<Rightarrow> loop_input \<Rightarrow> client \<Rightarrow> (client \<times> request_ctx \<times> outcome) option" where
  "coap_delete uri = request_start Delete uri None None []"

definition coap_fetch :: "string \<Rightarrow> bytes \<Rightarrow> loop_input \<Rightarrow> client \<Rightarrow> (client \<times> request_ctx \<times> outcome) option" where
  "coap_fetch uri payload = request_start Fetch uri (Some YANG_IDENTIFIERS_CBOR) None payload"

definition coap_ipatch :: "string \<Rightarrow> bytes \<Rightarrow> loop_input \<Rightarrow> client \<Rightarrow> (client \<times> request_ctx \<times> outcome) option" where
  "coap_ipatch uri payload = request_start Ipatch uri (Some YANG_INSTANCES_CBOR) None payload"

end
