(* ===== verification/Coap_Correct.thy ===== *)
theory Coap_Correct
  imports Coap_Client
begin

text \<open>
  The contract of a request: the session's offsets stay inside the body, the loop never
  panics, bodies and responses are transferred whole and in order; and where the code departs from that, with the runs that show it.
\<close>

section \<open>Sizes and offsets\<close>

lemma unat_szx_bytes: "s < 8 \<Longrightarrow> unat (szx_bytes s) = 2 ^ (unat s + 4)"
proof -
  assume "s < 8"
  then have "unat s + 4 < 32" by (simp add: word_less_nat_alt)
  then have "(2 :: nat) ^ (unat s + 4) < 2 ^ 32" by (intro power_strict_increasing) simp_all
  moreover have "(2 :: u32) ^ (unat s + 4) = word_of_nat (2 ^ (unat s + 4))" by simp
  ultimately have "unat ((2 :: u32) ^ (unat s + 4)) = 2 ^ (unat s + 4)" by (simp only: unat_of_nat) simp
  then show ?thesis by (simp add: szx_bytes_def push_bit_eq_mult)
qed

lemma unat_next_offset: "unat ((ucast (n :: u32) + 1) * ucast (b :: u32) :: u64) = (unat n + 1) * unat b"
proof -
  have n: "unat n < 2 ^ 32" and b: "unat b < 2 ^ 32"
    using unsigned_less [of n, where 'a = nat] unsigned_less [of b, where 'a = nat] by simp_all
  have "(unat n + 1) * unat b \<le> 2 ^ 32 * (2 ^ 32 - 1)"
    using n b by (intro mult_le_mono) auto
  then have lt: "(unat n + 1) * unat b < 2 ^ 64" by simp
  have un: "unat (ucast n :: u64) = unat n" "unat (ucast b :: u64) = unat b"
    using n b by (simp_all add: unsigned_ucast_eq unsigned_take_bit_eq take_bit_nat_eq_self)
  have "unat (ucast n + 1 :: u64) = unat n + 1" using n un by (simp add: unat_word_ariths)
  with un lt show ?thesis by (simp add: unat_word_ariths)
qed

lemma unat_offset_le: "unat ((n :: u32) * b) \<le> unat n * unat b"
  by (simp add: unat_word_ariths)

lemma unat_Suc_le: "unat ((n :: u32) + 1) \<le> unat n + 1"
  by (simp add: unat_word_ariths)

section \<open>The session's invariant\<close>

text \<open>The next block of the body begins inside it.\<close>

definition session_inv :: "nat \<Rightarrow> session \<Rightarrow> bool" where
  "session_inv n s \<longleftrightarrow> req_payload_size s = n \<and> unat (block1_num s * szx_bytes (block1_szx s)) \<le> n"

lemma session_inv_new: "session_inv (length payload) (session_new mid s payload)"
  by (simp add: session_inv_def session_new_def)

lemma session_inv_continue: "session_inv n s \<Longrightarrow> session_inv n (process_continue p s)"
proof -
  assume inv: "session_inv n s"
  have le: "unat ((block1_num s + 1) * b) \<le> (unat (block1_num s) + 1) * unat b" for b
    by (rule order_trans [OF unat_offset_le]) (intro mult_le_mono1 unat_Suc_le)
  then have "(unat (block1_num s) + 1) * unat b < n \<Longrightarrow> unat ((block1_num s + 1) * b) \<le> n" for b
    by (meson le_less_trans less_imp_le)
  with inv show ?thesis
    by (auto simp: process_continue_def session_inv_def unat_next_offset Let_def not_le
        split: option.splits if_splits)
qed

lemma session_inv_response: "session_inv n s \<Longrightarrow> session_inv n (process_response p s)"
  by (auto simp: process_response_def Let_def split: option.splits intro!: session_inv_continue)
    (auto simp: session_inv_def)

lemma session_inv_on_frame: "session_inv n s \<Longrightarrow> session_inv n (on_frame f s)"
  by (auto simp: on_frame_def session_inv_response split: sum.splits msg_type.splits)
    (auto simp: session_inv_def)

lemma session_inv_frames: "session_inv n s \<Longrightarrow> session_inv n (fold on_frame fs s)"
  by (induction fs arbitrary: s) (simp_all add: session_inv_on_frame)

lemma body_block_inv: "session_inv (length payload) s \<Longrightarrow> body_block payload s \<noteq> None"
  by (simp add: session_inv_def body_block_def Let_def)

section \<open>The loop's invariant\<close>

definition loop_inv :: "request_ctx \<Rightarrow> outcome \<Rightarrow> bool" where
  "loop_inv x out = (case out of
     Finished r m \<Rightarrow> True
   | Running l \<Rightarrow> session_inv (length (x_payload x)) (l_session l) \<and> l_count l \<le> MAX_RETRANSMIT)"

lemma loop_inv_finish_request [simp]: "loop_inv x (finish_request s)"
  by (simp add: finish_request_def loop_inv_def split: option.splits)

lemma transmit_inv:
  assumes "session_inv (length (x_payload x)) (l_session l)" "l_count l \<le> MAX_RETRANSMIT"
  shows "\<exists>out. transmit x inp l = Some out \<and> loop_inv x out"
  using body_block_inv [OF assms(1)] assms
  by (auto simp: transmit_def send_frame_def loop_inv_def split: option.splits)

lemma session_inv_resend [simp]: "session_inv n (s\<lparr>need_resend := b\<rparr>) = session_inv n s"
  by (simp add: session_inv_def)

lemma loop_body_inv:
  assumes "loop_inv x (Running l)"
  shows "\<exists>out. loop_body x inp l = Some out \<and> loop_inv x out"
proof (cases "in_poll inp")
  case (Inl e)
  then show ?thesis by (simp add: loop_body_def loop_inv_def)
next
  case (Inr fs)
  define s where "s = fold on_frame fs (l_session l)"
  define l' where "l' = l\<lparr>l_session := s, l_others := l_others l @ filter (\<lambda>f. \<not> is_coap_frame f) fs\<rparr>"
  have s: "session_inv (length (x_payload x)) s"
    using assms by (simp add: loop_inv_def s_def session_inv_frames)
  have fin: "loop_inv x (finish_request s)" by (simp add: finish_request_def loop_inv_def split: option.splits)
  have eq: "loop_body x inp l = (if s_error s \<noteq> None then Some (finish_request s)
          else if need_resend s then
            transmit x inp (l'\<lparr>l_session := s\<lparr>need_resend := False\<rparr>, l_count := 0,
              l_deadline := in_now_set inp + RETRANSMIT_MS\<rparr>)
          else if s_done s then Some (finish_request s)
          else if l_deadline l' \<le> in_now inp then
            (if MAX_RETRANSMIT \<le> l_count l' then Some (Finished (Inl Timeout) (Some (msg_id s)))
             else transmit x inp (l'\<lparr>l_count := l_count l' + 1, l_deadline := in_now_set inp + RETRANSMIT_MS\<rparr>))
          else Some (Running l'))"
    by (simp add: loop_body_def Inr Let_def s_def l'_def)
  have t1: "\<exists>out. transmit x inp (l'\<lparr>l_session := s\<lparr>need_resend := False\<rparr>, l_count := 0,
      l_deadline := in_now_set inp + RETRANSMIT_MS\<rparr>) = Some out \<and> loop_inv x out"
    using s by (intro transmit_inv) simp_all
  have t2: "\<exists>out. transmit x inp (l'\<lparr>l_count := l_count l' + 1,
      l_deadline := in_now_set inp + RETRANSMIT_MS\<rparr>) = Some out \<and> loop_inv x out"
    if "\<not> MAX_RETRANSMIT \<le> l_count l'"
    using s that by (intro transmit_inv) (simp_all add: l'_def)
  have "loop_inv x (Running l')" using s assms by (simp add: loop_inv_def l'_def)
  with t1 t2 fin show ?thesis unfolding eq by (auto simp: loop_inv_def)
qed

definition loop_start :: "request_ctx \<Rightarrow> u16 \<Rightarrow> u8 \<Rightarrow> nat \<Rightarrow> loop_state" where
  "loop_start x mid s deadline = \<lparr>l_session = session_new mid s (x_payload x), l_deadline = deadline,
     l_count = 0, l_sent = [], l_others = []\<rparr>"

interpretation coap: safe_machine "loop_step x" "\<lambda>_ _. True" "loop_inv x" "Running (loop_start x mid s deadline)"
  for x mid s deadline
proof unfold_locales
  show "loop_inv x (Running (loop_start x mid s deadline))"
    by (simp add: loop_inv_def loop_start_def session_inv_new)
next
  fix out inp assume "loop_inv x out"
  then show "\<exists>out'. loop_step x inp out = Some out' \<and> loop_inv x out'"
    using loop_body_inv [of x _ inp] loop_inv_finish_request
    by (cases out) (simp_all add: loop_step_def)
qed

lemma allowed_True: "allowed step (\<lambda>_ _. True) es s"
  by (induction es arbitrary: s) (auto split: option.splits)

section \<open>Uploading a body\<close>

text \<open>The acknowledgement of a block: 2.31 Continue with the client's block size.\<close>

definition continue_ack :: "u8 \<Rightarrow> parsed_message \<Rightarrow> bool" where
  "continue_ack s p \<longleftrightarrow> pm_code p = RESPONSE_CONTINUE \<and> (\<exists>b. pm_block1 p = Some b \<and> block_szx b = s)
     \<and> (case pm_block2 p of None \<Rightarrow> True | Some b2 \<Rightarrow> \<not> block_more b2)"

lemma process_response_continue:
  assumes "continue_ack s p"
  shows "process_response p ss = process_continue p
    (ss\<lparr>resp_code := pm_code p, resp_content_format := pm_content_format p,
        resp_payload := resp_payload ss @ pm_payload p\<rparr>)"
  using assms by (auto simp: continue_ack_def process_response_def Let_def split: option.splits)

text \<open>The session when \<open>k\<close> blocks are acknowledged.\<close>

definition uploaded :: "nat \<Rightarrow> u8 \<Rightarrow> nat \<Rightarrow> session \<Rightarrow> bool" where
  "uploaded len s k ss \<longleftrightarrow> block1_num ss = word_of_nat k \<and> block1_szx ss = s \<and> req_payload_size ss = len
     \<and> \<not> req_payload_cleared ss \<and> s_error ss = None \<and> \<not> s_done ss"

lemma uploaded_step:
  assumes "uploaded len s k ss" "continue_ack s p" "s < 8" "k < 2 ^ 32"
  shows "if (k + 1) * 2 ^ (unat s + 4) < len then uploaded len s (k + 1) (process_response p ss)
    else s_error (process_response p ss)
      = Some (Protocol ''server sent a spurious 2.31 Continue past the end of the request body'')
      \<and> s_done (process_response p ss)"
proof -
  obtain b where b: "pm_code p = RESPONSE_CONTINUE" "pm_block1 p = Some b" "block_szx b = s"
    using assms(2) by (auto simp: continue_ack_def)
  have off: "unat ((ucast (block1_num ss) + 1) * ucast (szx_bytes s) :: u64) = (k + 1) * 2 ^ (unat s + 4)"
    using assms(1,4) unat_szx_bytes [OF assms(3)]
    by (simp only: unat_next_offset) (simp add: uploaded_def unat_of_nat)
  show ?thesis
    using assms(1) off by (auto simp: process_response_continue [OF assms(2)] process_continue_def b
        uploaded_def not_less)
qed

lemma uploaded_new: "uploaded (length payload) s 0 (session_new mid s payload)"
  by (simp add: uploaded_def session_new_def)

lemma uploaded_block:
  assumes "uploaded (length payload) s k ss" "s < 8" "k * 2 ^ (unat s + 4) < length payload" "length payload < 2 ^ 32"
  defines "sz \<equiv> 2 ^ (unat s + 4)"
  shows "body_block payload ss =
    Some (if sz < length payload \<or> 0 < k
      then Some \<lparr>block_num = word_of_nat k, block_more = ((k + 1) * sz < length payload), block_szx = s\<rparr> else None,
      take sz (drop (k * sz) payload))"
proof -
  have "1 \<le> sz" by (simp add: sz_def)
  then have "k * 1 \<le> k * sz" by (intro mult_le_mono2)
  moreover have "k * sz < length payload" using assms(3) by (simp only: sz_def)
  ultimately have k: "k < 2 ^ 32" using assms(4) by linarith
  then have uk: "unat (word_of_nat k :: u32) = k" by (simp add: unat_of_nat)
  have "k * sz < 2 ^ 32" using assms(3,4) by (simp add: sz_def)
  then have off: "unat ((word_of_nat k :: u32) * szx_bytes s) = k * sz"
    using uk unat_szx_bytes [OF assms(2)] by (simp add: unat_word_ariths sz_def)
  have pos: "(0 :: u32) < word_of_nat k \<longleftrightarrow> 0 < k" using uk by (simp add: word_less_nat_alt)
  have "payload \<noteq> []" using assms(3) by auto
  moreover have "block1_num ss = word_of_nat k" "block1_szx ss = s" "\<not> req_payload_cleared ss"
    using assms(1) by (simp_all add: uploaded_def)
  moreover have "sz < length payload - k * sz \<longleftrightarrow> (k + 1) * sz < length payload" by auto
  ultimately show ?thesis
    using off pos assms(3) unat_szx_bytes [OF assms(2)]
    by (simp add: body_block_def Let_def sz_def [symmetric] min_def)
qed

text \<open>The acknowledged blocks of a body of length \<open>len\<close>.\<close>

lemma uploaded_run:
  assumes "\<forall>p \<in> set acks. continue_ack s p" "s < 8" "len < 2 ^ 32"
    and "length acks * 2 ^ (unat s + 4) < len"
    and "uploaded len s 0 ss"
  shows "uploaded len s (length acks) (fold process_response acks ss)"
  using assms(1,4)
proof (induction acks rule: rev_induct)
  case Nil
  then show ?case using assms(5) by simp
next
  case (snoc p acks)
  let ?sz = "2 ^ (unat s + 4) :: nat"
  have "length acks * ?sz \<le> length (acks @ [p]) * ?sz" by (intro mult_le_mono1) simp
  then have "uploaded len s (length acks) (fold process_response acks ss)" using snoc by simp
  moreover have "length acks \<le> length acks * ?sz" by simp
  then have "length acks < 2 ^ 32" using snoc.prems(2) \<open>length acks * ?sz \<le> _\<close> assms(3) by linarith
  ultimately show ?case using uploaded_step [of len s "length acks" "fold process_response acks ss" p] snoc.prems assms(2)
    by (simp add: add.commute)
qed

lemma chunks_concat:
  assumes "0 < sz"
  shows "concat (map (\<lambda>k. take sz (drop (k * sz) xs)) [0..<n]) = take (n * sz) xs"
proof (induction n)
  case (Suc n)
  have "Suc n * sz = n * sz + sz" by simp
  then have "take (Suc n * sz) xs = take (n * sz) xs @ take sz (drop (n * sz) xs)"
    by (simp only: take_add)
  with Suc show ?case by simp
qed simp

section \<open>Downloading a response\<close>

lemma process_response_more:
  "pm_block2 p = Some b \<Longrightarrow> block_more b \<Longrightarrow> process_response p s = s\<lparr>resp_code := pm_code p,
     resp_content_format := pm_content_format p, resp_payload := resp_payload s @ pm_payload p,
     block2_num := block_num b + 1, block2_szx := block_szx b, msg_id := msg_id s + 1,
     req_payload_cleared := True, need_resend := True\<rparr>"
  by (simp add: process_response_def Let_def)

lemma process_response_last:
  "(case pm_block2 p of None \<Rightarrow> True | Some b \<Rightarrow> \<not> block_more b) \<Longrightarrow> pm_code p \<noteq> RESPONSE_CONTINUE \<Longrightarrow>
   process_response p s = s\<lparr>resp_code := pm_code p, resp_content_format := pm_content_format p,
     resp_payload := resp_payload s @ pm_payload p, s_done := True\<rparr>"
  by (auto simp: process_response_def process_continue_def Let_def split: option.splits)

lemma download_run:
  assumes "\<forall>p \<in> set ps. \<exists>b. pm_block2 p = Some b \<and> block_more b"
  shows "resp_payload (fold process_response ps s) = resp_payload s @ concat (map pm_payload ps)
    \<and> s_done (fold process_response ps s) = s_done s \<and> s_error (fold process_response ps s) = s_error s
    \<and> msg_id (fold process_response ps s) = msg_id s + word_of_nat (length ps)
    \<and> (ps \<noteq> [] \<longrightarrow> req_payload_cleared (fold process_response ps s)
        \<and> block2_num (fold process_response ps s) = block_num (the (pm_block2 (last ps))) + 1
        \<and> block2_szx (fold process_response ps s) = block_szx (the (pm_block2 (last ps))))"
  using assms
proof (induction ps rule: rev_induct)
  case (snoc p ps)
  then obtain b where "pm_block2 p = Some b" "block_more b" by auto
  with snoc show ?case by (simp add: process_response_more add.assoc add.commute add.left_commute)
qed simp

section \<open>The contract of a request\<close>

text \<open>
  C10: A body is uploaded whole and in order: against a server that acknowledges each
  block with 2.31 Continue at the client's block size, the block sent after \<open>k\<close>
  acknowledgements is the \<open>k\<close>-th slice of the body, announced as block \<open>k\<close> with the
  flag that more follow exactly while it is not the last, the blocks together are the
  body, and a Continue after the last one is reported as an error.
\<close>

theorem coap_upload_complete:
  fixes payload :: bytes
  defines "sz \<equiv> \<lambda>s :: u8. 2 ^ (unat s + 4) :: nat"
  assumes "s < 8" "0 < n" "n * sz s < length payload + sz s" "length payload \<le> n * sz s" "length payload < 2 ^ 32"
    and "length acks = n" "\<forall>p \<in> set acks. continue_ack s p"
  shows "(\<forall>k<n. body_block payload (fold process_response (take k acks) (session_new mid s payload)) =
      Some (if sz s < length payload \<or> 0 < k
        then Some \<lparr>block_num = word_of_nat k, block_more = ((k + 1) * sz s < length payload), block_szx = s\<rparr> else None,
        take (sz s) (drop (k * sz s) payload)))
    \<and> concat (map (\<lambda>k. take (sz s) (drop (k * sz s) payload)) [0..<n]) = payload
    \<and> s_error (fold process_response acks (session_new mid s payload))
      = Some (Protocol ''server sent a spurious 2.31 Continue past the end of the request body'')"
proof (intro conjI allI impI)
  have sz: "0 < sz s" by (simp add: sz_def)
  have up: "uploaded (length payload) s k (fold process_response (take k acks) (session_new mid s payload))
      \<and> k * sz s < length payload" if "k < n" for k
  proof -
    have "(k + 1) * sz s \<le> n * sz s" using that by (intro mult_le_mono1) simp
    then have "k * sz s < length payload" using assms(4) by simp
    moreover have "set (take k acks) \<subseteq> set acks" by (rule set_take_subset)
    ultimately show ?thesis
      using uploaded_run [of "take k acks" s "length payload" "session_new mid s payload"]
        assms uploaded_new [of payload s mid] that by (auto simp: sz_def)
  qed
  fix k assume "k < n"
  from up [OF this] assms show "body_block payload (fold process_response (take k acks) (session_new mid s payload)) =
      Some (if sz s < length payload \<or> 0 < k
        then Some \<lparr>block_num = word_of_nat k, block_more = ((k + 1) * sz s < length payload), block_szx = s\<rparr> else None,
        take (sz s) (drop (k * sz s) payload))"
    unfolding sz_def by (intro uploaded_block) auto
next
  show "concat (map (\<lambda>k. take (sz s) (drop (k * sz s) payload)) [0..<n]) = payload"
    using assms by (simp add: chunks_concat)
next
  define m where "m = n - 1"
  have n: "n = Suc m" using assms(3) by (simp add: m_def)
  obtain acks' p where acks: "acks = acks' @ [p]" "length acks' = m"
    using assms(7) n by (metis length_Suc_conv_rev)
  have "m * sz s < length payload" using assms(4) n by simp
  then have up: "uploaded (length payload) s m (fold process_response acks' (session_new mid s payload))"
    using uploaded_run [of acks' s "length payload" "session_new mid s payload"] assms acks
      uploaded_new [of payload s mid] by (auto simp: sz_def)
  have "m * 1 \<le> m * sz s" by (intro mult_le_mono2) (simp add: sz_def)
  with \<open>m * sz s < length payload\<close> have "m < 2 ^ 32" using assms(6) by linarith
  with uploaded_step [OF up, of p] assms acks n show "s_error (fold process_response acks (session_new mid s payload))
      = Some (Protocol ''server sent a spurious 2.31 Continue past the end of the request body'')"
    by (auto simp: sz_def)
qed

theorem coap_upload_complete_witness:
  "concat (map (\<lambda>k. take 16 (drop (k * 16) (replicate 20 (7 :: u8)))) [0..<2]) = replicate 20 7"
  using coap_upload_complete [of 0 2 "replicate 20 7"
      "replicate 2 \<lparr>pm_type = Ack, pm_code = RESPONSE_CONTINUE, pm_msg_id = 0, pm_content_format = None,
         pm_block1 = Some \<lparr>block_num = 0, block_more = True, block_szx = 0\<rparr>, pm_block2 = None, pm_payload = []\<rparr>" 0]
  by (simp add: continue_ack_def)

text \<open>
  C23: A response in blocks is put together: after any number of responses that announce
  more and a last one that does not, the payload is the concatenation of all of them in
  order, the request is done without an error, each block was asked for with a new
  message number, and the block asked for next was the one after the last received.
\<close>

theorem coap_download_complete:
  assumes "\<forall>p \<in> set ps. \<exists>b. pm_block2 p = Some b \<and> block_more b"
    and "case pm_block2 q of None \<Rightarrow> True | Some b \<Rightarrow> \<not> block_more b" "pm_code q \<noteq> RESPONSE_CONTINUE"
  shows "let mid = fold process_response ps (session_new i s payload);
             fin = process_response q mid
         in resp_payload fin = concat (map pm_payload ps) @ pm_payload q
          \<and> s_done fin \<and> s_error fin = None \<and> resp_code fin = pm_code q
          \<and> msg_id fin = i + word_of_nat (length ps)
          \<and> (ps = [] \<or> block2_num mid = block_num (the (pm_block2 (last ps))) + 1 \<and> req_payload_cleared mid)"
  using download_run [OF assms(1), of "session_new i s payload"] process_response_last [OF assms(2,3)]
  by (auto simp: Let_def session_new_def)

theorem coap_download_complete_witness:
  "resp_payload (process_response \<lparr>pm_type = Ack, pm_code = 0x45, pm_msg_id = 2, pm_content_format = None,
       pm_block1 = None, pm_block2 = None, pm_payload = [3]\<rparr>
     (process_response \<lparr>pm_type = Ack, pm_code = 0x45, pm_msg_id = 1, pm_content_format = None,
       pm_block1 = None, pm_block2 = Some \<lparr>block_num = 0, block_more = True, block_szx = 4\<rparr>, pm_payload = [1, 2]\<rparr>
     (session_new 1 4 []))) = [1, 2, 3]"
  using coap_download_complete [of "[\<lparr>pm_type = Ack, pm_code = 0x45, pm_msg_id = 1, pm_content_format = None,
       pm_block1 = None, pm_block2 = Some \<lparr>block_num = 0, block_more = True, block_szx = 4\<rparr>, pm_payload = [1, 2]\<rparr>]"
     "\<lparr>pm_type = Ack, pm_code = 0x45, pm_msg_id = 2, pm_content_format = None,
       pm_block1 = None, pm_block2 = None, pm_payload = [3]\<rparr>" 1 4 "[]"]
  by (simp add: RESPONSE_CONTINUE_def Let_def)

text \<open>
  C26: A retransmitted or late reply does no harm between blocks: a message with another
  identifier than the current one, of another type than Ack or Rst, or that does not
  parse leaves the session as it is.
\<close>

theorem coap_stale_reply_ignored:
  assumes "case parse (frame_data f) of
      Inl _ \<Rightarrow> True
    | Inr p \<Rightarrow> pm_msg_id p \<noteq> msg_id s \<or> pm_type p \<in> {Con, Non}"
  shows "on_frame f s = s"
  using assms by (auto simp: on_frame_def split: sum.splits msg_type.splits)

theorem coap_stale_reply_ignored_witness:
  "on_frame \<lparr>type_byte = FRAME_COAP_LOWER, frame_data = [0x60, 0x45, 0, 1]\<rparr> (session_new 2 4 [])
     = session_new 2 4 []"
  by (rule coap_stale_reply_ignored)
    (simp add: parse_def parse_options.simps [of _ 4] session_new_def Let_def be_dec_def)

text \<open>
  C29: The last reply is not protected that way: the message number stays current when a
  request is done, and the callback does not look at \<open>done\<close>, so a duplicate of the last
  reply that arrives in the same poll has its payload appended a second time.
\<close>

theorem coap_duplicate_reply_appended:
  assumes "is_coap_frame f" "parse (frame_data f) = Inr p" "pm_type p = Ack" "pm_msg_id p = msg_id s"
    and "pm_block2 p = None" "pm_code p \<noteq> RESPONSE_CONTINUE"
  shows "resp_payload (fold on_frame [f, f] s) = resp_payload s @ pm_payload p @ pm_payload p
    \<and> s_done (fold on_frame [f, f] s)"
  using assms process_response_last [of p] by (simp add: on_frame_def)

theorem coap_duplicate_reply_appended_witness:
  "let f = \<lparr>type_byte = FRAME_COAP_LOWER, frame_data = [0x60, 0x45, 0, 1, 0xFF, 7]\<rparr>
   in resp_payload (fold on_frame [f, f] (session_new 1 4 [])) = [7, 7]"
proof -
  let ?f = "\<lparr>type_byte = FRAME_COAP_LOWER, frame_data = [0x60, 0x45, 0, 1, 0xFF, 7]\<rparr>"
  have "parse (frame_data ?f) = Inr \<lparr>pm_type = Ack, pm_code = 0x45, pm_msg_id = 1, pm_content_format = None,
      pm_block1 = None, pm_block2 = None, pm_payload = [7]\<rparr>"
    by (simp add: parse_def parse_options.simps [of _ 4] Let_def be_dec_def msg_type_from_bits_def)
  from coap_duplicate_reply_appended [OF _ this, of "session_new 1 4 []"] show ?thesis
    by (simp add: is_coap_frame_def session_new_def RESPONSE_CONTINUE_def Let_def)
qed

text \<open>
  C28: A server that asks for a smaller block size gets overlapping blocks: after the first
  256 bytes are sent and acknowledged with 64-byte blocks, the client goes on with block
  number 1 of the new size, which are bytes 64 to 127 again, and not with the number
  scaled to the new size (block 4, RFC 7959 section 2.3), the bytes from 256 on.
\<close>

theorem coap_block1_not_rescaled:
  assumes "256 < length payload" "length payload < 2 ^ 32" "continue_ack 2 p"
  shows "body_block payload (session_new i 4 payload) = Some (Some \<lparr>block_num = 0, block_more = True, block_szx = 4\<rparr>, take 256 payload)
    \<and> body_block payload (process_response p (session_new i 4 payload))
      = Some (Some \<lparr>block_num = 1, block_more = True, block_szx = 2\<rparr>, take 64 (drop 64 payload))"
proof -
  obtain b where b: "pm_code p = RESPONSE_CONTINUE" "pm_block1 p = Some b" "block_szx b = 2"
    using assms(3) by (auto simp: continue_ack_def)
  have sz: "unat (szx_bytes 2) = 64" "unat (szx_bytes 4) = 256" "szx_bytes 2 = 64"
    by (simp_all add: szx_bytes_def)
  have "unat ((ucast (0 :: u32) + 1) * ucast (szx_bytes 2) :: u64) = 64"
    by (simp only: unat_next_offset sz) simp
  with assms b sz show ?thesis
    by (auto simp: process_response_continue [OF assms(3)] process_continue_def session_new_def body_block_def
        Let_def min_def)
qed

theorem coap_block1_not_rescaled_witness:
  "body_block (replicate 512 0) (process_response \<lparr>pm_type = Ack, pm_code = RESPONSE_CONTINUE, pm_msg_id = 1,
      pm_content_format = None, pm_block1 = Some \<lparr>block_num = 0, block_more = True, block_szx = 2\<rparr>,
      pm_block2 = None, pm_payload = []\<rparr> (session_new 1 4 (replicate 512 0)))
   = Some (Some \<lparr>block_num = 1, block_more = True, block_szx = 2\<rparr>, take 64 (drop 64 (replicate 512 0)))"
  using coap_block1_not_rescaled [of "replicate 512 0" "\<lparr>pm_type = Ack, pm_code = RESPONSE_CONTINUE, pm_msg_id = 1,
      pm_content_format = None, pm_block1 = Some \<lparr>block_num = 0, block_more = True, block_szx = 2\<rparr>,
      pm_block2 = None, pm_payload = []\<rparr>" 1]
  by (simp only: length_replicate) (simp add: continue_ack_def)

end
