(* ===== verification/Yang_Parser.thy ===== *)
theory Yang_Parser
  imports Prelude
begin

text \<open>
  The YANG tokenizer and statement parser (\<open>src/yang/src/parser.rs\<close>). A Rust \<open>char\<close> is the
  string of its UTF-8 bytes, so pushing it onto a \<open>String\<close> is appending it. The lexer is
  passed along as a state; on an error it is not used any more and only the position is
  reported.
\<close>

section \<open>Characters\<close>

type_synonym uchar = string

definition utf8_len :: "char \<Rightarrow> nat" where
  "utf8_len c = (let n = (of_char c :: nat) in if n < 0x80 then 1 else if n < 0xE0 then 2 else if n < 0xF0 then 3 else 4)"

lemma utf8_len_pos: "0 < utf8_len c"
  by (simp add: utf8_len_def Let_def)

function str_chars :: "string \<Rightarrow> uchar list" where
  "str_chars [] = []"
| "str_chars (c # s) = (c # take (utf8_len c - 1) s) # str_chars (drop (utf8_len c - 1) s)"
  by pat_completeness auto
termination
  by (relation "measure length") auto

text \<open>The characters with the Unicode property White_Space.\<close>

definition is_whitespace :: "uchar \<Rightarrow> bool" where
  "is_whitespace c \<longleftrightarrow> c \<in> set
     [[CHR 0x09], [CHR 0x0A], [CHR 0x0B], [CHR 0x0C], [CHR 0x0D], [CHR 0x20],
      [CHR 0xC2, CHR 0x85], [CHR 0xC2, CHR 0xA0], [CHR 0xE1, CHR 0x9A, CHR 0x80],
      [CHR 0xE2, CHR 0x80, CHR 0xA8], [CHR 0xE2, CHR 0x80, CHR 0xA9], [CHR 0xE2, CHR 0x80, CHR 0xAF],
      [CHR 0xE2, CHR 0x81, CHR 0x9F], [CHR 0xE3, CHR 0x80, CHR 0x80]]
   \<or> c \<in> set (map (\<lambda>n. [CHR 0xE2, CHR 0x80, char_of n]) [0x80..<0x8B :: nat])"

abbreviation nl :: uchar where "nl \<equiv> [CHR 0x0A]"
abbreviation tab :: uchar where "tab \<equiv> [CHR 0x09]"
abbreviation dquote :: uchar where "dquote \<equiv> [CHR 0x22]"
abbreviation squote :: uchar where "squote \<equiv> [CHR 0x27]"
abbreviation backslash :: uchar where "backslash \<equiv> [CHR 0x5C]"

section \<open>Statements and errors\<close>

datatype stmt = Stmt (stmt_prefix: "string option") (keyword: string) (arg: "string option") (subs: "stmt list")

definition stmt_sub :: "string \<Rightarrow> stmt \<Rightarrow> stmt option" where
  "stmt_sub kw s = find (\<lambda>t. stmt_prefix t = None \<and> keyword t = kw) (subs s)"

definition subs_of :: "string \<Rightarrow> stmt \<Rightarrow> stmt list" where
  "subs_of kw s = filter (\<lambda>t. stmt_prefix t = None \<and> keyword t = kw) (subs s)"

definition arg_str :: "stmt \<Rightarrow> string" where
  "arg_str s = (case arg s of None \<Rightarrow> '''' | Some a \<Rightarrow> a)"

text \<open>The messages, with the character or keyword they quote.\<close>

datatype parse_message =
  Unterminated_double
| Unterminated_escape
| Unterminated_single
| Expected_string
| Expected_keyword "uchar option"
| End_after_keyword
| Unterminated_block
| Expected_end "uchar option"
| Trailing_content
| Not_a_module string

record parse_failure =
  message :: parse_message
  err_line :: nat
  err_col :: nat

section \<open>The lexer\<close>

record lexer =
  chars :: "uchar list"
  pos :: nat
  line_no :: nat
  col :: nat

text \<open>\<open>replace("\r\n", "\n").replace('\r', "\n")\<close>\<close>

fun replace_crlf :: "string \<Rightarrow> string" where
  "replace_crlf [] = []"
| "replace_crlf [c] = [c]"
| "replace_crlf (c # d # s) =
    (if c = CHR 0x0D \<and> d = CHR 0x0A then CHR 0x0A # replace_crlf s else c # replace_crlf (d # s))"

definition normalize_lines :: "string \<Rightarrow> string" where
  "normalize_lines src = map (\<lambda>c. if c = CHR 0x0D then CHR 0x0A else c) (replace_crlf src)"

definition lexer_new :: "string \<Rightarrow> lexer" where
  "lexer_new src = \<lparr>chars = str_chars (normalize_lines src), pos = 0, line_no = 1, col = 0\<rparr>"

definition peek_at :: "nat \<Rightarrow> lexer \<Rightarrow> uchar option" where
  "peek_at offset l = (if pos l + offset < length (chars l) then Some (chars l ! (pos l + offset)) else None)"

definition peek :: "lexer \<Rightarrow> uchar option" where
  "peek l = (if pos l < length (chars l) then Some (chars l ! pos l) else None)"

definition bump :: "lexer \<Rightarrow> uchar option \<times> lexer" where
  "bump l = (case peek l of
     None \<Rightarrow> (None, l)
   | Some c \<Rightarrow> (Some c,
       if c = nl then l\<lparr>pos := pos l + 1, line_no := line_no l + 1, col := 0\<rparr>
       else if c = tab then l\<lparr>pos := pos l + 1, col := (col l div 8 + 1) * 8\<rparr>
       else l\<lparr>pos := pos l + 1, col := col l + 1\<rparr>))"

definition advance :: "lexer \<Rightarrow> lexer" where
  "advance l = snd (bump l)"

definition at_end :: "lexer \<Rightarrow> bool" where
  "at_end l \<longleftrightarrow> length (chars l) \<le> pos l"

definition lex_err :: "parse_message \<Rightarrow> lexer \<Rightarrow> parse_failure" where
  "lex_err msg l = \<lparr>message = msg, err_line = line_no l, err_col = col l\<rparr>"

text \<open>What is left to read: every loop of the lexer ends because it shrinks.\<close>

definition remaining :: "lexer \<Rightarrow> nat" where
  "remaining l = length (chars l) - pos l"

lemma advance_remaining: "peek l = Some c \<Longrightarrow> remaining (advance l) < remaining l"
  by (auto simp: peek_def advance_def bump_def remaining_def split: if_splits)

lemma advance_remaining_le: "remaining (advance l) \<le> remaining l"
  by (auto simp: peek_def advance_def bump_def remaining_def split: option.splits)

lemma bump_eq: "bump l = (peek l, advance l)"
  by (auto simp: bump_def advance_def split: option.splits)

section \<open>Trivia and words\<close>

function skip_line :: "lexer \<Rightarrow> lexer" where
  "skip_line l = (case peek l of
     None \<Rightarrow> l
   | Some c \<Rightarrow> if c = nl then l else skip_line (advance l))"
  by pat_completeness auto
termination
  by (relation "measure remaining") (auto dest: advance_remaining)

function skip_block :: "lexer \<Rightarrow> lexer" where
  "skip_block l = (case peek l of
     None \<Rightarrow> l
   | Some c \<Rightarrow>
       if c = ''*'' \<and> peek_at 1 l = Some ''/'' then advance (advance l)
       else skip_block (advance l))"
  by pat_completeness auto
termination
  by (relation "measure remaining") (auto dest: advance_remaining)

declare skip_line.simps [simp del] skip_block.simps [simp del]

lemma skip_line_remaining: "remaining (skip_line l) \<le> remaining l"
proof (induction l rule: skip_line.induct)
  case (1 l)
  show ?case
  proof (cases "peek l")
    case (Some c)
    with 1 show ?thesis using advance_remaining_le [of l]
      by (subst skip_line.simps) (fastforce intro: le_trans)
  qed (simp add: skip_line.simps)
qed

lemma skip_block_remaining: "remaining (skip_block l) \<le> remaining l"
proof (induction l rule: skip_block.induct)
  case (1 l)
  show ?case
  proof (cases "peek l")
    case (Some c)
    with 1 show ?thesis using advance_remaining_le [of l] advance_remaining_le [of "advance l"]
      by (subst skip_block.simps) (fastforce intro: le_trans)
  qed (simp add: skip_block.simps)
qed

function skip_trivia :: "lexer \<Rightarrow> lexer" where
  "skip_trivia l = (case peek l of
     None \<Rightarrow> l
   | Some c \<Rightarrow>
       if is_whitespace c then skip_trivia (advance l)
       else if c = ''/'' \<and> peek_at 1 l = Some ''/'' then skip_trivia (skip_line l)
       else if c = ''/'' \<and> peek_at 1 l = Some ''*'' then skip_trivia (skip_block (advance (advance l)))
       else l)"
  by pat_completeness auto
termination
proof (relation "measure remaining")
  fix l c assume p: "peek l = Some c"
  {
    assume "c = ''/'' \<and> peek_at 1 l = Some ''/''"
    with p have "skip_line l = skip_line (advance l)" by (subst skip_line.simps) simp
    with skip_line_remaining [of "advance l"] advance_remaining [OF p]
    show "(skip_line l, l) \<in> measure remaining" by simp
  next
    have "remaining (skip_block (advance (advance l))) \<le> remaining (advance l)"
      using skip_block_remaining [of "advance (advance l)"] advance_remaining_le [of "advance l"] by linarith
    with advance_remaining [OF p] show "(skip_block (advance (advance l)), l) \<in> measure remaining" by simp
  }
qed (auto dest: advance_remaining)

definition bare_end :: "uchar \<Rightarrow> bool" where
  "bare_end c \<longleftrightarrow> is_whitespace c \<or> c \<in> {''{'', ''}'', '';'', dquote, squote}"

function read_bare :: "lexer \<Rightarrow> string \<times> lexer" where
  "read_bare l = (case peek l of
     None \<Rightarrow> ([], l)
   | Some c \<Rightarrow>
       if bare_end c then ([], l)
       else let (s, l') = read_bare (advance l) in (c @ s, l'))"
  by pat_completeness auto
termination
  by (relation "measure remaining") (auto dest: advance_remaining)

declare skip_trivia.simps [simp del] read_bare.simps [simp del]


section \<open>Strings\<close>

text \<open>The loop of \<open>read_double_quoted\<close> after the opening quote.\<close>

function double_quoted_loop :: "lexer \<Rightarrow> string \<Rightarrow> parse_failure + string \<times> lexer" where
  "double_quoted_loop l raw = (case peek l of
     None \<Rightarrow> Inl (lex_err Unterminated_double (advance l))
   | Some c \<Rightarrow>
       let l1 = advance l in
       if c = dquote then Inr (raw, l1)
       else if c = backslash then
         (case peek l1 of
            None \<Rightarrow> Inl (lex_err Unterminated_escape (advance l1))
          | Some e \<Rightarrow> double_quoted_loop (advance l1)
              (raw @ (if e = ''n'' then nl else if e = ''t'' then tab
                      else if e = dquote then dquote else if e = backslash then backslash
                      else backslash @ e)))
       else double_quoted_loop l1 (raw @ c))"
  by pat_completeness auto
termination
proof (relation "measure (\<lambda>(l, raw). remaining l)")
  fix l :: lexer and raw c l1 e
  assume "peek l = Some c" "l1 = advance l"
  then show "((advance l1, raw'), l, raw) \<in> measure (\<lambda>(l, raw). remaining l)" for raw'
    using advance_remaining [of l c] advance_remaining_le [of l1] by simp
qed (auto dest: advance_remaining)

function single_quoted_loop :: "lexer \<Rightarrow> string \<Rightarrow> parse_failure + string \<times> lexer" where
  "single_quoted_loop l raw = (case peek l of
     None \<Rightarrow> Inl (lex_err Unterminated_single (advance l))
   | Some c \<Rightarrow> if c = squote then Inr (raw, advance l) else single_quoted_loop (advance l) (raw @ c))"
  by pat_completeness auto
termination
  by (relation "measure (\<lambda>(l, raw). remaining l)") (auto dest: advance_remaining)

declare double_quoted_loop.simps [simp del] single_quoted_loop.simps [simp del]

text \<open>
  \<open>strip_leading_ws\<close> removes the characters that its loop walks over; they are ASCII, so
  the byte index is their number.
\<close>

fun strip_leading_ws_from :: "nat \<Rightarrow> nat \<Rightarrow> string \<Rightarrow> string" where
  "strip_leading_ws_from c max_col [] = []"
| "strip_leading_ws_from c max_col (ch # line) =
    (if max_col \<le> c then ch # line
     else if ch = CHR '' '' then strip_leading_ws_from (c + 1) max_col line
     else if ch = CHR 0x09 then strip_leading_ws_from ((c div 8 + 1) * 8) max_col line
     else ch # line)"

definition strip_leading_ws :: "string \<Rightarrow> nat \<Rightarrow> string" where
  "strip_leading_ws line max_col = strip_leading_ws_from 0 max_col line"

definition strip_indentation :: "string \<Rightarrow> nat \<Rightarrow> string" where
  "strip_indentation raw quote_col =
     (if CHR 0x0A \<notin> set raw then raw
      else case split_on (CHR 0x0A) raw of
        [] \<Rightarrow> []
      | first # lines \<Rightarrow>
          first @ concat (map (\<lambda>line. CHR 0x0A # strip_leading_ws line (quote_col + 1)) lines))"

definition read_double_quoted :: "lexer \<Rightarrow> parse_failure + string \<times> lexer" where
  "read_double_quoted l =
     rbind (double_quoted_loop (advance l) []) (\<lambda>(raw, l'). Inr (strip_indentation raw (col l), l'))"

definition read_single_quoted :: "lexer \<Rightarrow> parse_failure + string \<times> lexer" where
  "read_single_quoted l = single_quoted_loop (advance l) []"

definition read_string_component :: "lexer \<Rightarrow> parse_failure + string \<times> lexer" where
  "read_string_component l = (case peek l of
     None \<Rightarrow> Inl (lex_err Expected_string l)
   | Some c \<Rightarrow>
       if c = dquote then read_double_quoted l
       else if c = squote then read_single_quoted l
       else Inr (read_bare l))"

lemma skip_trivia_remaining: "remaining (skip_trivia l) \<le> remaining l"
proof (induction l rule: skip_trivia.induct)
  case (1 l)
  show ?case
  proof (cases "peek l")
    case (Some c)
    note le = advance_remaining_le [of l] advance_remaining_le [of "advance l"] skip_line_remaining [of l]
      skip_block_remaining [of "advance (advance l)"]
    show ?thesis
      using 1 [OF Some] le by (subst skip_trivia.simps) (auto simp: Some)
  qed (simp add: skip_trivia.simps)
qed

lemma read_bare_remaining: "read_bare l = (s, l') \<Longrightarrow> remaining l' \<le> remaining l \<and> (s \<noteq> [] \<longrightarrow> remaining l' < remaining l)"
proof (induction l arbitrary: s l' rule: read_bare.induct)
  case (1 l)
  show ?case
  proof (cases "peek l")
    case (Some c)
    obtain s1 l1 where r: "read_bare (advance l) = (s1, l1)" by fastforce
    show ?thesis
      using "1.prems" "1.IH" [OF Some _ r] advance_remaining [OF Some]
      by (subst (asm) read_bare.simps) (auto simp: Some r split: if_splits)
  qed (use "1.prems" in \<open>simp add: read_bare.simps\<close>)
qed

lemma double_quoted_remaining: "double_quoted_loop l raw = Inr (s, l') \<Longrightarrow> remaining l' \<le> remaining l"
proof (induction l raw rule: double_quoted_loop.induct)
  case (1 l raw)
  note unf = "1.prems" [unfolded double_quoted_loop.simps [of l]]
  show ?case
  proof (cases "peek l")
    case (Some c)
    note le = advance_remaining_le [of l] advance_remaining_le [of "advance l"]
    consider "c = dquote" | "c = backslash" | "c \<noteq> dquote" "c \<noteq> backslash" by blast
    then show ?thesis
    proof cases
      case 1
      with unf Some le show ?thesis by (auto simp: Let_def)
    next
      case 2
      with unf Some obtain e where e: "peek (advance l) = Some e"
        by (auto simp: Let_def split: option.splits)
      from unf Some 2 e "1.IH"(1) [OF Some refl _ _ e] le show ?thesis by (simp add: Let_def)
    next
      case 3
      from unf Some 3 "1.IH"(2) [OF Some refl] le show ?thesis by (simp add: Let_def)
    qed
  qed (use unf in simp)
qed

lemma single_quoted_remaining: "single_quoted_loop l raw = Inr (s, l') \<Longrightarrow> remaining l' \<le> remaining l"
proof (induction l raw rule: single_quoted_loop.induct)
  case (1 l raw)
  note unf = "1.prems" [unfolded single_quoted_loop.simps [of l]]
  show ?case
  proof (cases "peek l")
    case (Some c)
    with unf "1.IH" [OF Some] advance_remaining_le [of l] show ?thesis by (auto split: if_splits)
  qed (use unf in simp)
qed

lemma string_component_remaining:
  assumes "read_string_component l = Inr (s, l')"
  shows "remaining l' \<le> remaining l"
proof -
  have "read_bare l = (s, l') \<Longrightarrow> ?thesis" using read_bare_remaining by blast
  moreover have "read_double_quoted l = Inr (s, l') \<Longrightarrow> ?thesis"
    using double_quoted_remaining [of "advance l"] advance_remaining_le [of l]
    by (fastforce simp: read_double_quoted_def result_simps)
  moreover have "read_single_quoted l = Inr (s, l') \<Longrightarrow> ?thesis"
    using single_quoted_remaining [of "advance l"] advance_remaining_le [of l]
    by (fastforce simp: read_single_quoted_def)
  ultimately show ?thesis using assms
    by (auto simp: read_string_component_def split: option.splits if_splits)
qed

section \<open>Statements\<close>

text \<open>The loop of \<open>read_argument\<close> after the first component.\<close>

function argument_loop :: "lexer \<Rightarrow> string \<Rightarrow> parse_failure + string \<times> lexer" where
  "argument_loop l result =
     (let l1 = skip_trivia l in
      if peek l1 = Some ''+'' then
        rbind (read_string_component (skip_trivia (advance l1))) (\<lambda>(s, l2).
        argument_loop l2 (result @ s))
      else Inr (result, l1))"
  by pat_completeness auto
termination
proof (relation "measure (\<lambda>(l, result). remaining l)")
  fix l result l1 s l2 p
  assume l1: "l1 = skip_trivia l" and plus: "peek l1 = Some ''+''"
    and rs: "read_string_component (skip_trivia (advance l1)) = Inr p" and p: "(s, l2) = p"
  have "remaining l2 \<le> remaining (skip_trivia (advance l1))"
    using string_component_remaining [OF rs [folded p]] .
  also have "\<dots> \<le> remaining (advance l1)" by (rule skip_trivia_remaining)
  also have "\<dots> < remaining l1" by (rule advance_remaining [OF plus])
  also have "\<dots> \<le> remaining l" unfolding l1 by (rule skip_trivia_remaining)
  finally show "((l2, result @ s), l, result) \<in> measure (\<lambda>(l, result). remaining l)" by simp
qed simp

declare argument_loop.simps [simp del]

definition read_argument :: "lexer \<Rightarrow> parse_failure + string \<times> lexer" where
  "read_argument l = rbind (read_string_component l) (\<lambda>(s, l1). argument_loop l1 s)"

definition read_keyword :: "lexer \<Rightarrow> parse_failure + (string option \<times> string) \<times> lexer" where
  "read_keyword l =
     (let (word, l1) = read_bare l in
      if word = [] then Inl (lex_err (Expected_keyword (peek l1)) l1)
      else case split_once CHR '':'' word of
        Some (prefix, local) \<Rightarrow>
          if local \<noteq> [] then Inr ((Some prefix, local), l1) else Inr ((None, word), l1)
      | None \<Rightarrow> Inr ((None, word), l1))"

text \<open>The part of \<open>parse_statement\<close> before the substatements: keyword and argument.\<close>

definition read_head :: "lexer \<Rightarrow> parse_failure + string option \<times> string \<times> string option \<times> lexer" where
  "read_head l =
     rbind (read_keyword (skip_trivia l)) (\<lambda>((prefix, kw), l1).
     let l2 = skip_trivia l1 in
     case peek l2 of
       None \<Rightarrow> Inl (lex_err End_after_keyword l2)
     | Some c \<Rightarrow>
         if c = ''{'' \<or> c = '';'' then Inr (prefix, kw, None, l2)
         else rbind (read_argument l2) (\<lambda>(a, l3). Inr (prefix, kw, Some a, skip_trivia l3)))"

function parse_statement :: "lexer \<Rightarrow> parse_failure + stmt \<times> lexer"
  and parse_block :: "lexer \<Rightarrow> parse_failure + stmt list \<times> lexer"
where
  "parse_statement l =
     rbind (read_head l) (\<lambda>(prefix, kw, a, l1).
     let l2 = advance l1 in
     if peek l1 = Some '';'' then Inr (Stmt prefix kw a [], l2)
     else if peek l1 = Some ''{'' then
       rbind (parse_block l2) (\<lambda>(ss, l3). Inr (Stmt prefix kw a ss, l3))
     else Inl (lex_err (Expected_end (peek l1)) l2))"
| "parse_block l =
     (let l1 = skip_trivia l in
      if peek l1 = Some ''}'' then Inr ([], advance l1)
      else if at_end l1 then Inl (lex_err Unterminated_block l1)
      else rbind (parse_statement l1) (\<lambda>(s, l2).
           rbind (parse_block l2) (\<lambda>(ss, l3). Inr (s # ss, l3))))"
  by pat_completeness auto

lemma argument_loop_remaining: "argument_loop l r = Inr (s, l') \<Longrightarrow> remaining l' \<le> remaining l"
proof (induction l r rule: argument_loop.induct)
  case (1 l r)
  let ?l1 = "skip_trivia l"
  note unf = "1.prems" [unfolded argument_loop.simps [of l]]
  show ?case
  proof (cases "peek ?l1 = Some ''+''")
    case True
    with unf obtain t l2 where rs: "read_string_component (skip_trivia (advance ?l1)) = Inr (t, l2)"
      and al: "argument_loop l2 (r @ t) = Inr (s, l')"
      by (auto simp: Let_def result_simps)
    from "1.IH" [OF refl True rs refl al] string_component_remaining [OF rs]
      skip_trivia_remaining [of "advance ?l1"] advance_remaining_le [of ?l1] skip_trivia_remaining [of l]
    show ?thesis by linarith
  next
    case False
    with unf skip_trivia_remaining [of l] show ?thesis by (auto simp: Let_def)
  qed
qed

lemma read_argument_remaining: "read_argument l = Inr (s, l') \<Longrightarrow> remaining l' \<le> remaining l"
  by (auto simp: read_argument_def result_simps
      dest!: string_component_remaining argument_loop_remaining)

lemma read_keyword_remaining:
  assumes "read_keyword l = Inr (k, l')"
  shows "remaining l' < remaining l"
proof -
  obtain w l1 where r: "read_bare l = (w, l1)" by fastforce
  with assms have "w \<noteq> []" "l' = l1"
    by (auto simp: read_keyword_def Let_def split: option.splits if_splits)
  with read_bare_remaining [OF r] show ?thesis by simp
qed

lemma read_head_remaining:
  assumes "read_head l = Inr (prefix, kw, a, l')"
  shows "remaining l' < remaining l"
proof -
  from assms obtain k' l1 where rk: "read_keyword (skip_trivia l) = Inr (k', l1)"
    by (auto simp: read_head_def result_simps)
  have "remaining l' \<le> remaining l1"
  proof -
    note sk = skip_trivia_remaining [of l1]
    from assms rk have "l' = skip_trivia l1 \<or>
        (\<exists>a l3. read_argument (skip_trivia l1) = Inr (a, l3) \<and> l' = skip_trivia l3)"
      by (auto simp: read_head_def result_simps Let_def split: option.splits if_splits prod.splits)
    then show ?thesis
      using sk skip_trivia_remaining by (auto dest!: read_argument_remaining intro: le_trans)
  qed
  with read_keyword_remaining [OF rk] skip_trivia_remaining [of l] show ?thesis by simp
qed

lemma parse_remaining_dom:
  "parse_statement_parse_block_dom (Inl l) \<Longrightarrow> parse_statement l = Inr (s, l') \<Longrightarrow> remaining l' < remaining l"
  "parse_statement_parse_block_dom (Inr l) \<Longrightarrow> parse_block l = Inr (ss, l') \<Longrightarrow> remaining l' \<le> remaining l"
proof (induction l and l arbitrary: s l' and ss l' rule: parse_statement_parse_block.pinduct)
  case (1 l)
  note unf = "1.prems" [unfolded parse_statement.psimps [OF "1.hyps"]]
  then obtain prefix kw a l1 where rh: "read_head l = Inr (prefix, kw, a, l1)"
    by (auto simp: result_simps)
  note lt = read_head_remaining [OF rh] advance_remaining_le [of l1]
  consider "peek l1 = Some '';''" | "peek l1 = Some ''{''" | "peek l1 \<noteq> Some '';''" "peek l1 \<noteq> Some ''{''" by blast
  then show ?case
  proof cases
    case 1
    with unf rh lt show ?thesis by (simp add: Let_def)
  next
    case 2
    with unf rh obtain ss where "parse_block (advance l1) = Inr (ss, l')"
      by (auto simp: Let_def result_simps)
    then have "remaining l' \<le> remaining (advance l1)" using 2 by (intro "1.IH" [OF rh refl]) auto
    with lt show ?thesis by simp
  next
    case 3
    with unf rh show ?thesis by (simp add: Let_def)
  qed
next
  case (2 l)
  note unf = "2.prems" [unfolded parse_block.psimps [OF "2.hyps"]]
  let ?l1 = "skip_trivia l"
  note le = skip_trivia_remaining [of l] advance_remaining_le [of ?l1]
  consider "peek ?l1 = Some ''}''" | "peek ?l1 \<noteq> Some ''}''" "at_end ?l1"
    | "peek ?l1 \<noteq> Some ''}''" "\<not> at_end ?l1" by blast
  then show ?case
  proof cases
    case 1
    with unf le show ?thesis by (simp add: Let_def)
  next
    case 2
    with unf show ?thesis by (simp add: Let_def)
  next
    case 3
    with unf obtain s l2 ss' where ps: "parse_statement ?l1 = Inr (s, l2)"
      and pb: "parse_block l2 = Inr (ss', l')"
      by (auto simp: Let_def result_simps)
    from "2.IH"(1) [OF refl 3 ps] "2.IH"(2) [OF refl 3 ps refl pb] le show ?thesis by simp
  qed
qed

termination parse_statement
proof (relation "measures [\<lambda>x. case x of Inl l \<Rightarrow> remaining l | Inr l \<Rightarrow> remaining l,
    \<lambda>x. case x of Inl l \<Rightarrow> 0 | Inr l \<Rightarrow> (1 :: nat)]")
qed (auto dest!: read_head_remaining parse_remaining_dom
    intro: le_less_trans [OF advance_remaining_le] less_le_trans [OF _ skip_trivia_remaining]
      le_neq_implies_less skip_trivia_remaining)

declare parse_statement.simps [simp del] parse_block.simps [simp del]

lemmas parse_induct = parse_statement_parse_block.induct

text \<open>\<open>parse_module\<close>\<close>

definition parse_module :: "string \<Rightarrow> parse_failure + stmt" where
  "parse_module src =
     rbind (parse_statement (lexer_new src)) (\<lambda>(s, l).
     let l1 = skip_trivia l in
     if \<not> at_end l1 then Inl (lex_err Trailing_content l1)
     else if keyword s \<noteq> ''module'' \<and> keyword s \<noteq> ''submodule'' then
       Inl \<lparr>message = Not_a_module (keyword s), err_line = 1, err_col = 0\<rparr>
     else Inr s)"

end
