(* ===== verification/Yang_Print.thy ===== *)
theory Yang_Print
  imports Yang_Parser
begin

text \<open>
  The contract of the YANG parser: statements printed as source text are read back.
\<close>

section \<open>The lexer at a text\<close>

text \<open>\<open>at l cs\<close>: the characters from the position on are \<open>cs\<close>.\<close>

definition at :: "lexer \<Rightarrow> uchar list \<Rightarrow> bool" where
  "at l cs \<longleftrightarrow> pos l \<le> length (chars l) \<and> drop (pos l) (chars l) = cs"

lemma at_Nil: "at l [] \<Longrightarrow> peek l = None \<and> at_end l"
  by (simp add: at_def peek_def at_end_def)

lemma at_peek: "at l (c # cs) \<Longrightarrow> peek l = Some c \<and> \<not> at_end l"
  by (auto simp: at_def peek_def at_end_def nth_via_drop Cons_nth_drop_Suc [symmetric]
      intro: ccontr [of "pos l < length (chars l)"])

lemma at_advance:
  assumes "at l (c # cs)"
  shows "at (advance l) cs"
proof -
  have "pos (advance l) = pos l + 1" "chars (advance l) = chars l"
    using at_peek [OF assms] by (simp_all add: advance_def bump_def)
  moreover have "pos l < length (chars l)" using assms by (cases "pos l < length (chars l)") (auto simp: at_def)
  moreover have "drop (pos l + 1) (chars l) = cs"
    using assms by (simp add: at_def) (metis drop_Suc list.sel(3) tl_drop)
  ultimately show ?thesis by (simp add: at_def)
qed

lemma at_peek_1: "at l (c # d # cs) \<Longrightarrow> peek_at 1 l = Some d"
proof -
  assume a: "at l (c # d # cs)"
  then have "length (drop (pos l) (chars l)) = Suc (Suc (length cs))" by (simp add: at_def)
  then have "pos l + 1 < length (chars l)" by simp
  moreover have "drop (pos l) (chars l) ! 1 = d" using a by (simp add: at_def)
  ultimately show ?thesis by (simp add: peek_at_def)
qed

lemma at_peek_1_None: "at l [c] \<Longrightarrow> peek_at 1 l = None"
proof -
  assume a: "at l [c]"
  then have "length (drop (pos l) (chars l)) = 1" by (simp add: at_def)
  then show ?thesis by (simp add: peek_at_def)
qed

text \<open>A text that begins with no whitespace and no comment.\<close>

fun token_start :: "uchar list \<Rightarrow> bool" where
  "token_start [] = True"
| "token_start [c] \<longleftrightarrow> \<not> is_whitespace c"
| "token_start (c # d # cs) \<longleftrightarrow> \<not> is_whitespace c \<and> \<not> (c = ''/'' \<and> (d = ''/'' \<or> d = ''*''))"

lemma skip_trivia_none: "at l cs \<Longrightarrow> token_start cs \<Longrightarrow> skip_trivia l = l"
proof (cases cs rule: token_start.cases)
  case 1
  assume "at l cs"
  with 1 show ?thesis using at_Nil [of l] by (subst skip_trivia.simps) simp
next
  case (2 c)
  assume "at l cs" "token_start cs"
  with 2 show ?thesis using at_peek [of l c "[]"] at_peek_1_None [of l c]
    by (subst skip_trivia.simps) simp
next
  case (3 c d cs')
  assume "at l cs" "token_start cs"
  with 3 show ?thesis using at_peek [of l c "d # cs'"] at_peek_1 [of l c d cs']
    by (subst skip_trivia.simps) auto
qed

lemma skip_trivia_space: "at l (c # cs) \<Longrightarrow> is_whitespace c \<Longrightarrow> skip_trivia l = skip_trivia (advance l)"
  using at_peek [of l c cs] by (subst skip_trivia.simps) simp

lemma read_bare_word:
  "at l (w @ c # cs) \<Longrightarrow> \<forall>d \<in> set w. \<not> bare_end d \<Longrightarrow> bare_end c \<Longrightarrow>
   \<exists>l'. read_bare l = (concat w, l') \<and> at l' (c # cs)"
proof (induction w arbitrary: l)
  case Nil
  then show ?case using at_peek [of l c cs] by (subst read_bare.simps) simp
next
  case (Cons d w)
  then obtain l' where "read_bare (advance l) = (concat w, l')" "at l' (c # cs)"
    using at_advance [of l d "w @ c # cs"] by auto
  with Cons at_peek [of l d "w @ c # cs"] show ?case by (subst read_bare.simps) simp
qed

definition escape_char :: "uchar \<Rightarrow> uchar list" where
  "escape_char c = (if c = dquote \<or> c = backslash then [backslash, c] else [c])"

lemma double_quoted_text:
  "at l (concat (map escape_char cs) @ dquote # rest) \<Longrightarrow>
   \<exists>l'. double_quoted_loop l raw = Inr (raw @ concat cs, l') \<and> at l' rest"
proof (induction cs arbitrary: l raw)
  case Nil
  then show ?case using at_peek [of l dquote rest] at_advance [of l dquote rest]
    by (subst double_quoted_loop.simps) (simp add: Let_def)
next
  case (Cons c cs)
  let ?t = "concat (map escape_char cs) @ dquote # rest"
  show ?case
  proof (cases "c = dquote \<or> c = backslash")
    case True
    with Cons.prems have a: "at l (backslash # c # ?t)" by (simp add: escape_char_def [of c])
    note a1 = at_advance [OF a] and a2 = at_advance [OF at_advance [OF a]]
    have "double_quoted_loop l raw = double_quoted_loop (advance (advance l)) (raw @ c)"
      using at_peek [OF a] at_peek [OF a1] True by (subst double_quoted_loop.simps) (auto simp: Let_def)
    with Cons.IH [OF a2, of "raw @ c"] show ?thesis by simp
  next
    case False
    with Cons.prems have a: "at l (c # ?t)" by (simp add: escape_char_def [of c])
    have "double_quoted_loop l raw = double_quoted_loop (advance l) (raw @ c)"
      using at_peek [OF a] False by (subst double_quoted_loop.simps) (auto simp: Let_def)
    with Cons.IH [OF at_advance [OF a], of "raw @ c"] show ?thesis by simp
  qed
qed

section \<open>Printing statements\<close>

text \<open>
  A statement as source text: its keyword, its argument in double quotes with the quotes
  and backslashes of the argument escaped, and its substatements in braces.
\<close>

abbreviation sp :: uchar where "sp \<equiv> '' ''"

definition stmt_word :: "string option \<Rightarrow> string \<Rightarrow> string" where
  "stmt_word p k = (case p of None \<Rightarrow> k | Some pre \<Rightarrow> pre @ '':'' @ k)"

definition print_arg :: "string option \<Rightarrow> uchar list" where
  "print_arg a = (case a of None \<Rightarrow> []
     | Some s \<Rightarrow> dquote # concat (map escape_char (str_chars s)) @ [dquote])"

fun print_stmt :: "stmt \<Rightarrow> uchar list" where
  "print_stmt (Stmt p k a ss) =
     str_chars (stmt_word p k) @ [sp] @ print_arg a
     @ (if ss = [] then ['';''] else ''{'' # concat (map print_stmt ss) @ [''}''])"

definition word_ok :: "string option \<Rightarrow> string \<Rightarrow> bool" where
  "word_ok p k \<longleftrightarrow> k \<noteq> [] \<and> CHR '':'' \<notin> set (case p of None \<Rightarrow> k | Some pre \<Rightarrow> pre)
     \<and> (\<forall>c \<in> set (str_chars (stmt_word p k)). \<not> bare_end c)
     \<and> token_start (str_chars (stmt_word p k) @ [sp])"

fun stmt_ok :: "stmt \<Rightarrow> bool" where
  "stmt_ok (Stmt p k a ss) \<longleftrightarrow>
     word_ok p k \<and> CHR 0x0A \<notin> set (case a of None \<Rightarrow> [] | Some s \<Rightarrow> s) \<and> (\<forall>s \<in> set ss. stmt_ok s)"

lemma concat_str_chars [simp]: "concat (str_chars s) = s"
  by (induction s rule: str_chars.induct) simp_all

lemma stmt_word_not_Nil: "k \<noteq> [] \<Longrightarrow> stmt_word p k \<noteq> []"
  by (simp add: stmt_word_def split: option.split)

lemma word_token_start:
  assumes "word_ok p k"
  shows "token_start (str_chars (stmt_word p k) @ sp # rest)"
proof -
  have "stmt_word p k \<noteq> []" using assms by (simp add: word_ok_def stmt_word_not_Nil)
  then obtain c cs where "str_chars (stmt_word p k) = c # cs" by (cases "stmt_word p k") auto
  with assms show ?thesis by (cases cs) (auto simp: word_ok_def)
qed

lemma is_whitespace_sp [simp]: "is_whitespace sp"
  by (simp add: is_whitespace_def)

lemma bare_end_sp [simp]: "bare_end sp"
  by (simp add: bare_end_def)

lemma not_whitespace [simp]:
  "\<not> is_whitespace ''{''" "\<not> is_whitespace ''}''" "\<not> is_whitespace '';''" "\<not> is_whitespace dquote"
  by (simp_all add: is_whitespace_def)

lemma token_start_punct:
  "c \<in> {''{'', ''}'', '';'', dquote} \<Longrightarrow> token_start (c # rest)"
  by (cases rest) auto

lemma read_keyword_word:
  assumes "word_ok p k" "at l (str_chars (stmt_word p k) @ sp # rest)"
  shows "\<exists>l'. read_keyword l = Inr ((p, k), l') \<and> at l' (sp # rest)"
proof -
  from assms obtain l' where r: "read_bare l = (stmt_word p k, l')" "at l' (sp # rest)"
    using read_bare_word [of l "str_chars (stmt_word p k)" sp rest] by (auto simp: word_ok_def)
  moreover have "stmt_word p k \<noteq> []" using assms by (simp add: word_ok_def stmt_word_not_Nil)
  moreover have "(case split_once CHR '':'' (stmt_word p k) of
        Some (prefix, local) \<Rightarrow> if local \<noteq> [] then Inr ((Some prefix, local), l') else Inr ((None, stmt_word p k), l')
      | None \<Rightarrow> Inr ((None, stmt_word p k), l')) = (Inr ((p, k), l') :: parse_failure + _)"
  proof (cases p)
    case None
    then have "split_once CHR '':'' (stmt_word p k) = None"
      using assms(1) by (simp add: split_once_None stmt_word_def word_ok_def)
    with None show ?thesis by (simp add: stmt_word_def)
  next
    case (Some pre)
    then have "split_once CHR '':'' (stmt_word p k) = Some (pre, k)"
      using assms(1) by (simp add: split_once_Some stmt_word_def word_ok_def)
    with Some assms(1) show ?thesis by (simp add: word_ok_def)
  qed
  ultimately show ?thesis by (simp add: read_keyword_def)
qed

lemma read_head_text:
  assumes "word_ok p k" "CHR 0x0A \<notin> set (case a of None \<Rightarrow> [] | Some s \<Rightarrow> s)" "c = '';'' \<or> c = ''{''"
    and "at l (str_chars (stmt_word p k) @ [sp] @ print_arg a @ c # rest)"
  shows "\<exists>l'. read_head l = Inr (p, k, a, l') \<and> at l' (c # rest)"
proof -
  have "token_start (str_chars (stmt_word p k) @ sp # print_arg a @ c # rest)"
    using assms(1) by (rule word_token_start)
  then have "skip_trivia l = l" using assms(4) by (intro skip_trivia_none) simp_all
  moreover obtain l1 where l1: "read_keyword l = Inr ((p, k), l1)" "at l1 (sp # print_arg a @ c # rest)"
    using read_keyword_word [OF assms(1), of l "print_arg a @ c # rest"] assms(4) by auto
  note a2 = at_advance [OF l1(2)]
  have ts: "token_start (print_arg a @ c # rest)"
    using assms(3) token_start_punct by (auto simp: print_arg_def split: option.splits)
  have st: "skip_trivia l1 = advance l1"
    using skip_trivia_space [OF l1(2)] skip_trivia_none [OF a2 ts] by simp
  show ?thesis
  proof (cases a)
    case None
    then have a2: "at (advance l1) (c # rest)" using a2 by (simp add: print_arg_def)
    with None l1(1) st \<open>skip_trivia l = l\<close> at_peek [OF a2] assms(3) show ?thesis
      by (auto simp: read_head_def Let_def)
  next
    case (Some s)
    then have a2: "at (advance l1) (dquote # concat (map escape_char (str_chars s)) @ dquote # c # rest)"
      using a2 by (simp add: print_arg_def)
    obtain l3 where l3: "double_quoted_loop (advance (advance l1)) [] = Inr (s, l3)" "at l3 (c # rest)"
      using double_quoted_text [OF at_advance [OF a2], of "[]"] by auto
    have "strip_indentation s n = s" for n using assms(2) Some by (simp add: strip_indentation_def)
    with l3 at_peek [OF a2] have rs: "read_string_component (advance l1) = Inr (s, l3)"
      by (simp add: read_string_component_def read_double_quoted_def)
    have c: "skip_trivia l3 = l3"
      using l3(2) assms(3) token_start_punct by (intro skip_trivia_none) auto
    then have "argument_loop l3 s = Inr (s, l3)"
      using at_peek [OF l3(2)] assms(3) by (subst argument_loop.simps) (auto simp: Let_def)
    with rs have "read_argument (advance l1) = Inr (s, l3)" by (simp add: read_argument_def)
    with Some l1(1) st \<open>skip_trivia l = l\<close> at_peek [OF a2] c l3(2) show ?thesis
      by (simp add: read_head_def Let_def)
  qed
qed

lemma print_stmt_token: "stmt_ok s \<Longrightarrow> token_start (print_stmt s @ rest)"
  by (cases s) (simp add: word_token_start)

lemma print_stmt_first:
  assumes "stmt_ok s"
  shows "\<exists>c cs. print_stmt s = c # cs \<and> c \<noteq> ''}''"
proof -
  obtain p k a ss where s: "s = Stmt p k a ss" by (cases s)
  have "str_chars (stmt_word p k) \<noteq> []"
    using assms s stmt_word_not_Nil [of k p] by (metis concat.simps(1) concat_str_chars stmt_ok.simps word_ok_def)
  then obtain c cs where c: "str_chars (stmt_word p k) = c # cs" by (cases "str_chars (stmt_word p k)") auto
  then have "\<not> bare_end c" using assms s by (simp add: word_ok_def)
  then have "c \<noteq> ''}''" by (auto simp: bare_end_def)
  with c s show ?thesis by simp
qed

lemma parse_block_text:
  assumes "\<And>s l rest. s \<in> set ss \<Longrightarrow> at l (print_stmt s @ rest) \<Longrightarrow>
      \<exists>l'. parse_statement l = Inr (s, l') \<and> at l' rest"
    and "\<forall>s \<in> set ss. stmt_ok s" "at l (concat (map print_stmt ss) @ ''}'' # rest)"
  shows "\<exists>l'. parse_block l = Inr (ss, l') \<and> at l' rest"
  using assms
proof (induction ss arbitrary: l)
  case Nil
  then have a: "at l (''}'' # rest)" by simp
  then have "skip_trivia l = l" using token_start_punct by (intro skip_trivia_none) auto
  with at_peek [OF a] at_advance [OF a] show ?case by (subst parse_block.simps) (simp add: Let_def)
next
  case (Cons s ss)
  let ?t = "concat (map print_stmt ss) @ ''}'' # rest"
  have a: "at l (print_stmt s @ ?t)" using Cons.prems(3) by simp
  have st: "skip_trivia l = l" using Cons.prems(2) a by (intro skip_trivia_none) (auto intro: print_stmt_token)
  obtain c cs where c: "print_stmt s = c # cs" "c \<noteq> ''}''" using print_stmt_first [of s] Cons.prems(2) by auto
  then have pk: "peek l = Some c" "\<not> at_end l" using at_peek [of l c "cs @ ?t"] a by auto
  obtain l1 where l1: "parse_statement l = Inr (s, l1)" "at l1 ?t" using Cons.prems(1) [of s l ?t] a by auto
  obtain l2 where "parse_block l1 = Inr (ss, l2)" "at l2 rest"
    using Cons.IH [OF _ _ l1(2)] Cons.prems by auto
  with l1 st pk c show ?case by (subst parse_block.simps) (simp add: Let_def)
qed

lemma parse_statement_text:
  "stmt_ok s \<Longrightarrow> at l (print_stmt s @ rest) \<Longrightarrow> \<exists>l'. parse_statement l = Inr (s, l') \<and> at l' rest"
proof (induction s arbitrary: l rest rule: print_stmt.induct)
  case (1 p k a ss)
  let ?c = "if ss = [] then '';'' else ''{''"
  let ?t = "(if ss = [] then [] else concat (map print_stmt ss) @ [''}'']) @ rest"
  have "at l (str_chars (stmt_word p k) @ [sp] @ print_arg a @ ?c # ?t)"
    using "1.prems"(2) by (cases "ss = []") simp_all
  then obtain l1 where l1: "read_head l = Inr (p, k, a, l1)" "at l1 (?c # ?t)"
    using read_head_text [of p k a ?c l ?t] "1.prems"(1) by (cases "ss = []") auto
  note a2 = at_advance [OF l1(2)] and pk = at_peek [OF l1(2)]
  show ?case
  proof (cases "ss = []")
    case True
    with l1 a2 pk show ?thesis by (subst parse_statement.simps) (simp add: Let_def)
  next
    case False
    then have a3: "at (advance l1) (concat (map print_stmt ss) @ ''}'' # rest)" using a2 by simp
    obtain l2 where "parse_block (advance l1) = Inr (ss, l2)" "at l2 rest"
      using parse_block_text [OF _ _ a3] "1.IH" [OF False] "1.prems"(1) by (auto simp: False)
    with False l1 pk show ?thesis by (subst parse_statement.simps) (simp add: Let_def)
  qed
qed

section \<open>The parser's contract\<close>

definition uchar_ok :: "uchar \<Rightarrow> bool" where
  "uchar_ok c \<longleftrightarrow> c \<noteq> [] \<and> length c = utf8_len (hd c)"

lemma str_chars_concat: "list_all uchar_ok cs \<Longrightarrow> str_chars (concat cs) = cs"
proof (induction cs)
  case (Cons c cs)
  then obtain x s where c: "c = x # s" by (cases c) (auto simp: uchar_ok_def)
  then have "utf8_len x = Suc (length s)" using Cons.prems by (simp add: uchar_ok_def)
  with c Cons show ?case by simp
qed simp

lemma replace_crlf_none: "CHR 0x0D \<notin> set s \<Longrightarrow> replace_crlf s = s"
  by (induction s rule: replace_crlf.induct) auto

lemma normalize_none: "CHR 0x0D \<notin> set s \<Longrightarrow> normalize_lines s = s"
proof -
  assume "CHR 0x0D \<notin> set s"
  then have "map (\<lambda>c. if c = CHR 0x0D then CHR 0x0A else c) s = map id s"
    by (intro map_cong) auto
  with \<open>CHR 0x0D \<notin> set s\<close> show ?thesis by (simp add: normalize_lines_def replace_crlf_none)
qed

lemma parse_module_print:
  assumes "stmt_ok s" "keyword s \<in> {''module'', ''submodule''}"
    and "list_all (\<lambda>c. uchar_ok c \<and> CHR 0x0D \<notin> set c) (print_stmt s)"
  shows "parse_module (concat (print_stmt s)) = Inr s"
proof -
  have cr: "CHR 0x0D \<notin> set (concat (print_stmt s))" using assms(3) by (auto simp: list_all_iff)
  have "list_all uchar_ok (print_stmt s)" using assms(3) by (auto simp: list_all_iff)
  then have "at (lexer_new (concat (print_stmt s))) (print_stmt s @ [])"
    by (simp add: at_def lexer_new_def normalize_none [OF cr] str_chars_concat)
  then obtain l where l: "parse_statement (lexer_new (concat (print_stmt s))) = Inr (s, l)" "at l []"
    using parse_statement_text [OF assms(1)] by blast
  have "skip_trivia l = l" using l(2) by (rule skip_trivia_none) simp
  with l at_Nil [OF l(2)] assms(2) show ?thesis by (auto simp: parse_module_def)
qed

text \<open>
  C12: Parsing inverts printing: for every statement tree, as deep and as wide as it may
  be, with keywords of bare characters, prefixes of extensions, and arguments of any
  text without line breaks (quotes and backslashes included), reading its source text
  as a module gives the tree back.
\<close>

theorem yang_parse_print:
  assumes "stmt_ok s" "keyword s \<in> {''module'', ''submodule''}"
    and "list_all (\<lambda>c. uchar_ok c \<and> CHR 0x0D \<notin> set c) (print_stmt s)"
  shows "parse_module (concat (print_stmt s)) = Inr s"
  by (rule parse_module_print [OF assms])

theorem yang_parse_print_witness:
  "parse_module (concat (print_stmt (Stmt None ''module'' (Some ''m'') [Stmt (Some ''p'') ''ext'' (Some [CHR 0x22, CHR ''x'']) [],
      Stmt None ''leaf'' None []])))
   = Inr (Stmt None ''module'' (Some ''m'') [Stmt (Some ''p'') ''ext'' (Some [CHR 0x22, CHR ''x'']) [], Stmt None ''leaf'' None []])"
  by (rule yang_parse_print)
    (simp_all add: word_ok_def stmt_word_def bare_end_def is_whitespace_def utf8_len_def uchar_ok_def
      print_arg_def escape_char_def)

end
