(* ===== verification/Yang_Sid.thy ===== *)
theory Yang_Sid
  imports Prelude
begin

text \<open>
  SID files (\<open>src/yang/src/sid.rs\<close>). The JSON reader \<open>serde_json::from_str\<close> is a
  parameter: it turns the source text into the raw file or its own error message.
\<close>

datatype namespace = NModule | NData | NIdentity | NFeature

record sid_item =
  item_namespace :: namespace
  sid_identifier :: string
  item_sid :: i64

record sid_file =
  sid_module_name :: string
  sid_file_items :: "sid_item list"

record raw_item =
  raw_namespace :: string
  raw_identifier :: string
  raw_sid :: i64

record raw_sid_file =
  raw_module_name :: string
  raw_items :: "raw_item list"

datatype sid_error = Json_error string | Unknown_namespace string

definition namespace_of :: "string \<Rightarrow> sid_error + namespace" where
  "namespace_of n =
    (if n = ''module'' then Inr NModule
     else if n = ''data'' then Inr NData
     else if n = ''identity'' then Inr NIdentity
     else if n = ''feature'' then Inr NFeature
     else Inl (Unknown_namespace n))"

fun sid_items :: "raw_item list \<Rightarrow> sid_item list \<Rightarrow> sid_error + sid_item list" where
  "sid_items [] out = Inr out"
| "sid_items (it # its) out =
    rbind (namespace_of (raw_namespace it)) (\<lambda>n.
    sid_items its (out @ [\<lparr>item_namespace = n, sid_identifier = raw_identifier it, item_sid = raw_sid it\<rparr>]))"

definition sid_parse :: "(string \<Rightarrow> string + raw_sid_file) \<Rightarrow> string \<Rightarrow> sid_error + sid_file" where
  "sid_parse from_str src =
    (case from_str src of
       Inl e \<Rightarrow> Inl (Json_error e)
     | Inr raw \<Rightarrow>
         rbind (sid_items (raw_items raw) []) (\<lambda>its.
         Inr \<lparr>sid_module_name = raw_module_name raw, sid_file_items = its\<rparr>))"

text \<open>A parsed file has the items of the raw one, in order, with every namespace known.\<close>

definition namespace_text :: "namespace \<Rightarrow> string" where
  "namespace_text n = (case n of NModule \<Rightarrow> ''module'' | NData \<Rightarrow> ''data''
     | NIdentity \<Rightarrow> ''identity'' | NFeature \<Rightarrow> ''feature'')"

lemma namespace_of_iff: "namespace_of t = Inr n \<longleftrightarrow> t = namespace_text n"
  by (cases n) (auto simp: namespace_of_def namespace_text_def)

definition raw_of :: "sid_item \<Rightarrow> raw_item" where
  "raw_of it = \<lparr>raw_namespace = namespace_text (item_namespace it),
                raw_identifier = sid_identifier it, raw_sid = item_sid it\<rparr>"

lemma sid_items_iff: "sid_items raw out = Inr its \<longleftrightarrow> (\<exists>ks. its = out @ ks \<and> raw = map raw_of ks)"
proof (induction raw out rule: sid_items.induct)
  case (1 out)
  show ?case by auto
next
  case (2 it raw out)
  show ?case
  proof
    assume "sid_items (it # raw) out = Inr its"
    with 2 obtain n ks where "namespace_of (raw_namespace it) = Inr n"
      "its = (out @ [\<lparr>item_namespace = n, sid_identifier = raw_identifier it, item_sid = raw_sid it\<rparr>]) @ ks"
      "raw = map raw_of ks"
      by (auto simp: rbind_eq_Inr)
    then show "\<exists>ks. its = out @ ks \<and> it # raw = map raw_of ks"
      by (intro exI [of _ "\<lparr>item_namespace = n, sid_identifier = raw_identifier it, item_sid = raw_sid it\<rparr> # ks"])
        (simp add: raw_of_def namespace_of_iff)
  next
    assume "\<exists>ks. its = out @ ks \<and> it # raw = map raw_of ks"
    then obtain k ks where ks: "its = out @ k # ks" "it = raw_of k" "raw = map raw_of ks" by auto
    then have "namespace_of (raw_namespace it) = Inr (item_namespace k)"
      by (simp add: namespace_of_iff raw_of_def)
    with ks 2 show "sid_items (it # raw) out = Inr its" by (auto simp: raw_of_def)
  qed
qed

end
