(* ===== verification/Yang_Json.thy ===== *)
theory Yang_Json
  imports Yang_Parser
begin

text \<open>
  The JSON values of the codec (\<open>serde_json::Value\<close> with the \<open>preserve_order\<close> feature: an
  object is a list of members in insertion order, with distinct names) and the conversions
  between integers and text that it uses (\<open>to_string\<close> and \<open>str::parse\<close>), with the methods
  of \<open>str\<close> that work on characters rather than bytes.
\<close>

section \<open>Values\<close>

text \<open>
  A number is an integer between \<open>- 2 ^ 63\<close> and \<open>2 ^ 64 - 1\<close>, or a fractional one, of which
  only the text matters here.
\<close>

datatype number = NInt int | NFloat string

datatype json =
  JNull
| JBool bool
| JNumber number
| JString string
| JArray "json list"
| JObject "(string \<times> json) list"

definition as_i64 :: "json \<Rightarrow> int option" where
  "as_i64 v = (case v of
     JNumber (NInt i) \<Rightarrow> (if - (2 ^ 63) \<le> i \<and> i < 2 ^ 63 then Some i else None)
   | _ \<Rightarrow> None)"

definition as_u64 :: "json \<Rightarrow> int option" where
  "as_u64 v = (case v of
     JNumber (NInt i) \<Rightarrow> (if 0 \<le> i \<and> i < 2 ^ 64 then Some i else None)
   | _ \<Rightarrow> None)"

definition as_str :: "json \<Rightarrow> string option" where
  "as_str v = (case v of JString s \<Rightarrow> Some s | _ \<Rightarrow> None)"

definition as_json_bool :: "json \<Rightarrow> bool option" where
  "as_json_bool v = (case v of JBool b \<Rightarrow> Some b | _ \<Rightarrow> None)"

definition as_json_array :: "json \<Rightarrow> json list option" where
  "as_json_array v = (case v of JArray xs \<Rightarrow> Some xs | _ \<Rightarrow> None)"

definition as_object :: "json \<Rightarrow> (string \<times> json) list option" where
  "as_object v = (case v of JObject es \<Rightarrow> Some es | _ \<Rightarrow> None)"

lemmas json_access_defs = as_str_def as_json_bool_def as_json_array_def as_object_def

text \<open>\<open>Map::insert\<close> replaces the value of a name in place, and appends a new name.\<close>

fun obj_insert :: "string \<Rightarrow> 'a \<Rightarrow> (string \<times> 'a) list \<Rightarrow> (string \<times> 'a) list" where
  "obj_insert k v [] = [(k, v)]"
| "obj_insert k v ((k', v') # es) = (if k' = k then (k, v) # es else (k', v') # obj_insert k v es)"

lemma obj_insert_new: "k \<notin> fst ` set es \<Longrightarrow> obj_insert k v es = es @ [(k, v)]"
  by (induction k v es rule: obj_insert.induct) auto

lemma obj_insert_keys: "fst ` set (obj_insert k v es) = insert k (fst ` set es)"
  by (induction k v es rule: obj_insert.induct) auto

section \<open>Integers as text\<close>

definition digit_char :: "nat \<Rightarrow> char" where
  "digit_char n = char_of (48 + n)"

definition is_digit :: "char \<Rightarrow> bool" where
  "is_digit c \<longleftrightarrow> 48 \<le> (of_char c :: nat) \<and> (of_char c :: nat) \<le> 57"

fun nat_text :: "nat \<Rightarrow> string" where
  "nat_text n = (if n < 10 then [digit_char n] else nat_text (n div 10) @ [digit_char (n mod 10)])"

declare nat_text.simps [simp del]

definition int_text :: "int \<Rightarrow> string" where
  "int_text i = (if i < 0 then CHR ''-'' # nat_text (nat (- i)) else nat_text (nat i))"

definition digits_value :: "string \<Rightarrow> nat" where
  "digits_value s = foldl (\<lambda>acc c. acc * 10 + (of_char c - 48)) 0 s"

definition parse_digits :: "string \<Rightarrow> nat option" where
  "parse_digits s = (if s \<noteq> [] \<and> list_all is_digit s then Some (digits_value s) else None)"

text \<open>
  \<open>str::parse\<close> for an integer type with the given bounds: an optional sign (a minus only for
  a signed type), then at least one digit, and a value within the bounds.
\<close>

definition parse_int :: "int \<Rightarrow> int \<Rightarrow> string \<Rightarrow> int option" where
  "parse_int lo hi s =
    (let (neg, ds) = (case s of
         [] \<Rightarrow> (False, [])
       | c # r \<Rightarrow> if c = CHR ''-'' \<and> lo < 0 then (True, r) else if c = CHR ''+'' then (False, r) else (False, s))
     in case parse_digits ds of
          None \<Rightarrow> None
        | Some n \<Rightarrow> (let i = (if neg then - int n else int n) in if lo \<le> i \<and> i \<le> hi then Some i else None))"

definition parse_i64 :: "string \<Rightarrow> int option" where
  "parse_i64 s = parse_int (- (2 ^ 63)) (2 ^ 63 - 1) s"

definition parse_u64 :: "string \<Rightarrow> int option" where
  "parse_u64 s = parse_int 0 (2 ^ 64 - 1) s"

definition parse_i128 :: "string \<Rightarrow> int option" where
  "parse_i128 s = parse_int (- (2 ^ 127)) (2 ^ 127 - 1) s"

lemma of_char_digit [simp]: "n < 10 \<Longrightarrow> (of_char (digit_char n) :: nat) = 48 + n"
  by (simp add: digit_char_def)

lemma is_digit_digit_char [simp]: "n < 10 \<Longrightarrow> is_digit (digit_char n)"
  by (simp add: is_digit_def)

lemma nat_text_digits: "list_all is_digit (nat_text n)"
proof (induction n rule: nat_text.induct)
  case (1 n)
  then show ?case by (cases "n < 10") (simp_all add: nat_text.simps [of n])
qed

lemma nat_text_not_Nil [simp]: "nat_text n \<noteq> []"
  by (simp add: nat_text.simps)

lemma digits_value_snoc: "digits_value (s @ [c]) = digits_value s * 10 + (of_char c - 48)"
  by (simp add: digits_value_def)

lemma digits_value_nat_text: "digits_value (nat_text n) = n"
proof (induction n rule: nat_text.induct)
  case (1 n)
  show ?case
  proof (cases "n < 10")
    case True
    then show ?thesis by (simp add: nat_text.simps [of n] digits_value_def)
  next
    case False
    with 1 show ?thesis by (simp add: nat_text.simps [of n] digits_value_snoc)
  qed
qed

lemma parse_digits_nat_text [simp]: "parse_digits (nat_text n) = Some n"
  by (simp add: parse_digits_def nat_text_digits digits_value_nat_text)

lemma nat_text_hd_digit: "nat_text n = c # r \<Longrightarrow> is_digit c"
  using nat_text_digits [of n] by simp

lemma parse_int_text: "lo \<le> i \<Longrightarrow> i \<le> hi \<Longrightarrow> parse_int lo hi (int_text i) = Some i"
proof (cases "i < 0")
  case True
  moreover assume "lo \<le> i" "i \<le> hi"
  ultimately show ?thesis by (simp add: parse_int_def int_text_def)
next
  case False
  assume "lo \<le> i" "i \<le> hi"
  moreover obtain c r where cr: "nat_text (nat i) = c # r" by (cases "nat_text (nat i)") auto
  moreover from nat_text_hd_digit [OF cr] have "c \<noteq> CHR ''-''" "c \<noteq> CHR ''+''"
    by (auto simp: is_digit_def)
  moreover have "parse_digits (c # r) = Some (nat i)" using parse_digits_nat_text [of "nat i"] cr by simp
  ultimately show ?thesis using False by (simp add: parse_int_def int_text_def)
qed

lemma parse_int_bounds: "parse_int lo hi s = Some i \<Longrightarrow> lo \<le> i \<and> i \<le> hi"
  by (auto simp: parse_int_def Let_def split: option.splits if_splits list.splits prod.splits)

section \<open>Text by characters\<close>

text \<open>\<open>trim\<close>, \<open>split_whitespace\<close>, \<open>chars().count()\<close> and \<open>split("..")\<close>\<close>

definition trim_start_chars :: "uchar list \<Rightarrow> uchar list" where
  "trim_start_chars cs = dropWhile is_whitespace cs"

definition str_trim :: "string \<Rightarrow> string" where
  "str_trim s = concat (rev (trim_start_chars (rev (trim_start_chars (str_chars s)))))"

fun words_of :: "uchar list \<Rightarrow> uchar list \<Rightarrow> uchar list list" where
  "words_of w [] = (if w = [] then [] else [w])"
| "words_of w (c # cs) =
    (if is_whitespace c then (if w = [] then words_of [] cs else w # words_of [] cs)
     else words_of (w @ [c]) cs)"

definition split_whitespace :: "string \<Rightarrow> string list" where
  "split_whitespace s = map concat (words_of [] (str_chars s))"

definition char_count :: "string \<Rightarrow> nat" where
  "char_count s = length (str_chars s)"

fun split_dots :: "string \<Rightarrow> string list" where
  "split_dots [] = [[]]"
| "split_dots [c] = [[c]]"
| "split_dots (c # d # s) =
    (if c = CHR ''.'' \<and> d = CHR ''.'' then [] # split_dots s
     else case split_dots (d # s) of [] \<Rightarrow> [[c]] | w # ws \<Rightarrow> (c # w) # ws)"

fun str_join :: "string \<Rightarrow> string list \<Rightarrow> string" where
  "str_join sep [] = []"
| "str_join sep [s] = s"
| "str_join sep (s # t # ss) = s @ sep @ str_join sep (t # ss)"

text \<open>ASCII text has one character for each byte.\<close>

definition ascii :: "string \<Rightarrow> bool" where
  "ascii s \<longleftrightarrow> list_all (\<lambda>c. (of_char c :: nat) < 128) s"

lemma str_chars_ascii: "ascii s \<Longrightarrow> str_chars s = map (\<lambda>c. [c]) s"
  by (induction s) (auto simp: ascii_def utf8_len_def Let_def)

lemma concat_singletons [simp]: "concat (map (\<lambda>c. [c]) s) = s"
  by (induction s) simp_all

lemma is_whitespace_ascii: "(of_char c :: nat) < 128 \<Longrightarrow>
    is_whitespace [c] \<longleftrightarrow> c \<in> {CHR 0x09, CHR 0x0A, CHR 0x0B, CHR 0x0C, CHR 0x0D, CHR 0x20}"
  by (auto simp: is_whitespace_def)

text \<open>Words without white space survive being joined with blanks and split again.\<close>

definition plain_word :: "string \<Rightarrow> bool" where
  "plain_word w \<longleftrightarrow> w \<noteq> [] \<and> ascii w \<and> list_all (\<lambda>c. \<not> is_whitespace [c]) w"

lemma words_of_word:
  "list_all (\<lambda>c. \<not> is_whitespace c) cs \<Longrightarrow> words_of w (cs @ rest) = words_of (w @ cs) rest"
  by (induction cs arbitrary: w) simp_all

lemma split_join_words: "list_all plain_word ws \<Longrightarrow> split_whitespace (str_join '' '' ws) = ws"
proof -
  assume ws: "list_all plain_word ws"
  have *: "map concat (words_of [] (map (\<lambda>c. [c]) (str_join '' '' ws))) = ws" using ws
  proof (induction "'' ''" ws rule: str_join.induct)
    case (2 w)
    then show ?case using words_of_word [of "map (\<lambda>c. [c]) w" "[]" "[]"]
      by (simp add: plain_word_def list.pred_map o_def)
  next
    case (3 w t ws)
    have "is_whitespace [CHR '' '']" by (simp add: is_whitespace_def)
    moreover have "list_all (\<lambda>c. \<not> is_whitespace c) (map (\<lambda>c. [c]) w)" "w \<noteq> []"
      using 3 by (simp_all add: plain_word_def list.pred_map o_def)
    ultimately show ?case using 3
        words_of_word [of "map (\<lambda>c. [c]) w" "[]" "map (\<lambda>c. [c]) ('' '' @ str_join '' '' (t # ws))"]
      by simp
  qed simp
  have "ascii (str_join '' '' ws)" using ws
    by (induction "'' ''" ws rule: str_join.induct) (auto simp: ascii_def plain_word_def)
  with * show ?thesis by (simp add: split_whitespace_def str_chars_ascii)
qed

end
