(* ===== verification/Yang_Schema.thy ===== *)
theory Yang_Schema
  imports Yang_Json
begin

text \<open>
  The schema that the codec reads (\<open>src/yang/src/schema.rs\<close>): types, nodes, identities and
  modules in arenas, and the accessors on them. A \<open>NodeRef\<close>, \<open>TypedefRef\<close> or
  \<open>IdentityRef\<close> is the schema with an index. A hash map is the list of its entries in the
  order an iteration visits them, with distinct keys; a hash set likewise.
\<close>

section \<open>Types\<close>

datatype yang_status = Current | Deprecated | Obsolete

datatype builtin =
  Binary | Bits | Boolean | Decimal64 | Empty | Enumeration | Identityref | InstanceIdentifier
| Int8 | Int16 | Int32 | Int64 | Uint8 | Uint16 | Uint32 | Uint64 | Leafref | String_type | Union_type

definition builtin_yang_name :: "builtin \<Rightarrow> string" where
  "builtin_yang_name b = (case b of
     Binary \<Rightarrow> ''binary'' | Bits \<Rightarrow> ''bits'' | Boolean \<Rightarrow> ''boolean'' | Decimal64 \<Rightarrow> ''decimal64''
   | Empty \<Rightarrow> ''empty'' | Enumeration \<Rightarrow> ''enumeration'' | Identityref \<Rightarrow> ''identityref''
   | InstanceIdentifier \<Rightarrow> ''instance-identifier'' | Int8 \<Rightarrow> ''int8'' | Int16 \<Rightarrow> ''int16''
   | Int32 \<Rightarrow> ''int32'' | Int64 \<Rightarrow> ''int64'' | Uint8 \<Rightarrow> ''uint8'' | Uint16 \<Rightarrow> ''uint16''
   | Uint32 \<Rightarrow> ''uint32'' | Uint64 \<Rightarrow> ''uint64'' | Leafref \<Rightarrow> ''leafref''
   | String_type \<Rightarrow> ''string'' | Union_type \<Rightarrow> ''union'')"

definition builtin_from_name :: "string \<Rightarrow> builtin option" where
  "builtin_from_name name =
    (if name = ''binary'' then Some Binary
     else if name = ''bits'' then Some Bits
     else if name = ''boolean'' then Some Boolean
     else if name = ''decimal64'' then Some Decimal64
     else if name = ''empty'' then Some Empty
     else if name = ''enumeration'' then Some Enumeration
     else if name = ''identityref'' then Some Identityref
     else if name = ''instance-identifier'' then Some InstanceIdentifier
     else if name = ''int8'' then Some Int8
     else if name = ''int16'' then Some Int16
     else if name = ''int32'' then Some Int32
     else if name = ''int64'' then Some Int64
     else if name = ''uint8'' then Some Uint8
     else if name = ''uint16'' then Some Uint16
     else if name = ''uint32'' then Some Uint32
     else if name = ''uint64'' then Some Uint64
     else if name = ''leafref'' then Some Leafref
     else if name = ''string'' then Some String_type
     else if name = ''union'' then Some Union_type
     else None)"

definition is_64bit_int :: "builtin \<Rightarrow> bool" where
  "is_64bit_int b \<longleftrightarrow> b \<in> {Int64, Uint64}"

record bit_def =
  bit_name :: string
  bit_pos :: u32

record enum_val =
  enum_name :: string
  enum_value :: i64

record error_info =
  error_message :: "string option"
  error_app_tag :: "string option"

definition no_error_info :: error_info where
  "no_error_info = \<lparr>error_message = None, error_app_tag = None\<rparr>"

definition error_info_read :: "stmt \<Rightarrow> error_info" where
  "error_info_read s =
    \<lparr>error_message = map_option arg_str (stmt_sub ''error-message'' s),
     error_app_tag = map_option arg_str (stmt_sub ''error-app-tag'' s)\<rparr>"

text \<open>\<open>Option::or_else\<close>\<close>

definition or_else :: "'a option \<Rightarrow> 'a option \<Rightarrow> 'a option" where
  "or_else a b = (case a of None \<Rightarrow> b | Some x \<Rightarrow> Some x)"

definition narrowed_by :: "error_info \<Rightarrow> stmt \<Rightarrow> error_info" where
  "narrowed_by e s =
    (let own = error_info_read s in
     \<lparr>error_message = or_else (error_message own) (error_message e),
      error_app_tag = or_else (error_app_tag own) (error_app_tag e)\<rparr>)"

record pattern_def =
  regex :: string
  invert_match :: bool
  pattern_error :: error_info

text \<open>
  A \<open>TypeDescriptor\<close>: its fields other than \<open>union_members\<close> are the record \<open>type_info\<close>.
  Bounds of ranges are \<open>i128\<close> values.
\<close>

record type_info =
  builtin_of :: builtin
  fraction_digits :: "u8 option"
  type_bits :: "bit_def list"
  type_enums :: "enum_val list"
  identity_bases :: "nat list"
  source_module :: "string option"
  leafref_path :: "string option"
  leafref_target :: "nat option"
  ranges :: "(int \<times> int) list"
  range_error :: error_info
  patterns :: "pattern_def list"
  type_base :: "nat option"
  identity_values :: "nat list option"
  require_instance :: bool
  type_default :: "string option"
  type_units :: "string option"

datatype type_descriptor =
  Type_descriptor (info: type_info) (union_members: "type_descriptor list")

definition type_info_new :: "builtin \<Rightarrow> type_info" where
  "type_info_new b =
    \<lparr>builtin_of = b, fraction_digits = None, type_bits = [], type_enums = [], identity_bases = [],
     source_module = None, leafref_path = None, leafref_target = None, ranges = [],
     range_error = no_error_info, patterns = [], type_base = None, identity_values = None,
     require_instance = True, type_default = None, type_units = None\<rparr>"

definition type_descriptor_new :: "builtin \<Rightarrow> type_descriptor" where
  "type_descriptor_new b = Type_descriptor (type_info_new b) []"

abbreviation builtin_type :: "type_descriptor \<Rightarrow> builtin" where
  "builtin_type ty \<equiv> builtin_of (info ty)"

record typedef_def =
  typedef_name :: string
  typedef_module :: string
  typedef_scope :: string
  typedef_description :: "string option"
  typedef_ty :: "type_descriptor option"

definition typedef_default :: "typedef_def \<Rightarrow> string option" where
  "typedef_default t = Option.bind (typedef_ty t) (\<lambda>ty. type_default (info ty))"

definition typedef_units :: "typedef_def \<Rightarrow> string option" where
  "typedef_units t = Option.bind (typedef_ty t) (\<lambda>ty. type_units (info ty))"

section \<open>Ranges\<close>

definition default_ranges :: "builtin \<Rightarrow> (int \<times> int) list" where
  "default_ranges b = (case b of
     Int8 \<Rightarrow> [(-128, 127)]
   | Int16 \<Rightarrow> [(-32768, 32767)]
   | Int32 \<Rightarrow> [(-2147483648, 2147483647)]
   | Int64 \<Rightarrow> [(-9223372036854775808, 9223372036854775807)]
   | Uint8 \<Rightarrow> [(0, 255)]
   | Uint16 \<Rightarrow> [(0, 65535)]
   | Uint32 \<Rightarrow> [(0, 4294967295)]
   | Uint64 \<Rightarrow> [(0, 18446744073709551615)]
   | Binary \<Rightarrow> [(0, 18446744073709551615)]
   | String_type \<Rightarrow> [(0, 18446744073709551615)]
   | _ \<Rightarrow> [])"

definition prev_min :: "(int \<times> int) list \<Rightarrow> int" where
  "prev_min prev = (case map fst prev of [] \<Rightarrow> 0 | x # xs \<Rightarrow> fold min xs x)"

definition prev_max :: "(int \<times> int) list \<Rightarrow> int" where
  "prev_max prev = (case map snd prev of [] \<Rightarrow> 0 | x # xs \<Rightarrow> fold max xs x)"

definition resolve_bound :: "(int \<times> int) list \<Rightarrow> string \<Rightarrow> int" where
  "resolve_bound prev tok =
    (if tok = ''min'' then prev_min prev
     else if tok = ''max'' then prev_max prev
     else case parse_i128 tok of Some i \<Rightarrow> i | None \<Rightarrow> prev_min prev)"

definition range_part :: "(int \<times> int) list \<Rightarrow> string \<Rightarrow> int \<times> int" where
  "range_part prev part =
    (case map str_trim (split_dots part) of
       [] \<Rightarrow> (resolve_bound prev [], resolve_bound prev [])
     | [min_tok] \<Rightarrow> (resolve_bound prev min_tok, resolve_bound prev min_tok)
     | min_tok # max_tok # _ \<Rightarrow> (resolve_bound prev min_tok, resolve_bound prev max_tok))"

definition restrict_range :: "(int \<times> int) list \<Rightarrow> string \<Rightarrow> (int \<times> int) list" where
  "restrict_range prev spec = map (range_part prev) (split_on (CHR ''|'') spec)"

section \<open>Identities\<close>

record identity =
  identity_name :: string
  identity_module :: string
  identity_description :: "string option"
  identity_base :: "nat list"
  derived :: "nat list"
  identity_sid :: "i64 option"

text \<open>
  The stack of identities to visit and the set of those visited. The loop ends: an identity
  that is not yet in the set joins it, or the stack shrinks. (An index outside the arena, which
  the builder never makes, is a panic in the code and skipped here.)
\<close>

function visit_derived :: "identity list \<Rightarrow> nat list \<Rightarrow> nat list \<Rightarrow> nat list" where
  "visit_derived identities out [] = out"
| "visit_derived identities out (i # stack) =
    (if i \<in> set out \<or> length identities \<le> i then visit_derived identities out stack
     else visit_derived identities (i # out) (rev (derived (identities ! i)) @ stack))"
  by pat_completeness auto
termination
proof (relation "measures [\<lambda>(ids, out, stack). card ({..<length ids} - set out), \<lambda>(ids, out, stack). length stack]")
  fix ids :: "identity list" and out :: "nat list" and i stack
  assume "\<not> (i \<in> set out \<or> length ids \<le> i)"
  then have "i \<in> {..<length ids} - set out" by simp
  then have "{..<length ids} - insert i (set out) \<subset> {..<length ids} - set out" by blast
  then have "card ({..<length ids} - insert i (set out)) < card ({..<length ids} - set out)"
    by (intro psubset_card_mono) auto
  then show "((ids, i # out, rev (derived (ids ! i)) @ stack), ids, out, i # stack)
      \<in> measures [\<lambda>(ids, out, stack). card ({..<length ids} - set out), \<lambda>(ids, out, stack). length stack]"
    by simp
qed auto

definition transitive_derived_excluding_self :: "identity list \<Rightarrow> nat \<Rightarrow> nat list" where
  "transitive_derived_excluding_self identities start =
     visit_derived identities [] (rev (derived (identities ! start)))"

definition derived_from_all :: "identity list \<Rightarrow> nat list \<Rightarrow> nat list" where
  "derived_from_all identities bases =
    (case bases of
       [] \<Rightarrow> []
     | first # rest \<Rightarrow>
         foldl (\<lambda>out b. filter (\<lambda>i. i \<in> set (transitive_derived_excluding_self identities b)) out)
           (transitive_derived_excluding_self identities first) rest)"

fun collect_identity_values :: "type_descriptor \<Rightarrow> nat list \<Rightarrow> nat list" where
  "collect_identity_values (Type_descriptor i members) out =
     fold collect_identity_values members
       (case identity_values i of None \<Rightarrow> out | Some values \<Rightarrow> List.union values out)"

end
