(* ===== verification/Yang_Arena.thy ===== *)
theory Yang_Arena
  imports Yang_Schema
begin

text \<open>
  The node arena of a schema and the accessors on it (\<open>Node\<close>, \<open>Module\<close>, \<open>Schema\<close>, \<open>NodeRef\<close>
  and the path functions of \<open>src/yang/src/schema.rs\<close>). An arena grows only by \<open>new_node\<close>,
  which gives a child a larger index than its parent; \<open>arena_ok\<close> states what follows from
  that, and makes the recursions over children and parents end.
\<close>

section \<open>Nodes, modules and the schema\<close>

record node =
  kw :: string
  node_name :: string
  parent :: "nat option"
  children :: "nat list"
  config :: "bool option"
  mandatory :: bool
  node_ty :: "type_descriptor option"
  node_keys :: "nat list"
  node_sid :: "i64 option"
  owner_module :: string
  node_description :: "string option"
  node_status :: "yang_status option"
  node_default :: "string option"
  node_defaults :: "string list"
  node_units :: "string option"
  own_defaults :: "string list"
  own_units :: "string option"
  min_elements :: u64
  is_key :: bool
  synthetic :: bool
  references_modules :: "string list"

definition local_part :: "string \<Rightarrow> string" where
  "local_part name = (case rsplit_once (CHR '':'') name of Some (_, n) \<Rightarrow> n | None \<Rightarrow> name)"

definition local_name :: "node \<Rightarrow> string" where
  "local_name n = local_part (node_name n)"

record yang_module =
  yang_module_name :: string
  module_namespace :: string
  revision :: "string option"
  module_sid :: "i64 option"
  root_nodes :: "nat list"
  deviated_by :: "string list"

record yang_data =
  yang_data_module :: string
  yang_data_name :: string
  yang_data_root :: nat

definition qualified_name :: "yang_data \<Rightarrow> string" where
  "qualified_name y = yang_data_module y @ '':'' @ yang_data_name y"

record import_only_module =
  import_name :: string
  import_namespace :: string
  import_revision_date :: "string option"
  import_sid :: "i64 option"

record schema =
  nodes :: "node list"
  typedefs :: "typedef_def list"
  identities :: "identity list"
  module_root :: "(string \<times> yang_module) list"
  import_only_modules :: "import_only_module list"
  yang_datas :: "yang_data list"
  structure_roots :: "(string \<times> nat) list"
  sid_index :: "(i64 \<times> nat) list"
  reachable_typedefs :: "nat list"
  reachable_identities :: "nat list"
  implemented_identities :: "nat list"

section \<open>Adding a node\<close>

text \<open>
  \<open>Builder::new_node\<close> on the arena and the modules. A node without a parent needs its module;
  without one the code panics, here \<open>None\<close>.
\<close>

definition fresh_node :: "string \<Rightarrow> string \<Rightarrow> string \<Rightarrow> nat option \<Rightarrow> bool option \<Rightarrow> bool \<Rightarrow> node" where
  "fresh_node k name owner par conf syn =
    \<lparr>kw = k, node_name = name, parent = par, children = [], config = conf, mandatory = False,
     node_ty = None, node_keys = [], node_sid = None, owner_module = owner, node_description = None,
     node_status = None, node_default = None, node_defaults = [], node_units = None,
     own_defaults = [], own_units = None, min_elements = 0, is_key = False, synthetic = syn,
     references_modules = []\<rparr>"

fun push_root :: "string \<Rightarrow> nat \<Rightarrow> (string \<times> yang_module) list \<Rightarrow> (string \<times> yang_module) list option" where
  "push_root owner i [] = None"
| "push_root owner i ((k, m) # ms) =
    (if k = owner then Some ((k, m\<lparr>root_nodes := root_nodes m @ [i]\<rparr>) # ms)
     else map_option ((#) (k, m)) (push_root owner i ms))"

definition new_node :: "string \<Rightarrow> string \<Rightarrow> string \<Rightarrow> nat option \<Rightarrow> bool \<Rightarrow> bool
    \<Rightarrow> node list \<times> (string \<times> yang_module) list \<Rightarrow> (nat \<times> node list \<times> (string \<times> yang_module) list) option" where
  "new_node k name owner par detached syn = (\<lambda>(ns, roots).
    (let i = length ns;
         conf = (if k \<in> {''rpc'', ''action'', ''notification''} then None
                 else case par of Some p \<Rightarrow> config (ns ! p) | None \<Rightarrow> Some True);
         ns' = ns @ [fresh_node k name owner par conf syn]
     in if detached then Some (i, ns', roots)
        else case par of
          Some p \<Rightarrow> Some (i, ns'[p := (ns' ! p)\<lparr>children := children (ns' ! p) @ [i]\<rparr>], roots)
        | None \<Rightarrow> map_option (\<lambda>r. (i, ns', r)) (push_root owner i roots)))"

text \<open>A parent comes before its children, and every index is in the arena.\<close>

definition links_ok :: "nat \<Rightarrow> nat \<Rightarrow> node \<Rightarrow> bool" where
  "links_ok n i nd \<longleftrightarrow>
     (\<forall>c \<in> set (children nd). i < c \<and> c < n)
   \<and> (case parent nd of None \<Rightarrow> True | Some p \<Rightarrow> p < i)
   \<and> (\<forall>k \<in> set (node_keys nd). k < n)"

definition arena_ok :: "node list \<Rightarrow> bool" where
  "arena_ok ns \<longleftrightarrow> (\<forall>i < length ns. links_ok (length ns) i (ns ! i))"

lemma arena_okD: "arena_ok ns \<Longrightarrow> i < length ns \<Longrightarrow> links_ok (length ns) i (ns ! i)"
  by (simp add: arena_ok_def)

lemma arena_ok_child: "arena_ok ns \<Longrightarrow> i < length ns \<Longrightarrow> c \<in> set (children (ns ! i)) \<Longrightarrow> i < c \<and> c < length ns"
  using arena_okD [of ns i] by (simp add: links_ok_def)

lemma arena_ok_parent: "arena_ok ns \<Longrightarrow> i < length ns \<Longrightarrow> parent (ns ! i) = Some p \<Longrightarrow> p < i \<and> p < length ns"
  using arena_okD [of ns i] by (simp add: links_ok_def)

lemma arena_ok_Nil: "arena_ok []"
  by (simp add: arena_ok_def)

lemma links_ok_Suc: "links_ok n i nd \<Longrightarrow> links_ok (Suc n) i nd"
  by (auto simp: links_ok_def)

lemma arena_ok_append_fresh:
  assumes ok: "arena_ok ns" and par: "case par of None \<Rightarrow> True | Some p \<Rightarrow> p < length ns"
  shows "arena_ok (ns @ [fresh_node k name owner par conf syn])"
  unfolding arena_ok_def
proof (intro allI impI)
  fix i assume i: "i < length (ns @ [fresh_node k name owner par conf syn])"
  show "links_ok (length (ns @ [fresh_node k name owner par conf syn])) i ((ns @ [fresh_node k name owner par conf syn]) ! i)"
  proof (cases "i < length ns")
    case True
    with ok show ?thesis by (simp add: nth_append links_ok_Suc arena_okD)
  next
    case False
    with i have "i = length ns" by simp
    with par show ?thesis by (simp add: links_ok_def fresh_node_def)
  qed
qed

lemma links_ok_add_child:
  "links_ok n p nd \<Longrightarrow> p < i \<Longrightarrow> i < n \<Longrightarrow> links_ok n p (nd\<lparr>children := children nd @ [i]\<rparr>)"
  by (simp add: links_ok_def)

lemma arena_ok_update:
  "arena_ok ns \<Longrightarrow> links_ok (length ns) p nd \<Longrightarrow> arena_ok (ns[p := nd])"
  by (cases "p < length ns") (auto simp: arena_ok_def nth_list_update)

lemma arena_ok_add_child:
  "arena_ok ns \<Longrightarrow> p < i \<Longrightarrow> i < length ns \<Longrightarrow>
     arena_ok (ns[p := (ns ! p)\<lparr>children := children (ns ! p) @ [i]\<rparr>])"
  by (intro arena_ok_update links_ok_add_child arena_okD) simp_all

lemma new_node_ok:
  assumes ok: "arena_ok ns" and par: "case par of None \<Rightarrow> True | Some p \<Rightarrow> p < length ns"
    and new: "new_node k name owner par detached syn (ns, roots) = Some (i, ns', roots')"
  shows "arena_ok ns' \<and> i = length ns \<and> length ns' = Suc (length ns)"
proof -
  obtain conf where new': "(let ms = ns @ [fresh_node k name owner par conf syn] in
       if detached then Some (length ns, ms, roots)
       else case par of
          Some p \<Rightarrow> Some (length ns, ms[p := (ms ! p)\<lparr>children := children (ms ! p) @ [length ns]\<rparr>], roots)
        | None \<Rightarrow> map_option (\<lambda>r. (length ns, ms, r)) (push_root owner (length ns) roots)) = Some (i, ns', roots')"
    using new unfolding new_node_def Let_def prod.case by blast
  define ms where "ms = ns @ [fresh_node k name owner par conf syn]"
  have ms: "arena_ok ms" "length ms = Suc (length ns)"
    using arena_ok_append_fresh [OF ok par] by (simp_all add: ms_def)
  have "par = Some p \<Longrightarrow> arena_ok (ms[p := (ms ! p)\<lparr>children := children (ms ! p) @ [length ns]\<rparr>])" for p
    using ms par by (intro arena_ok_add_child) simp_all
  with ms new' [folded ms_def] show ?thesis
    by (auto simp: Let_def split: if_splits option.splits)
qed

section \<open>Data children\<close>

text \<open>
  \<open>spliced\<close>: the given nodes with every choice and case replaced by its children. The first
  argument bounds the depth; the number of nodes is enough in a good arena.
\<close>

fun spliced_within :: "nat \<Rightarrow> node list \<Rightarrow> nat list \<Rightarrow> nat list" where
  "spliced_within d ns [] = []"
| "spliced_within 0 ns (i # ids) =
    (if kw (ns ! i) \<in> {''choice'', ''case''} then [] else [i]) @ spliced_within 0 ns ids"
| "spliced_within (Suc d) ns (i # ids) =
    (if kw (ns ! i) \<in> {''choice'', ''case''} then spliced_within d ns (children (ns ! i)) else [i])
    @ spliced_within (Suc d) ns ids"

definition spliced :: "node list \<Rightarrow> nat list \<Rightarrow> nat list" where
  "spliced ns ids = spliced_within (length ns) ns ids"

lemma spliced_within_Suc:
  "arena_ok ns \<Longrightarrow> \<forall>i \<in> set ids. i < length ns \<and> length ns \<le> d + i \<Longrightarrow>
     spliced_within (Suc d) ns ids = spliced_within d ns ids"
proof (induction d ns ids rule: spliced_within.induct)
  case (2 ns i ids)
  then show ?case by auto
next
  case (3 d ns i ids)
  have "\<forall>c \<in> set (children (ns ! i)). c < length ns \<and> length ns \<le> d + c"
    using 3 by (auto dest!: arena_ok_child)
  with 3 show ?case by simp
qed simp

lemma spliced_within_more:
  "arena_ok ns \<Longrightarrow> \<forall>i \<in> set ids. i < length ns \<and> length ns \<le> d + i \<Longrightarrow>
     spliced_within (d + e) ns ids = spliced_within d ns ids"
proof (induction e)
  case (Suc e)
  then have "spliced_within (Suc (d + e)) ns ids = spliced_within (d + e) ns ids"
    by (intro spliced_within_Suc) auto
  with Suc show ?case by simp
qed simp

lemma spliced_Nil [simp]: "spliced ns [] = []"
  by (simp add: spliced_def)

lemma spliced_within_Cons:
  "spliced_within (Suc d) ns (i # ids) =
    (if kw (ns ! i) \<in> {''choice'', ''case''} then spliced_within d ns (children (ns ! i)) else [i])
    @ spliced_within (Suc d) ns ids"
  by simp

lemma spliced_Cons:
  assumes "arena_ok ns" "i < length ns"
  shows "spliced ns (i # ids) =
    (if kw (ns ! i) \<in> {''choice'', ''case''} then spliced ns (children (ns ! i)) else [i]) @ spliced ns ids"
proof -
  obtain d where d: "length ns = Suc d" using assms by (cases "length ns") auto
  have "spliced_within (Suc d) ns (children (ns ! i)) = spliced_within d ns (children (ns ! i))"
    by (rule spliced_within_Suc) (use assms d in \<open>auto dest!: arena_ok_child\<close>)
  then show ?thesis unfolding spliced_def d spliced_within_Cons by simp
qed

lemma spliced_within_range:
  "arena_ok ns \<Longrightarrow> \<forall>i \<in> set ids. n < i \<and> i < length ns \<Longrightarrow> j \<in> set (spliced_within d ns ids) \<Longrightarrow>
     n < j \<and> j < length ns \<and> kw (ns ! j) \<noteq> ''choice'' \<and> kw (ns ! j) \<noteq> ''case''"
proof (induction d ns ids arbitrary: n rule: spliced_within.induct)
  case (2 ns i ids)
  then show ?case by (auto split: if_splits)
next
  case (3 d ns i ids)
  show ?case
  proof (cases "kw (ns ! i) \<in> {''choice'', ''case''}")
    case True
    have "\<forall>c \<in> set (children (ns ! i)). n < c \<and> c < length ns"
      using "3.prems" by (auto dest!: arena_ok_child)
    with True "3.prems" "3.IH" show ?thesis by auto
  next
    case False
    with "3.prems" "3.IH"(2) [OF "3.prems"(1)] show ?thesis by auto
  qed
qed simp

lemma spliced_within_bound:
  "arena_ok ns \<Longrightarrow> \<forall>i \<in> set ids. i < length ns \<Longrightarrow> j \<in> set (spliced_within d ns ids) \<Longrightarrow> j < length ns"
proof (induction d ns ids rule: spliced_within.induct)
  case (2 ns i ids)
  then show ?case by (auto split: if_splits)
next
  case (3 d ns i ids)
  have "\<forall>c \<in> set (children (ns ! i)). c < length ns" using "3.prems" by (auto dest!: arena_ok_child)
  with 3 show ?case by (auto split: if_splits)
qed simp

lemma spliced_range:
  "arena_ok ns \<Longrightarrow> p < length ns \<Longrightarrow> j \<in> set (spliced ns (children (ns ! p))) \<Longrightarrow>
     p < j \<and> j < length ns \<and> kw (ns ! j) \<noteq> ''choice'' \<and> kw (ns ! j) \<noteq> ''case''"
  unfolding spliced_def by (rule spliced_within_range) (auto dest!: arena_ok_child)

section \<open>Accessors\<close>

definition data_children :: "schema \<Rightarrow> nat \<Rightarrow> nat list" where
  "data_children S i = spliced (nodes S) (children (nodes S ! i))"

definition find_child :: "schema \<Rightarrow> nat \<Rightarrow> string \<Rightarrow> nat option" where
  "find_child S i name = find (\<lambda>c. node_name (nodes S ! c) = name) (children (nodes S ! i))"

definition find_data_child :: "schema \<Rightarrow> nat \<Rightarrow> string \<Rightarrow> nat option" where
  "find_data_child S i name = find (\<lambda>c. node_name (nodes S ! c) = name) (data_children S i)"

definition root_data_nodes :: "schema \<Rightarrow> yang_module \<Rightarrow> nat list" where
  "root_data_nodes S m = spliced (nodes S) (root_nodes m)"

definition node_by_sid :: "schema \<Rightarrow> i64 \<Rightarrow> nat option" where
  "node_by_sid S sid = map_of (sid_index S) sid"

definition identity_by_sid :: "schema \<Rightarrow> i64 \<Rightarrow> nat option" where
  "identity_by_sid S sid = position (\<lambda>i. identity_sid i = Some sid) (identities S)"

definition visible_identities :: "schema \<Rightarrow> nat list" where
  "visible_identities S = filter (\<lambda>i. i \<in> set (reachable_identities S)) [0..<length (identities S)]"

definition identity_by_name :: "schema \<Rightarrow> string \<Rightarrow> string \<Rightarrow> nat option" where
  "identity_by_name S m name =
     find (\<lambda>i. identity_module (identities S ! i) = m \<and> identity_name (identities S ! i) = name)
       (visible_identities S)"

definition is_implemented :: "schema \<Rightarrow> nat \<Rightarrow> bool" where
  "is_implemented S i \<longleftrightarrow> i \<in> set (implemented_identities S)"

definition visible_typedefs :: "schema \<Rightarrow> nat list" where
  "visible_typedefs S = filter (\<lambda>i. i \<in> set (reachable_typedefs S)) [0..<length (typedefs S)]"

definition typedef_by_name :: "schema \<Rightarrow> string \<Rightarrow> string \<Rightarrow> nat option" where
  "typedef_by_name S scope name =
     find (\<lambda>t. typedef_scope (typedefs S ! t) = scope \<and> typedef_name (typedefs S ! t) = name)
       (visible_typedefs S)"

definition module_by_name :: "schema \<Rightarrow> string \<Rightarrow> yang_module option" where
  "module_by_name S name = map_of (module_root S) name"

definition module_by_sid :: "schema \<Rightarrow> i64 \<Rightarrow> yang_module option" where
  "module_by_sid S sid = find (\<lambda>m. module_sid m = Some sid) (map snd (module_root S))"

definition root_data_node_by_name :: "schema \<Rightarrow> string \<Rightarrow> nat option" where
  "root_data_node_by_name S name =
     find (\<lambda>i. node_name (nodes S ! i) = name)
       (concat (map (\<lambda>m. spliced (nodes S) (root_nodes (snd m))) (module_root S)))"

section \<open>Paths\<close>

text \<open>The ancestors of a node, outermost first, the node last.\<close>

fun node_chain_within :: "nat \<Rightarrow> node list \<Rightarrow> nat \<Rightarrow> nat list" where
  "node_chain_within 0 ns i = [i]"
| "node_chain_within (Suc d) ns i =
    (case parent (ns ! i) of None \<Rightarrow> [i] | Some p \<Rightarrow> node_chain_within d ns p @ [i])"

definition node_chain :: "node list \<Rightarrow> nat \<Rightarrow> nat list" where
  "node_chain ns i = node_chain_within (length ns) ns i"

definition node_path_of :: "node list \<Rightarrow> nat \<Rightarrow> string" where
  "node_path_of ns i = concat (map (\<lambda>n. CHR ''/'' # node_name (ns ! n)) (node_chain ns i))"

definition node_namespace_module :: "node list \<Rightarrow> nat \<Rightarrow> string" where
  "node_namespace_module ns i =
    (case split_once (CHR '':'') (node_name (ns ! i)) of Some (m, _) \<Rightarrow> m | None \<Rightarrow> owner_module (ns ! i))"

definition segment_matches :: "node list \<Rightarrow> string \<Rightarrow> nat \<Rightarrow> bool" where
  "segment_matches ns seg candidate =
    (case split_once (CHR '':'') seg of
       Some (m, local) \<Rightarrow> local_name (ns ! candidate) = local \<and> node_namespace_module ns candidate = m
     | None \<Rightarrow> local_name (ns ! candidate) = seg)"

definition find_child_by_local_raw :: "node list \<Rightarrow> nat \<Rightarrow> string \<Rightarrow> nat option" where
  "find_child_by_local_raw ns par seg = find (segment_matches ns seg) (children (ns ! par))"

definition find_data_child_by_local_raw :: "node list \<Rightarrow> nat \<Rightarrow> string \<Rightarrow> nat option" where
  "find_data_child_by_local_raw ns par seg = find (segment_matches ns seg) (spliced ns (children (ns ! par)))"

fun descend_by_local :: "node list \<Rightarrow> nat \<Rightarrow> string list \<Rightarrow> nat option" where
  "descend_by_local ns cur [] = Some cur"
| "descend_by_local ns cur (seg # segs) =
    Option.bind (find_child_by_local_raw ns cur seg) (\<lambda>c. descend_by_local ns c segs)"

fun descend_by_data_local :: "node list \<Rightarrow> nat \<Rightarrow> string list \<Rightarrow> nat option" where
  "descend_by_data_local ns cur [] = Some cur"
| "descend_by_data_local ns cur (seg # segs) =
    Option.bind (find_data_child_by_local_raw ns cur seg) (\<lambda>c. descend_by_data_local ns c segs)"

definition path_segments :: "string \<Rightarrow> string list" where
  "path_segments path = filter (\<lambda>s. s \<noteq> []) (split_on (CHR ''/'') path)"

definition resolve_schema_path :: "node list \<Rightarrow> (string \<times> yang_module) list \<Rightarrow> string \<Rightarrow> nat option" where
  "resolve_schema_path ns roots path =
    (case path_segments path of
       [] \<Rightarrow> None
     | first # segs \<Rightarrow>
         (case split_once (CHR '':'') first of
            None \<Rightarrow> None
          | Some (m, first_local) \<Rightarrow>
              Option.bind (map_of roots m) (\<lambda>md.
              Option.bind (find (\<lambda>i. local_name (ns ! i) = first_local) (root_nodes md)) (\<lambda>i.
              descend_by_local ns i segs))))"

definition resolve_yang_data_path :: "node list \<Rightarrow> nat list \<Rightarrow> string \<Rightarrow> nat option" where
  "resolve_yang_data_path ns roots path =
    (case path_segments path of
       [] \<Rightarrow> None
     | first # segs \<Rightarrow>
         Option.bind (find (\<lambda>i. node_name (ns ! i) = first) roots) (\<lambda>i. descend_by_local ns i segs))"

definition node_by_schema_path :: "schema \<Rightarrow> string \<Rightarrow> nat option" where
  "node_by_schema_path S path = resolve_schema_path (nodes S) (module_root S) path"

definition node_by_data_path :: "schema \<Rightarrow> string \<Rightarrow> nat option" where
  "node_by_data_path S path =
    (case path_segments path of
       [] \<Rightarrow> None
     | first # segs \<Rightarrow>
         Option.bind (root_data_node_by_name S first) (\<lambda>i. descend_by_data_local (nodes S) i segs))"

lemma find_data_child_range:
  "arena_ok (nodes S) \<Longrightarrow> p < length (nodes S) \<Longrightarrow> find_data_child S p name = Some c \<Longrightarrow>
     p < c \<and> c < length (nodes S) \<and> node_name (nodes S ! c) = name"
proof -
  assume ok: "arena_ok (nodes S)" "p < length (nodes S)" and c: "find_data_child S p name = Some c"
  from c have "c \<in> set (spliced (nodes S) (children (nodes S ! p)))" "node_name (nodes S ! c) = name"
    unfolding find_data_child_def data_children_def by (auto simp: find_Some_iff)
  with spliced_range [OF ok] show ?thesis by blast
qed

lemma node_chain_within_Suc:
  "arena_ok ns \<Longrightarrow> i < length ns \<Longrightarrow> i \<le> d \<Longrightarrow> node_chain_within (Suc d) ns i = node_chain_within d ns i"
proof (induction d ns i rule: node_chain_within.induct)
  case (1 ns i)
  then show ?case using arena_ok_parent [of ns i] by (cases "parent (ns ! i)") auto
next
  case (2 d ns i)
  show ?case
  proof (cases "parent (ns ! i)")
    case (Some p)
    with arena_ok_parent [OF "2.prems"(1,2) Some] "2.prems"(3) "2.IH" [OF Some "2.prems"(1)] show ?thesis
      by simp
  qed simp
qed

text \<open>The walk to the root, as the loop of the code has it.\<close>

lemma node_chain_unfold:
  assumes "arena_ok ns" "i < length ns"
  shows "node_chain ns i = (case parent (ns ! i) of None \<Rightarrow> [i] | Some p \<Rightarrow> node_chain ns p @ [i])"
proof -
  obtain d where d: "length ns = Suc d" using assms by (cases "length ns") auto
  have "parent (ns ! i) = Some p \<Longrightarrow> node_chain_within (Suc d) ns p = node_chain_within d ns p" for p
    by (rule node_chain_within_Suc) (use assms d in \<open>auto dest!: arena_ok_parent\<close>)
  then show ?thesis unfolding node_chain_def d by (auto split: option.splits)
qed

end
