(* ===== verification/Yang_Values.thy ===== *)
theory Yang_Values
  imports Yang_Arena Cbor_Decode
begin

text \<open>
  The parts of the SID codec (\<open>src/yang/src/codec.rs\<close>) that look at one value and its type
  only: restrictions, the generic mapping of JSON to CBOR, decimals, enumerations, bits and
  base64. An error is a constructor with the values its message quotes; the texts that the
  code computes from the schema (ranges, patterns, the schema's own error messages) are
  computed here too.
\<close>

section \<open>Errors\<close>

datatype codec_error =
  Custom string
| Tagged codec_error string
| Expected string json
| Unexpected string cbor
| Number_not_allowed int string
| Length_not_allowed nat string
| Pattern_not_matched string string
| Invalid_pattern string
| Invalid_text string string
| Not_base64 string
| Too_many_decimals string nat
| Unknown_value string
| Catalog_problem string
| No_union_member json string
| No_union_member_cbor cbor string
| Unmatched_bracket string
| Not_a_selector string string
| Unknown_segment string string
| No_sid string
| Not_a_key string string
| Not_a_list string string
| Empty_path string
| Malformed cbor
| Unknown_sid i64
| Not_a_field string string
| Missing_field string string
| Unsupported_shape string string
| Side_unknown string i64
| Undecodable cbor_error
| Bad_entry string string
| Not_single_key string "string list"
| Not_a_sequence string
| Too_deep

type_synonym 'a codec = "codec_error + 'a"

text \<open>
  What the codec takes from outside: the schema, the regular expressions (\<open>regex_lite\<close>:
  whether an expression matches a text, nothing when it does not compile), the text of the
  float \<open>m * 10.powi(e)\<close> for the integers \<open>m\<close> and \<open>e\<close>, and the text of a JSON value
  (\<open>Display\<close> of \<open>serde_json::Value\<close>). \<open>depth\<close> bounds the nesting of calls of the type
  codec, as the machine stack does in the code.
\<close>

record codec_env =
  the_schema :: schema
  regex_match :: "string \<Rightarrow> string \<Rightarrow> bool option"
  float_text :: "int \<Rightarrow> int \<Rightarrow> string"
  json_text :: "json \<Rightarrow> string"
  depth :: nat

definition lenient :: "'a codec \<Rightarrow> bool \<Rightarrow> 'a \<Rightarrow> 'a codec" where
  "lenient result continue_on_error fallback =
    (case result of
       Inr v \<Rightarrow> Inr v
     | Inl e \<Rightarrow> (if continue_on_error then Inr fallback else Inl e))"

section \<open>Content formats\<close>

datatype content_format = Yang | Get | Put | Fetch | Ipatch | Post

definition upper_name :: "content_format \<Rightarrow> string" where
  "upper_name cf = (case cf of
     Yang \<Rightarrow> ''YANG'' | Get \<Rightarrow> ''GET'' | Put \<Rightarrow> ''PUT'' | Fetch \<Rightarrow> ''FETCH''
   | Ipatch \<Rightarrow> ''IPATCH'' | Post \<Rightarrow> ''POST'')"

definition is_sequence :: "content_format \<Rightarrow> bool" where
  "is_sequence cf \<longleftrightarrow> cf \<in> {Fetch, Ipatch, Post}"

section \<open>Restrictions\<close>

definition json_number_to_i128 :: "json \<Rightarrow> int option" where
  "json_number_to_i128 value = or_else (as_i64 value) (as_u64 value)"

text \<open>\<open>n as i64\<close>\<close>

definition trunc_i64 :: "int \<Rightarrow> int" where
  "trunc_i64 n = sint (word_of_int n :: i64)"

definition range_bound_i64 :: "int \<Rightarrow> int" where
  "range_bound_i64 v =
    (if - (2 ^ 63) \<le> v \<and> v < 2 ^ 63 then v else if v > 0 then 2 ^ 63 - 1 else - (2 ^ 63))"

definition in_ranges :: "int \<Rightarrow> (int \<times> int) list \<Rightarrow> bool" where
  "in_ranges value rs \<longleftrightarrow>
     rs = [] \<or> list_ex (\<lambda>(lo, hi). range_bound_i64 lo \<le> value \<and> value \<le> range_bound_i64 hi) rs"

definition range_description :: "(int \<times> int) list \<Rightarrow> string" where
  "range_description rs = str_join '', or ''
     (map (\<lambda>(lo, hi). let l = range_bound_i64 lo; h = range_bound_i64 hi in
        if l = h then ''exactly '' @ int_text l
        else ''between '' @ int_text l @ '' and '' @ int_text h) rs)"

fun first_failed_pattern :: "(string \<Rightarrow> string \<Rightarrow> bool option) \<Rightarrow> string \<Rightarrow> pattern_def list
    \<Rightarrow> pattern_def option codec" where
  "first_failed_pattern re s [] = Inr None"
| "first_failed_pattern re s (p # ps) =
    (case re (regex p) s of
       None \<Rightarrow> Inl (Invalid_pattern (regex p))
     | Some matched \<Rightarrow> if matched = invert_match p then Inr (Some p) else first_failed_pattern re s ps)"

definition describe_patterns :: "pattern_def list \<Rightarrow> string" where
  "describe_patterns ps =
     str_join '' and '' (map (\<lambda>p. if invert_match p then ''not '' @ regex p else regex p) ps)"

definition restriction_error :: "error_info \<Rightarrow> codec_error \<Rightarrow> codec_error" where
  "restriction_error e generic =
    (case (error_message e, error_app_tag e) of
       (Some text, Some tag) \<Rightarrow> Custom (text @ '' ('' @ tag @ '')'')
     | (Some text, None) \<Rightarrow> Custom text
     | (None, Some tag) \<Rightarrow> Tagged generic tag
     | (None, None) \<Rightarrow> generic)"

section \<open>Without a schema\<close>

fun json_to_cbor_generic :: "json \<Rightarrow> cbor" where
  "json_to_cbor_generic JNull = CNull"
| "json_to_cbor_generic (JBool b) = CBool b"
| "json_to_cbor_generic (JNumber n) =
    (case n of NInt i \<Rightarrow> CInteger i | NFloat t \<Rightarrow> CText t)"
| "json_to_cbor_generic (JString s) = CText s"
| "json_to_cbor_generic (JArray xs) = CArray (map json_to_cbor_generic xs)"
| "json_to_cbor_generic (JObject es) =
    CMap (map (\<lambda>e. (CText (fst e), json_to_cbor_generic (snd e))) es)"

definition cbor_as_i128 :: "cbor \<Rightarrow> int option" where
  "cbor_as_i128 v = (case v of CInteger i \<Rightarrow> Some i | _ \<Rightarrow> None)"

definition cbor_scalar_passthrough_to_json :: "cbor \<Rightarrow> json codec" where
  "cbor_scalar_passthrough_to_json v = (case v of
     CText s \<Rightarrow> Inr (JString s)
   | CBool b \<Rightarrow> Inr (JBool b)
   | CInteger i \<Rightarrow> Inr (JNumber (NInt (trunc_i64 i)))
   | CNull \<Rightarrow> Inr JNull
   | _ \<Rightarrow> Inl (Malformed v))"

section \<open>Decimals\<close>

definition encode_decimal64 :: "type_info \<Rightarrow> json \<Rightarrow> cbor codec" where
  "encode_decimal64 ty value =
     rbind (ok_or (Catalog_problem ''fraction-digits'') (fraction_digits ty)) (\<lambda>fd.
     rbind (ok_or (Expected ''a decimal number written as text'' value) (as_str value)) (\<lambda>s.
     (let digits = unat fd;
          (sign, rest) = (case strip_prefix ''-'' s of Some r \<Rightarrow> (-1, r) | None \<Rightarrow> (1, s));
          (int_part0, frac_part) = (case split_once (CHR ''.'') rest of Some p \<Rightarrow> p | None \<Rightarrow> (rest, []));
          int_part = (if int_part0 = [] then ''0'' else int_part0)
      in if digits < length frac_part then Inl (Too_many_decimals s digits)
         else
           (let padded_frac = frac_part @ replicate (digits - char_count frac_part) (CHR ''0'') in
            rbind (ok_or (Invalid_text ''decimal number'' s) (parse_i128 (int_part @ padded_frac))) (\<lambda>m.
            Inr (CTag 4 (CArray [CInteger (- int digits), CInteger (trunc_i64 (sign * m))])))))))"

definition decimal64_tag_parts :: "cbor \<Rightarrow> (int \<times> int) codec" where
  "decimal64_tag_parts v = (case v of
     CTag t inner \<Rightarrow>
       if t = 4 then
         (case inner of
            CArray [e, m] \<Rightarrow>
              rbind (ok_or (Malformed e) (cbor_as_i128 e)) (\<lambda>exp.
              rbind (ok_or (Malformed m) (cbor_as_i128 m)) (\<lambda>mantissa.
              Inr (trunc_i64 exp, mantissa)))
          | _ \<Rightarrow> Inl (Malformed inner))
       else Inl (Unexpected ''a decimal number'' v)
   | _ \<Rightarrow> Inl (Unexpected ''a decimal number'' v))"

definition decode_decimal64 :: "codec_env \<Rightarrow> cbor \<Rightarrow> json codec" where
  "decode_decimal64 E v =
     rbind (decimal64_tag_parts v) (\<lambda>(exp, mantissa).
     Inr (JString (float_text E mantissa (sint (word_of_int exp :: 32 word)))))"

section \<open>Enumerations\<close>

definition encode_enum :: "type_info \<Rightarrow> json \<Rightarrow> bool \<Rightarrow> cbor codec" where
  "encode_enum ty value in_union =
     rbind (ok_or (Expected ''one of the allowed text values'' value) (as_str value)) (\<lambda>name.
     rbind (ok_or (Unknown_value name) (find (\<lambda>e. enum_name e = name) (type_enums ty))) (\<lambda>e.
     Inr (if in_union then CTag 44 (CText name) else CInteger (sint (enum_value e)))))"

definition decode_enum :: "type_info \<Rightarrow> cbor \<Rightarrow> bool \<Rightarrow> json codec" where
  "decode_enum ty v in_union =
    (case (if in_union then (case v of CTag t inner \<Rightarrow> if t = 44 then Some inner else None | _ \<Rightarrow> None) else None) of
       Some inner \<Rightarrow> rbind (ok_or (Unexpected ''text (an enum value)'' inner) (as_text inner)) (\<lambda>name. Inr (JString name))
     | None \<Rightarrow>
         rbind (ok_or (Unexpected ''a whole number (an enum value)'' v) (cbor_as_i128 v)) (\<lambda>n.
         (case find (\<lambda>e. sint (enum_value e) = n) (type_enums ty) of
            Some e \<Rightarrow> Inr (JString (enum_name e))
          | None \<Rightarrow> Inr (JNumber (NInt (trunc_i64 n))))))"

section \<open>Bits\<close>

definition bit_names_of :: "json \<Rightarrow> string list option" where
  "bit_names_of value = (case value of
     JString s \<Rightarrow> Some (split_whitespace s)
   | JArray xs \<Rightarrow> Some (List.map_filter as_str xs)
   | _ \<Rightarrow> None)"

text \<open>\<open>bytes[(p / 8) as usize] |= 1 << (p % 8)\<close> for every position\<close>

definition set_bit_at :: "bytes \<Rightarrow> u32 \<Rightarrow> bytes" where
  "set_bit_at bs p =
     bs[unat (p div 8) := bs ! unat (p div 8) OR push_bit (unat (p mod 8)) 1]"

function spans_from :: "u32 \<Rightarrow> bytes \<Rightarrow> cbor list" where
  "spans_from pending_gap [] = []"
| "spans_from pending_gap (b # bs) =
    (if b = 0 then spans_from (pending_gap + 1) bs
     else (if pending_gap > 0 then [CInteger (uint pending_gap)] else [])
       @ CBytes (takeWhile (\<lambda>x. x \<noteq> 0) (b # bs))
       # spans_from 0 (dropWhile (\<lambda>x. x \<noteq> 0) (b # bs)))"
  by pat_completeness auto
termination
  by (relation "measure (\<lambda>(g, bs). length bs)") (auto simp: less_Suc_eq_le length_dropWhile_le)

definition bits_bytes_to_spans :: "bytes \<Rightarrow> cbor list" where
  "bits_bytes_to_spans bs = spans_from 0 bs"

definition bit_position :: "type_info \<Rightarrow> string \<Rightarrow> u32 codec" where
  "bit_position ty name =
     rbind (ok_or (Unknown_value name) (find (\<lambda>b. bit_name b = name) (type_bits ty))) (\<lambda>b.
     Inr (bit_pos b))"

definition encode_positions :: "u32 list \<Rightarrow> cbor" where
  "encode_positions ps =
    (if ps = [] then CArray []
     else
       (let max_byte = unat (last ps div 8);
            bytes = foldl set_bit_at (replicate (max_byte + 1) 0) ps;
            spans = bits_bytes_to_spans bytes
        in case spans of [CBytes b] \<Rightarrow> CBytes b | _ \<Rightarrow> CArray spans))"

definition encode_bits :: "type_info \<Rightarrow> json \<Rightarrow> bool \<Rightarrow> cbor codec" where
  "encode_bits ty value in_union =
     rbind (ok_or (Expected ''a list of names'' value) (bit_names_of value)) (\<lambda>names.
     if in_union then Inr (CTag 43 (CText (str_join '' '' names)))
     else rbind (rmap (bit_position ty) names) (\<lambda>positions. Inr (encode_positions (sort positions))))"

text \<open>The names of the bits set in a span that starts at \<open>byte_offset\<close>.\<close>

definition bit_at :: "type_info \<Rightarrow> u32 \<Rightarrow> u8 \<Rightarrow> nat \<Rightarrow> nat \<Rightarrow> string list" where
  "bit_at ty byte_offset byte i k =
    (if byte AND push_bit k 1 \<noteq> 0 then
       (case find (\<lambda>x. bit_pos x = (byte_offset + word_of_nat i) * 8 + word_of_nat k) (type_bits ty) of
          Some d \<Rightarrow> [bit_name d] | None \<Rightarrow> [])
     else [])"

definition span_names :: "type_info \<Rightarrow> u32 \<Rightarrow> bytes \<Rightarrow> string list" where
  "span_names ty byte_offset b =
     concat (map (\<lambda>i. concat (map (bit_at ty byte_offset (b ! i) i) [0..<8])) [0..<length b])"

fun decode_spans :: "type_info \<Rightarrow> u32 \<Rightarrow> string list \<Rightarrow> cbor list \<Rightarrow> string list codec" where
  "decode_spans ty byte_offset names [] = Inr names"
| "decode_spans ty byte_offset names (v # vs) = (case v of
     CInteger i \<Rightarrow> decode_spans ty (byte_offset + word_of_int i) names vs
   | CBytes b \<Rightarrow>
       decode_spans ty (byte_offset + word_of_nat (length b)) (names @ span_names ty byte_offset b) vs
   | _ \<Rightarrow> Inl (Malformed v))"

definition decode_bits :: "type_info \<Rightarrow> cbor \<Rightarrow> bool \<Rightarrow> json codec" where
  "decode_bits ty v in_union =
    (case (if in_union then (case v of CTag t inner \<Rightarrow> if t = 43 then Some inner else None | _ \<Rightarrow> None) else None) of
       Some inner \<Rightarrow> rbind (ok_or (Unexpected ''text (a list of names)'' inner) (as_text inner)) (\<lambda>s. Inr (JString s))
     | None \<Rightarrow>
         rbind (case v of
             CBytes _ \<Rightarrow> Inr [v]
           | CArray vs \<Rightarrow> Inr vs
           | _ \<Rightarrow> Inl (Unexpected ''bit-flag data'' v)) (\<lambda>spans.
         rbind (decode_spans ty 0 [] spans) (\<lambda>names. Inr (JString (str_join '' '' names)))))"

section \<open>Base64\<close>

definition B64_ALPHABET :: string where
  "B64_ALPHABET = ''ABCDEFGHIJKLMNOPQRSTUVWXYZabcdefghijklmnopqrstuvwxyz0123456789+/''"

definition b64_char :: "u32 \<Rightarrow> char" where
  "b64_char n = B64_ALPHABET ! unat (n AND 0x3F)"

definition encode_chunk :: "bytes \<Rightarrow> string" where
  "encode_chunk chunk =
    (let b0 = chunk ! 0;
         b1 = (if 1 < length chunk then chunk ! 1 else 0);
         b2 = (if 2 < length chunk then chunk ! 2 else 0);
         n = (push_bit 16 (ucast b0) OR push_bit 8 (ucast b1) OR ucast b2 :: u32)
     in [b64_char (drop_bit 18 n), b64_char (drop_bit 12 n),
         if 1 < length chunk then b64_char (drop_bit 6 n) else CHR ''='',
         if 2 < length chunk then b64_char n else CHR ''=''])"

text \<open>\<open>chunks(n)\<close>: slices of \<open>n\<close> elements, the last one shorter.\<close>

function chunks_of :: "nat \<Rightarrow> 'a list \<Rightarrow> 'a list list" where
  "chunks_of n xs = (if xs = [] \<or> n = 0 then [] else take n xs # chunks_of n (drop n xs))"
  by pat_completeness auto
termination
  by (relation "measure (\<lambda>(n, xs). length xs)") auto

declare chunks_of.simps [simp del]

definition base64_encode :: "bytes \<Rightarrow> string" where
  "base64_encode data = concat (map encode_chunk (chunks_of 3 data))"

definition b64_val :: "u8 \<Rightarrow> u32 option" where
  "b64_val c =
    (if 0x41 \<le> c \<and> c \<le> 0x5A then Some (ucast (c - 0x41))
     else if 0x61 \<le> c \<and> c \<le> 0x7A then Some (ucast (c - 0x61 + 26))
     else if 0x30 \<le> c \<and> c \<le> 0x39 then Some (ucast (c - 0x30 + 52))
     else if c = 0x2B then Some 62
     else if c = 0x2F then Some 63
     else None)"

definition is_ascii_whitespace :: "u8 \<Rightarrow> bool" where
  "is_ascii_whitespace b \<longleftrightarrow> b \<in> {0x20, 0x09, 0x0A, 0x0C, 0x0D}"

definition decode_quad :: "u32 list \<Rightarrow> bytes" where
  "decode_quad vals =
    (let n = foldl (\<lambda>acc (i, v). acc OR push_bit (18 - 6 * i) v) 0 (enumerate 0 vals)
     in ucast (drop_bit 16 n) #
        (if 2 < length vals then [ucast (drop_bit 8 n)] else []) @
        (if 3 < length vals then [ucast n] else []))"

definition option_all :: "'a option list \<Rightarrow> 'a list option" where
  "option_all xs = (if None \<in> set xs then None else Some (map the xs))"

definition base64_decode :: "string \<Rightarrow> bytes codec" where
  "base64_decode s =
    (let clean = filter (\<lambda>b. b \<noteq> 0x3D \<and> \<not> is_ascii_whitespace b) (as_bytes s) in
     rbind (rmap (\<lambda>chunk. ok_or (Not_base64 s) (option_all (map b64_val chunk))) (chunks_of 4 clean)) (\<lambda>vals.
     Inr (concat (map decode_quad vals))))"

end
