(* ===== verification/Yang_Types.thy ===== *)
theory Yang_Types
  imports Yang_Values
begin

text \<open>
  The type-level codec of \<open>src/yang/src/codec.rs\<close>: leafrefs, identities, the choice of a
  union member, instance identifiers, and \<open>type_to_cbor\<close> and \<open>type_to_json\<close>. The last
  two recurse through the schema (a leafref to its target, a union to a member, an
  instance identifier to the keys in it), so they take the depth of nested calls as fuel
  and report \<open>Too_deep\<close> without any.
\<close>

section \<open>Leafrefs\<close>

definition target_type :: "schema \<Rightarrow> type_descriptor \<Rightarrow> type_descriptor option" where
  "target_type S ty = Option.bind (leafref_target (info ty)) (\<lambda>i. node_ty (nodes S ! i))"

text \<open>
  A chain of leafrefs that does not return to a node it has left is no longer than the arena.
\<close>

fun resolved_within :: "nat \<Rightarrow> schema \<Rightarrow> type_descriptor \<Rightarrow> type_descriptor" where
  "resolved_within 0 S ty = ty"
| "resolved_within (Suc d) S ty =
    (if builtin_type ty = Leafref then
       (case target_type S ty of Some t \<Rightarrow> resolved_within d S t | None \<Rightarrow> ty)
     else ty)"

definition resolved_type :: "schema \<Rightarrow> type_descriptor \<Rightarrow> type_descriptor" where
  "resolved_type S ty = resolved_within (Suc (length (nodes S))) S ty"

abbreviation resolved_builtin :: "schema \<Rightarrow> type_descriptor \<Rightarrow> builtin" where
  "resolved_builtin S ty \<equiv> builtin_type (resolved_type S ty)"

definition union_member_kinds :: "schema \<Rightarrow> type_descriptor \<Rightarrow> string" where
  "union_member_kinds S ty =
     str_join '', '' (map (\<lambda>m. builtin_yang_name (resolved_builtin S m)) (union_members ty))"

section \<open>Identities\<close>

definition module_or_empty :: "string option \<Rightarrow> string" where
  "module_or_empty m = (case m of Some s \<Rightarrow> s | None \<Rightarrow> [])"

definition identity_matches :: "schema \<Rightarrow> string \<Rightarrow> string \<Rightarrow> nat \<Rightarrow> bool" where
  "identity_matches S src s i =
    (let d = identities S ! i in
     case split_once (CHR '':'') s of
       Some (m, n) \<Rightarrow> identity_module d = m \<and> identity_name d = n
     | None \<Rightarrow> identity_module d = src \<and> identity_name d = s)"

definition encode_identityref :: "schema \<Rightarrow> type_descriptor \<Rightarrow> json \<Rightarrow> bool \<Rightarrow> cbor codec" where
  "encode_identityref S ty value in_union =
     rbind (ok_or (Expected ''the name of one of the allowed values'' value) (as_str value)) (\<lambda>s.
     rbind (ok_or (Catalog_problem ''identity values'') (identity_values (info ty))) (\<lambda>candidates.
     rbind (ok_or (Unknown_value s)
       (find (identity_matches S (module_or_empty (source_module (info ty))) s) candidates)) (\<lambda>i.
     rbind (ok_or (No_sid s) (identity_sid (identities S ! i))) (\<lambda>sid.
     Inr (if in_union then CTag 45 (CInteger (sint sid)) else CInteger (sint sid))))))"

definition identityref_sid :: "cbor \<Rightarrow> bool \<Rightarrow> int codec" where
  "identityref_sid v in_union =
    (if in_union then
       (case v of
          CTag t inner \<Rightarrow>
            if t = 45 then ok_or (Unexpected ''a whole number (an identity reference)'' inner) (cbor_as_i128 inner)
            else Inl (Unexpected ''an identity reference (tag 45)'' v)
        | _ \<Rightarrow> Inl (Unexpected ''an identity reference (tag 45)'' v))
     else ok_or (Unexpected ''a whole number (an identity reference)'' v) (cbor_as_i128 v))"

definition decode_identityref :: "schema \<Rightarrow> cbor \<Rightarrow> bool \<Rightarrow> json codec" where
  "decode_identityref S v in_union =
     rbind (identityref_sid v in_union) (\<lambda>sid.
     rbind (ok_or (Unknown_sid (word_of_int sid)) (identity_by_sid S (word_of_int sid))) (\<lambda>i.
     Inr (JString (identity_module (identities S ! i) @ '':'' @ identity_name (identities S ! i)))))"

section \<open>The member of a union\<close>

text \<open>One predicate for each of the passes over the members, in the order of the code.\<close>

definition picks_identityref :: "schema \<Rightarrow> json \<Rightarrow> type_descriptor \<Rightarrow> bool" where
  "picks_identityref S value m =
    (let mt = resolved_type S m in
     builtin_type mt = Identityref \<and>
     (case (value, identity_values (info mt)) of
        (JString s, Some candidates) \<Rightarrow>
          list_ex (identity_matches S (module_or_empty (source_module (info mt))) s) candidates
      | _ \<Rightarrow> False))"

definition picks_enum :: "schema \<Rightarrow> json \<Rightarrow> type_descriptor \<Rightarrow> bool" where
  "picks_enum S value m =
    (let mt = resolved_type S m in
     builtin_type mt = Enumeration \<and>
     (case value of JString s \<Rightarrow> list_ex (\<lambda>e. enum_name e = s) (type_enums (info mt)) | _ \<Rightarrow> False))"

definition picks_bits :: "schema \<Rightarrow> json \<Rightarrow> type_descriptor \<Rightarrow> bool" where
  "picks_bits S value m =
    (let mt = resolved_type S m in
     builtin_type mt = Bits \<and>
     (case bit_names_of value of
        Some names \<Rightarrow> names \<noteq> [] \<and> list_all (\<lambda>n. list_ex (\<lambda>b. bit_name b = n) (type_bits (info mt))) names
      | None \<Rightarrow> False))"

definition picks_decimal64 :: "schema \<Rightarrow> json \<Rightarrow> type_descriptor \<Rightarrow> bool" where
  "picks_decimal64 S value m \<longleftrightarrow>
     resolved_builtin S m = Decimal64 \<and>
     (case value of
        JString s \<Rightarrow>
          list_all (\<lambda>c. is_digit c \<or> c = CHR ''.'') (dropWhile (\<lambda>c. c = CHR ''-'') s) \<and> CHR ''.'' \<in> set s
      | _ \<Rightarrow> False)"

definition picks_64bit :: "schema \<Rightarrow> json \<Rightarrow> type_descriptor \<Rightarrow> bool" where
  "picks_64bit S value m =
    (let b = resolved_builtin S m in
     is_64bit_int b \<and>
     (case value of
        JString s \<Rightarrow> (if b = Int64 then parse_i64 s \<noteq> None else parse_u64 s \<noteq> None)
      | _ \<Rightarrow> False))"

definition picks_native :: "schema \<Rightarrow> json \<Rightarrow> type_descriptor \<Rightarrow> bool" where
  "picks_native S value m =
    (let b = resolved_builtin S m in
     case value of
       JBool _ \<Rightarrow> b = Boolean
     | JNumber _ \<Rightarrow> b \<in> {Int8, Int16, Int32, Uint8, Uint16, Uint32}
     | JArray a \<Rightarrow> b = Empty \<and> a = [JNull]
     | _ \<Rightarrow> False)"

definition picks_string :: "schema \<Rightarrow> json \<Rightarrow> type_descriptor \<Rightarrow> bool" where
  "picks_string S value m \<longleftrightarrow> resolved_builtin S m = String_type \<and> as_str value \<noteq> None"

definition picks_binary_or_iid :: "schema \<Rightarrow> json \<Rightarrow> type_descriptor \<Rightarrow> bool" where
  "picks_binary_or_iid S value m \<longleftrightarrow>
     resolved_builtin S m \<in> {Binary, InstanceIdentifier} \<and> as_str value \<noteq> None"

fun first_pass :: "('a \<Rightarrow> bool) list \<Rightarrow> 'a list \<Rightarrow> 'a option" where
  "first_pass [] members = None"
| "first_pass (P # Ps) members =
    (case find P members of Some m \<Rightarrow> Some m | None \<Rightarrow> first_pass Ps members)"

definition pick_union_member_for_json :: "schema \<Rightarrow> type_descriptor \<Rightarrow> json \<Rightarrow> type_descriptor option" where
  "pick_union_member_for_json S ty value =
     first_pass
       [picks_identityref S value, picks_enum S value, picks_bits S value, picks_decimal64 S value,
        picks_64bit S value, picks_native S value, picks_string S value, picks_binary_or_iid S value]
       (union_members ty)"

definition tag_builtin :: "cbor \<Rightarrow> builtin option" where
  "tag_builtin v = (case v of
     CTag t _ \<Rightarrow>
       if t = 4 then Some Decimal64
       else if t = 43 then Some Bits
       else if t = 44 then Some Enumeration
       else if t = 45 then Some Identityref
       else None
   | _ \<Rightarrow> None)"

definition member_of_kind :: "schema \<Rightarrow> type_descriptor \<Rightarrow> builtin list \<Rightarrow> type_descriptor option" where
  "member_of_kind S ty bs = find (\<lambda>m. resolved_builtin S m \<in> set bs) (union_members ty)"

definition pick_union_member_for_cbor :: "schema \<Rightarrow> type_descriptor \<Rightarrow> cbor \<Rightarrow> type_descriptor option" where
  "pick_union_member_for_cbor S ty v =
    (case Option.bind (tag_builtin v) (\<lambda>b. member_of_kind S ty [b]) of
       Some m \<Rightarrow> Some m
     | None \<Rightarrow>
         (case v of
            CInteger n \<Rightarrow>
              (case (if - (2 ^ 31) \<le> n \<and> n < 2 ^ 32 then None else member_of_kind S ty [Int64, Uint64]) of
                 Some m \<Rightarrow> Some m
               | None \<Rightarrow> member_of_kind S ty [Int8, Int16, Int32, Uint8, Uint16, Uint32, Int64, Uint64])
          | CText _ \<Rightarrow> member_of_kind S ty [String_type, InstanceIdentifier]
          | CBytes _ \<Rightarrow> member_of_kind S ty [Binary]
          | CBool _ \<Rightarrow> member_of_kind S ty [Boolean]
          | CNull \<Rightarrow> member_of_kind S ty [Empty]
          | _ \<Rightarrow> None))"

section \<open>Instance identifiers as text\<close>

text \<open>
  The segments between slashes outside brackets: \<open>cur\<close> is the segment read so far.
\<close>

fun split_segments :: "int \<Rightarrow> string \<Rightarrow> string \<Rightarrow> string list" where
  "split_segments nesting cur [] = [cur]"
| "split_segments nesting cur (c # cs) =
    (if c = CHR ''['' then split_segments (nesting + 1) (cur @ [c]) cs
     else if c = CHR '']'' then split_segments (nesting - 1) (cur @ [c]) cs
     else if c = CHR ''/'' \<and> nesting = 0 then cur # split_segments 0 [] cs
     else split_segments nesting (cur @ [c]) cs)"

definition split_outside_brackets :: "string \<Rightarrow> string list" where
  "split_outside_brackets path = filter (\<lambda>s. s \<noteq> []) (split_segments 0 [] path)"

record iid_segment =
  seg_name :: string
  seg_keys :: "(string \<times> string) list"

definition strip_quotes :: "char \<Rightarrow> string \<Rightarrow> string option" where
  "strip_quotes q v = Option.bind (strip_prefix [q] v) (\<lambda>r. strip_suffix [q] r)"

definition unquote :: "string \<Rightarrow> string" where
  "unquote v =
    (case or_else (strip_quotes (CHR 0x27) v) (strip_quotes (CHR 0x22) v) of
       Some r \<Rightarrow> r | None \<Rightarrow> v)"

text \<open>The loop over the bracketed selectors of a segment.\<close>

function selectors :: "string \<Rightarrow> string \<Rightarrow> (string \<times> string) list codec" where
  "selectors seg r =
    (case split_once (CHR ''['') r of
       None \<Rightarrow> Inr []
     | Some (_, after) \<Rightarrow>
         (case split_once (CHR '']'') after of
            None \<Rightarrow> Inl (Unmatched_bracket seg)
          | Some (inner, rest) \<Rightarrow>
              (case split_once (CHR ''='') inner of
                 None \<Rightarrow> Inl (Not_a_selector inner seg)
               | Some (k, v) \<Rightarrow>
                   rbind (selectors seg rest) (\<lambda>ks. Inr ((k, unquote (str_trim v)) # ks)))))"
  by pat_completeness auto
termination
  by (relation "measure (\<lambda>(seg, r). length r)") (auto simp: split_once_Some)

declare selectors.simps [simp del]

definition parse_iid_segment :: "string \<Rightarrow> iid_segment codec" where
  "parse_iid_segment seg =
     rbind (selectors seg (dropWhile (\<lambda>c. c \<noteq> CHR ''['') seg)) (\<lambda>ks.
     Inr \<lparr>seg_name = takeWhile (\<lambda>c. c \<noteq> CHR ''['') seg, seg_keys = ks\<rparr>)"

definition convert_iid_key_value :: "schema \<Rightarrow> type_descriptor \<Rightarrow> string \<Rightarrow> json codec" where
  "convert_iid_key_value S ty raw =
    (let b = resolved_builtin S ty in
     if b \<in> {Int64, Uint64} then Inr (JString raw)
     else if b \<in> {Int8, Int16, Int32} then
       rbind (ok_or (Invalid_text ''whole number'' raw) (parse_i64 raw)) (\<lambda>n. Inr (JNumber (NInt n)))
     else if b \<in> {Uint8, Uint16, Uint32} then
       rbind (ok_or (Invalid_text ''whole number'' raw) (parse_u64 raw)) (\<lambda>n. Inr (JNumber (NInt n)))
     else if b = Boolean then
       (if raw = ''true'' then Inr (JBool True)
        else if raw = ''false'' then Inr (JBool False)
        else Inl (Invalid_text ''true or false'' raw))
     else if b = Empty \<and> raw = ''[null]'' then Inr (JArray [JNull])
     else Inr (JString raw))"

section \<open>Resolving an instance identifier\<close>

text \<open>
  The key values of one segment, in the order of the list's keys. \<open>enc\<close> encodes a value of a
  type: \<open>type_to_cbor\<close> with the depth that is left.
\<close>

fun ordered_keys :: "(type_descriptor \<Rightarrow> json \<Rightarrow> cbor codec) \<Rightarrow> schema \<Rightarrow> (string \<times> string) list
    \<Rightarrow> nat list \<Rightarrow> cbor list codec" where
  "ordered_keys enc S ks [] = Inr []"
| "ordered_keys enc S ks (k # children_keys) =
    (let key_name = local_name (nodes S ! k) in
     case find (\<lambda>p. fst p = key_name) ks of
       None \<Rightarrow> ordered_keys enc S ks children_keys
     | Some (_, v) \<Rightarrow>
         rbind (ok_or (Catalog_problem key_name) (node_ty (nodes S ! k))) (\<lambda>key_type.
         rbind (convert_iid_key_value S key_type v) (\<lambda>json_v.
         rbind (enc key_type json_v) (\<lambda>cbor_v.
         rbind (ordered_keys enc S ks children_keys) (\<lambda>rest. Inr (cbor_v # rest))))))"

definition segment_keys :: "(type_descriptor \<Rightarrow> json \<Rightarrow> cbor codec) \<Rightarrow> schema \<Rightarrow> string \<Rightarrow> iid_segment
    \<Rightarrow> nat \<Rightarrow> cbor list codec" where
  "segment_keys enc S path seg child =
    (let child_keys = node_keys (nodes S ! child) in
     if child_keys \<noteq> [] then
       rbind (ordered_keys enc S (seg_keys seg) child_keys) (\<lambda>ordered.
       case find (\<lambda>p. \<not> list_ex (\<lambda>nk. local_name (nodes S ! nk) = fst p) child_keys) (seg_keys seg) of
         Some (k, _) \<Rightarrow> Inl (Not_a_key k path)
       | None \<Rightarrow> Inr ordered)
     else if seg_keys seg \<noteq> [] then Inl (Not_a_list (seg_name seg) path)
     else Inr [])"

fun resolve_segments :: "(type_descriptor \<Rightarrow> json \<Rightarrow> cbor codec) \<Rightarrow> schema \<Rightarrow> string \<Rightarrow> string list
    \<Rightarrow> nat option \<Rightarrow> i64 \<Rightarrow> cbor list \<Rightarrow> (nat option \<times> i64 \<times> cbor list) codec" where
  "resolve_segments enc S path [] cur last_sid all_keys = Inr (cur, last_sid, all_keys)"
| "resolve_segments enc S path (raw_seg # segs) cur last_sid all_keys =
     rbind (parse_iid_segment raw_seg) (\<lambda>seg.
     rbind (ok_or (Unknown_segment (seg_name seg) path)
       (case cur of
          Some i \<Rightarrow> find_data_child S i (seg_name seg)
        | None \<Rightarrow> root_data_node_by_name S (seg_name seg))) (\<lambda>child.
     rbind (ok_or (No_sid (seg_name seg)) (node_sid (nodes S ! child))) (\<lambda>sid.
     rbind (segment_keys enc S path seg child) (\<lambda>ordered.
     resolve_segments enc S path segs (Some child) sid (all_keys @ ordered)))))"

definition iid_cbor :: "i64 \<Rightarrow> cbor list \<Rightarrow> cbor" where
  "iid_cbor sid keys = (if keys = [] then CInteger (sint sid) else CArray (CInteger (sint sid) # keys))"

definition resolve_iid_with :: "(type_descriptor \<Rightarrow> json \<Rightarrow> cbor codec) \<Rightarrow> schema \<Rightarrow> string
    \<Rightarrow> (nat \<times> cbor) codec" where
  "resolve_iid_with enc S path =
     rbind (resolve_segments enc S path (split_outside_brackets path) None 0 []) (\<lambda>(cur, last_sid, all_keys).
     rbind (ok_or (Empty_path path) cur) (\<lambda>i. Inr (i, iid_cbor last_sid all_keys)))"

definition split_iid_cbor :: "cbor \<Rightarrow> (i64 \<times> cbor list) codec" where
  "split_iid_cbor v = (case v of
     CInteger i \<Rightarrow> Inr (word_of_int i, [])
   | CArray vs \<Rightarrow>
       (case vs of
          [] \<Rightarrow> Inl (Malformed v)
        | w # ws \<Rightarrow> rbind (ok_or (Malformed v) (cbor_as_i128 w)) (\<lambda>i. Inr (word_of_int i, ws)))
   | _ \<Rightarrow> Inl (Malformed v))"

text \<open>The selectors of one node of the path, taking key values from the front of \<open>keys\<close>.\<close>

fun path_keys :: "(type_descriptor \<Rightarrow> cbor \<Rightarrow> json codec) \<Rightarrow> codec_env \<Rightarrow> nat list \<Rightarrow> string \<Rightarrow> cbor list
    \<Rightarrow> (string \<times> cbor list) codec" where
  "path_keys dec E [] path keys = Inr (path, keys)"
| "path_keys dec E (k # ks) path keys =
    (let nd = nodes (the_schema E) ! k; key_name = local_name nd in
     rbind (ok_or (Catalog_problem key_name) (node_ty nd)) (\<lambda>key_type.
     case keys of
       [] \<Rightarrow> Inr (path, keys)
     | cbor_v # rest \<Rightarrow>
         rbind (dec key_type cbor_v) (\<lambda>json_v.
         (let v = (case as_str json_v of Some s \<Rightarrow> s | None \<Rightarrow> json_text E json_v) in
          path_keys dec E ks (path @ ''['' @ key_name @ ''='' @ [CHR 0x27] @ v @ [CHR 0x27] @ '']'') rest))))"

fun path_of_chain :: "(type_descriptor \<Rightarrow> cbor \<Rightarrow> json codec) \<Rightarrow> codec_env \<Rightarrow> nat list \<Rightarrow> string \<Rightarrow> cbor list
    \<Rightarrow> string codec" where
  "path_of_chain dec E [] path keys = Inr path"
| "path_of_chain dec E (i # is) path keys =
    (let nd = nodes (the_schema E) ! i in
     rbind (path_keys dec E (node_keys nd) (path @ ''/'' @ node_name nd) keys) (\<lambda>(path', keys').
     path_of_chain dec E is path' keys'))"

definition decode_iid_with :: "(type_descriptor \<Rightarrow> cbor \<Rightarrow> json codec) \<Rightarrow> codec_env \<Rightarrow> cbor
    \<Rightarrow> (nat \<times> string) codec" where
  "decode_iid_with dec E v =
     rbind (split_iid_cbor v) (\<lambda>(sid, keys).
     rbind (ok_or (Unknown_sid sid) (node_by_sid (the_schema E) sid)) (\<lambda>i.
     rbind (path_of_chain dec E (node_chain (nodes (the_schema E)) i) [] keys) (\<lambda>path.
     Inr (i, path))))"

section \<open>Types\<close>

definition encode_small_int :: "type_info \<Rightarrow> json \<Rightarrow> cbor codec" where
  "encode_small_int ty value =
     rbind (ok_or (Expected ''a whole number'' value) (json_number_to_i128 value)) (\<lambda>m.
     (let n = trunc_i64 m in
      if \<not> in_ranges n (ranges ty)
      then Inl (restriction_error (range_error ty) (Number_not_allowed n (range_description (ranges ty))))
      else Inr (CInteger n)))"

definition encode_int64 :: "json \<Rightarrow> cbor codec" where
  "encode_int64 value =
     rbind (ok_or (Expected ''a large whole number written as quoted text'' value) (as_str value)) (\<lambda>s.
     rbind (ok_or (Invalid_text ''whole number'' s) (parse_i64 s)) (\<lambda>n. Inr (CInteger n)))"

definition encode_uint64 :: "json \<Rightarrow> cbor codec" where
  "encode_uint64 value =
     rbind (ok_or (Expected ''a large whole number written as quoted text'' value) (as_str value)) (\<lambda>s.
     rbind (ok_or (Invalid_text ''non-negative whole number'' s) (parse_u64 s)) (\<lambda>n. Inr (CInteger n)))"

definition encode_string :: "codec_env \<Rightarrow> type_info \<Rightarrow> json \<Rightarrow> cbor codec" where
  "encode_string E ty value =
     rbind (ok_or (Expected ''text'' value) (as_str value)) (\<lambda>s.
     if \<not> in_ranges (int (char_count s)) (ranges ty)
     then Inl (restriction_error (range_error ty) (Length_not_allowed (char_count s) (range_description (ranges ty))))
     else rbind (first_failed_pattern (regex_match E) s (patterns ty)) (\<lambda>failed.
       case failed of
         Some p \<Rightarrow> Inl (restriction_error (pattern_error p) (Pattern_not_matched s (describe_patterns (patterns ty))))
       | None \<Rightarrow> Inr (CText s)))"

definition encode_binary :: "type_info \<Rightarrow> json \<Rightarrow> cbor codec" where
  "encode_binary ty value =
     rbind (ok_or (Expected ''base64-encoded text'' value) (as_str value)) (\<lambda>s.
     rbind (base64_decode s) (\<lambda>bytes.
     if \<not> in_ranges (int (length bytes)) (ranges ty)
     then Inl (restriction_error (range_error ty) (Length_not_allowed (length bytes) (range_description (ranges ty))))
     else Inr (CBytes bytes)))"

definition encode_empty :: "json \<Rightarrow> cbor codec" where
  "encode_empty value = (if value = JArray [JNull] then Inr CNull else Inl (Expected ''[null]'' value))"

fun type_to_cbor_checked :: "nat \<Rightarrow> codec_env \<Rightarrow> type_descriptor \<Rightarrow> json \<Rightarrow> bool \<Rightarrow> cbor codec" where
  "type_to_cbor_checked 0 E ty value in_union = Inl Too_deep"
| "type_to_cbor_checked (Suc d) E ty value in_union =
    (case builtin_type ty of
       Int8 \<Rightarrow> encode_small_int (info ty) value
     | Int16 \<Rightarrow> encode_small_int (info ty) value
     | Int32 \<Rightarrow> encode_small_int (info ty) value
     | Uint8 \<Rightarrow> encode_small_int (info ty) value
     | Uint16 \<Rightarrow> encode_small_int (info ty) value
     | Uint32 \<Rightarrow> encode_small_int (info ty) value
     | Int64 \<Rightarrow> encode_int64 value
     | Uint64 \<Rightarrow> encode_uint64 value
     | Boolean \<Rightarrow> rbind (ok_or (Expected ''true or false'' value) (as_json_bool value)) (\<lambda>b. Inr (CBool b))
     | String_type \<Rightarrow> encode_string E (info ty) value
     | Binary \<Rightarrow> encode_binary (info ty) value
     | Empty \<Rightarrow> encode_empty value
     | Decimal64 \<Rightarrow> encode_decimal64 (info ty) value
     | Enumeration \<Rightarrow> encode_enum (info ty) value in_union
     | Bits \<Rightarrow> encode_bits (info ty) value in_union
     | Identityref \<Rightarrow> encode_identityref (the_schema E) ty value in_union
     | InstanceIdentifier \<Rightarrow>
         rbind (ok_or (Expected ''a path'' value) (as_str value)) (\<lambda>s.
         rbind (resolve_iid_with (\<lambda>t v. type_to_cbor_checked d E t v False) (the_schema E) s) (\<lambda>(_, c). Inr c))
     | Leafref \<Rightarrow>
         (case target_type (the_schema E) ty of
            Some t \<Rightarrow> type_to_cbor_checked d E t value in_union
          | None \<Rightarrow> Inr (json_to_cbor_generic value))
     | Union_type \<Rightarrow>
         rbind (ok_or (No_union_member value (union_member_kinds (the_schema E) ty))
           (pick_union_member_for_json (the_schema E) ty value)) (\<lambda>m.
         type_to_cbor_checked d E m value True))"

definition type_to_cbor :: "codec_env \<Rightarrow> type_descriptor \<Rightarrow> json \<Rightarrow> bool \<Rightarrow> bool \<Rightarrow> cbor codec" where
  "type_to_cbor E ty value in_union continue_on_error =
     lenient (type_to_cbor_checked (depth E) E ty value in_union) continue_on_error (json_to_cbor_generic value)"

fun type_to_json_within :: "nat \<Rightarrow> codec_env \<Rightarrow> type_descriptor \<Rightarrow> cbor \<Rightarrow> bool \<Rightarrow> json codec" where
  "type_to_json_within 0 E ty v in_union = Inl Too_deep"
| "type_to_json_within (Suc d) E ty v in_union =
    (let number = ok_or (Unexpected ''a whole number'' v) (cbor_as_i128 v);
         small = rbind number (\<lambda>i. Inr (JNumber (NInt (trunc_i64 i))))
     in case builtin_type ty of
       Int8 \<Rightarrow> small
     | Int16 \<Rightarrow> small
     | Int32 \<Rightarrow> small
     | Uint8 \<Rightarrow> small
     | Uint16 \<Rightarrow> small
     | Uint32 \<Rightarrow> small
     | Int64 \<Rightarrow> rbind number (\<lambda>i. Inr (JString (int_text (trunc_i64 i))))
     | Uint64 \<Rightarrow> rbind number (\<lambda>i. Inr (JString (int_text (uint (word_of_int i :: u64)))))
     | Boolean \<Rightarrow> rbind (ok_or (Unexpected ''true or false'' v) (as_bool v)) (\<lambda>b. Inr (JBool b))
     | String_type \<Rightarrow> rbind (ok_or (Unexpected ''text'' v) (as_text v)) (\<lambda>s. Inr (JString s))
     | Binary \<Rightarrow>
         rbind (ok_or (Unexpected ''binary data'' v) (as_byte_string v)) (\<lambda>b. Inr (JString (base64_encode b)))
     | Empty \<Rightarrow> Inr (JArray [JNull])
     | Decimal64 \<Rightarrow> decode_decimal64 E v
     | Enumeration \<Rightarrow> decode_enum (info ty) v in_union
     | Bits \<Rightarrow> decode_bits (info ty) v in_union
     | Identityref \<Rightarrow> decode_identityref (the_schema E) v in_union
     | InstanceIdentifier \<Rightarrow>
         rbind (decode_iid_with (\<lambda>t w. type_to_json_within d E t w False) E v) (\<lambda>(_, s). Inr (JString s))
     | Leafref \<Rightarrow>
         (case target_type (the_schema E) ty of
            Some t \<Rightarrow> type_to_json_within d E t v in_union
          | None \<Rightarrow> cbor_scalar_passthrough_to_json v)
     | Union_type \<Rightarrow>
         rbind (ok_or (No_union_member_cbor v (union_member_kinds (the_schema E) ty))
           (pick_union_member_for_cbor (the_schema E) ty v)) (\<lambda>m.
         type_to_json_within d E m v True))"

definition type_to_json :: "codec_env \<Rightarrow> type_descriptor \<Rightarrow> cbor \<Rightarrow> bool \<Rightarrow> json codec" where
  "type_to_json E ty v in_union = type_to_json_within (depth E) E ty v in_union"

text \<open>Instance identifiers at the top level: their key values have the full depth.\<close>

definition resolve_iid :: "codec_env \<Rightarrow> string \<Rightarrow> (nat \<times> cbor) codec" where
  "resolve_iid E path = resolve_iid_with (\<lambda>t v. type_to_cbor E t v False False) (the_schema E) path"

definition decode_iid :: "codec_env \<Rightarrow> cbor \<Rightarrow> (nat \<times> string) codec" where
  "decode_iid E v = decode_iid_with (\<lambda>t w. type_to_json E t w False) E v"

definition cbor_to_iid_string :: "codec_env \<Rightarrow> cbor \<Rightarrow> string codec" where
  "cbor_to_iid_string E v = rbind (decode_iid E v) (\<lambda>(_, s). Inr s)"

declare type_to_cbor_checked.simps(2) [simp del] type_to_json_within.simps(2) [simp del]

end
