(* ===== verification/Yang_Bodies.thy ===== *)
theory Yang_Bodies
  imports Yang_Types
begin

text \<open>
  The bodies of nodes (\<open>encode_body\<close>, \<open>decode_body\<close>, \<open>encode_node_value\<close> and
  \<open>decode_node_value\<close> of \<open>src/yang/src/codec.rs\<close>). A body is a map whose keys are the
  differences between the SIDs of the fields and of the node. The two loops over the fields
  take the codec of a field's value as an argument, and the two recursive functions go down
  the JSON or CBOR value.
\<close>

section \<open>Leaves and SIDs\<close>

definition name_of :: "codec_env \<Rightarrow> nat \<Rightarrow> string" where
  "name_of E i = node_name (nodes (the_schema E) ! i)"

definition effective_delta_base :: "schema \<Rightarrow> nat \<Rightarrow> i64" where
  "effective_delta_base S i =
    (let nd = nodes S ! i;
         own = (case node_sid nd of Some sid \<Rightarrow> sid | None \<Rightarrow> 0)
     in if kw nd \<in> {''input'', ''output''} then
          (case parent nd of
             Some p \<Rightarrow>
               (if kw (nodes S ! p) \<in> {''rpc'', ''action''} then
                  (case node_sid (nodes S ! p) of Some sid \<Rightarrow> sid | None \<Rightarrow> own)
                else own)
           | None \<Rightarrow> own)
        else own)"

definition encode_leaf_value :: "codec_env \<Rightarrow> bool \<Rightarrow> nat \<Rightarrow> json \<Rightarrow> cbor codec" where
  "encode_leaf_value E cont i value =
     rbind (ok_or (Catalog_problem (name_of E i)) (node_ty (nodes (the_schema E) ! i))) (\<lambda>ty.
     type_to_cbor E ty value False cont)"

definition decode_leaf_value :: "codec_env \<Rightarrow> nat \<Rightarrow> cbor \<Rightarrow> json codec" where
  "decode_leaf_value E i v =
     rbind (ok_or (Catalog_problem (name_of E i)) (node_ty (nodes (the_schema E) ! i))) (\<lambda>ty.
     type_to_json E ty v False)"

section \<open>Encoding a body\<close>

definition find_field :: "codec_env \<Rightarrow> nat \<Rightarrow> string \<Rightarrow> (nat \<times> i64) codec" where
  "find_field E scope key =
     rbind (ok_or (Not_a_field key (name_of E scope)) (find_data_child (the_schema E) scope key)) (\<lambda>child.
     rbind (ok_or (No_sid key) (node_sid (nodes (the_schema E) ! child))) (\<lambda>sid. Inr (child, sid)))"

text \<open>\<open>lenient(found.map(Some), continue_on_error, || None)\<close>\<close>

definition lenient_field :: "(nat \<times> i64) codec \<Rightarrow> bool \<Rightarrow> (nat \<times> i64) option codec" where
  "lenient_field found cont = lenient (rbind found (\<lambda>f. Inr (Some f))) cont None"

fun body_entries :: "(nat \<Rightarrow> json \<Rightarrow> cbor codec) \<Rightarrow> (string \<Rightarrow> (nat \<times> i64) codec) \<Rightarrow> i64 \<Rightarrow> bool
    \<Rightarrow> (string \<times> json) list \<Rightarrow> (cbor \<times> cbor) list codec" where
  "body_entries enc found base cont [] = Inr []"
| "body_entries enc found base cont (e # obj) =
     rbind (lenient_field (found (fst e)) cont) (\<lambda>f. case f of
         None \<Rightarrow> body_entries enc found base cont obj
       | Some (child, child_sid) \<Rightarrow>
           rbind (enc child (snd e)) (\<lambda>c.
           rbind (body_entries enc found base cont obj) (\<lambda>es.
           Inr ((CInteger (sint (child_sid - base)), c) # es))))"

lemma body_entries_cong [fundef_cong]:
  assumes "obj = obj'" and "\<And>i e. e \<in> set obj' \<Longrightarrow> enc i (snd e) = enc' i (snd e)"
    and "found = found'" "base = base'" "cont = cont'"
  shows "body_entries enc found base cont obj = body_entries enc' found' base' cont' obj'"
  using assms(2) unfolding assms(1,3-5)
proof (induction obj')
  case (Cons e obj)
  then have "body_entries enc found' base' cont' obj = body_entries enc' found' base' cont' obj"
    and "\<And>i. enc i (snd e) = enc' i (snd e)" by simp_all
  then show ?case by (simp cong: option.case_cong prod.case_cong)
qed simp

definition is_list_key :: "schema \<Rightarrow> nat \<Rightarrow> nat \<Rightarrow> bool" where
  "is_list_key S scope c =
     list_ex (\<lambda>k. local_name (nodes S ! k) = local_name (nodes S ! c)) (node_keys (nodes S ! scope))"

text \<open>The first required field that is missing, unless it is operational state in a write.\<close>

definition is_required :: "codec_env \<Rightarrow> content_format \<Rightarrow> nat \<Rightarrow> nat \<Rightarrow> bool" where
  "is_required E cf scope c =
    (let S = the_schema E; nd = nodes S ! c in
     \<not> (cf \<in> {Ipatch, Put} \<and> config nd = Some False) \<and> (mandatory nd \<or> is_list_key S scope c))"

fun check_required :: "codec_env \<Rightarrow> content_format \<Rightarrow> bool \<Rightarrow> nat \<Rightarrow> (string \<times> json) list \<Rightarrow> nat list
    \<Rightarrow> unit codec" where
  "check_required E cf cont scope obj [] = Inr ()"
| "check_required E cf cont scope obj (c # cs) =
     rbind (if is_required E cf scope c \<and> name_of E c \<notin> fst ` set obj
            then lenient (Inl (Missing_field (name_of E c) (name_of E scope))) cont ()
            else Inr ()) (\<lambda>_.
     check_required E cf cont scope obj cs)"

definition encode_body_with :: "(nat \<Rightarrow> json \<Rightarrow> cbor codec) \<Rightarrow> codec_env \<Rightarrow> content_format \<Rightarrow> bool \<Rightarrow> nat
    \<Rightarrow> (string \<times> json) list \<Rightarrow> cbor codec" where
  "encode_body_with enc E cf cont scope obj =
     rbind (body_entries enc (find_field E scope) (effective_delta_base (the_schema E) scope) cont obj) (\<lambda>entries.
     rbind (check_required E cf cont scope obj (data_children (the_schema E) scope)) (\<lambda>_.
     Inr (CMap entries)))"

lemma encode_body_with_cong [fundef_cong]:
  assumes "obj = obj'" and "\<And>i e. e \<in> set obj' \<Longrightarrow> enc i (snd e) = enc' i (snd e)"
    and "E = E'" "cf = cf'" "cont = cont'" "scope = scope'"
  shows "encode_body_with enc E cf cont scope obj = encode_body_with enc' E' cf' cont' scope' obj'"
  using assms by (simp add: encode_body_with_def cong: body_entries_cong)

section \<open>Encoding a node\<close>

text \<open>
  In the entries of a list the \<open>?\<close> of the code leaves the whole function, so an error there
  is not softened by \<open>lenient\<close>, as that of a container's body is.
\<close>

lemma json_object_size:
  "e \<in> set obj \<Longrightarrow> size (snd e) < size (JObject obj)"
  by (cases e) (auto dest: split_list)

lemma json_array_size: "v \<in> set vs \<Longrightarrow> size v < size (JArray vs)"
  by (auto dest: split_list)

text \<open>The wrapper \<open>input\<close> or \<open>output\<close> of the parameters of an operation, if it is the only field.\<close>

definition side_wrapper :: "(string \<times> json) list \<Rightarrow> (string \<times> json) option" where
  "side_wrapper obj =
    (case obj of
       [e] \<Rightarrow> (if fst e \<in> {''input'', ''output''} then Some e else None)
     | _ \<Rightarrow> None)"

lemma side_wrapper_Some: "side_wrapper obj = Some e \<Longrightarrow> obj = [e] \<and> fst e \<in> {''input'', ''output''}"
  by (auto simp: side_wrapper_def split: list.splits if_splits)

function encode_node_value :: "codec_env \<Rightarrow> content_format \<Rightarrow> bool \<Rightarrow> nat \<Rightarrow> json \<Rightarrow> cbor codec" where
  "encode_node_value E cf cont i value =
    (let k = kw (nodes (the_schema E) ! i) in
     if k = ''leaf'' then encode_leaf_value E cont i value
     else if k = ''leaf-list'' then
       (case value of
          JArray vs \<Rightarrow> rbind (rmap (encode_leaf_value E cont i) vs) (\<lambda>cs. Inr (CArray cs))
        | _ \<Rightarrow> Inl (Expected ''a list of values'' value))
     else if k \<in> {''container'', ''input'', ''output''} then
       lenient
         (case value of
            JObject obj \<Rightarrow> encode_body_with (\<lambda>c v. encode_node_value E cf cont c v) E cf cont i obj
          | _ \<Rightarrow> Inl (Expected ''an object'' value))
         cont (CMap [])
     else if k = ''list'' then
       (case value of
          JArray vs \<Rightarrow>
            rbind (rmap (\<lambda>v. case v of
                JObject obj \<Rightarrow> encode_body_with (\<lambda>c w. encode_node_value E cf cont c w) E cf cont i obj
              | _ \<Rightarrow> Inl (Expected ''an object'' v)) vs) (\<lambda>cs. Inr (CArray cs))
        | JObject obj \<Rightarrow>
            lenient
              (if is_sequence cf
               then encode_body_with (\<lambda>c v. encode_node_value E cf cont c v) E cf cont i obj
               else Inl (Expected ''a list'' value))
              cont (CArray [])
        | _ \<Rightarrow> lenient (Inl (Expected ''a list'' value)) cont (CArray []))
     else if k \<in> {''rpc'', ''action''} then
       (case value of
          JObject obj \<Rightarrow>
            (case side_wrapper obj of
               Some e \<Rightarrow>
                 rbind (ok_or (Catalog_problem (fst e)) (find_child (the_schema E) i (fst e))) (\<lambda>side.
                 case snd e of
                   JObject inner \<Rightarrow> encode_body_with (\<lambda>c v. encode_node_value E cf cont c v) E cf cont side inner
                 | _ \<Rightarrow> Inl (Expected ''an object'' (snd e)))
             | None \<Rightarrow>
                 (let side = (case find_child (the_schema E) i ''input'' of Some s \<Rightarrow> s | None \<Rightarrow> i) in
                  encode_body_with (\<lambda>c v. encode_node_value E cf cont c v) E cf cont side obj))
        | _ \<Rightarrow> Inl (Expected ''an object'' value))
     else Inl (Unsupported_shape (name_of E i) k))"
  by pat_completeness auto
termination
proof (relation "measure (\<lambda>(E, cf, cont, i, value). size value)")
qed (use json_object_size json_array_size in \<open>fastforce dest: side_wrapper_Some\<close>)+

declare encode_node_value.simps [simp del]

definition encode_body :: "codec_env \<Rightarrow> content_format \<Rightarrow> bool \<Rightarrow> nat \<Rightarrow> (string \<times> json) list \<Rightarrow> cbor codec" where
  "encode_body E cf cont scope obj = encode_body_with (encode_node_value E cf cont) E cf cont scope obj"

section \<open>Decoding a body\<close>

fun decode_fields :: "(nat \<Rightarrow> cbor \<Rightarrow> json codec) \<Rightarrow> codec_env \<Rightarrow> i64 \<Rightarrow> (cbor \<times> cbor) list
    \<Rightarrow> (string \<times> json) list \<Rightarrow> (string \<times> json) list codec" where
  "decode_fields dec E base [] obj = Inr obj"
| "decode_fields dec E base (e # entries) obj =
     rbind (ok_or (Malformed (fst e)) (cbor_as_i128 (fst e))) (\<lambda>delta.
     (let sid = word_of_int delta + base in
      rbind (ok_or (Unknown_sid sid) (node_by_sid (the_schema E) sid)) (\<lambda>child.
      rbind (dec child (snd e)) (\<lambda>v.
      decode_fields dec E base entries (obj_insert (name_of E child) v obj)))))"

lemma decode_fields_cong [fundef_cong]:
  assumes "entries = entries'" and "\<And>i e. e \<in> set entries' \<Longrightarrow> dec i (snd e) = dec' i (snd e)"
    and "E = E'" "base = base'" "obj = obj'"
  shows "decode_fields dec E base entries obj = decode_fields dec' E' base' entries' obj'"
  using assms(2) unfolding assms(1,3-5)
  by (induction entries' arbitrary: obj') (simp_all add: Let_def)

definition decode_body_with :: "(nat \<Rightarrow> cbor \<Rightarrow> json codec) \<Rightarrow> codec_env \<Rightarrow> nat \<Rightarrow> cbor \<Rightarrow> json codec" where
  "decode_body_with dec E scope v =
    (case v of
       CMap entries \<Rightarrow>
         rbind (decode_fields dec E (effective_delta_base (the_schema E) scope) entries []) (\<lambda>obj.
         Inr (JObject obj))
     | _ \<Rightarrow> Inl (Unexpected (name_of E scope) v))"

lemma cbor_map_size: "e \<in> set es \<Longrightarrow> size (snd e) < size (CMap es)"
  by (cases e) (auto dest: split_list)

lemma cbor_array_size: "v \<in> set vs \<Longrightarrow> size v < size (CArray vs)"
  by (auto dest: split_list)

lemma decode_body_with_cong [fundef_cong]:
  assumes "v = v'" and "\<And>i w. size w < size v' \<Longrightarrow> dec i w = dec' i w"
    and "E = E'" "scope = scope'"
  shows "decode_body_with dec E scope v = decode_body_with dec' E' scope' v'"
proof -
  have "decode_fields dec E' b entries [] = decode_fields dec' E' b entries []" if "v' = CMap entries" for b entries
    using that assms(2) by (intro decode_fields_cong) (auto dest: cbor_map_size)
  then show ?thesis unfolding assms(1,3,4) decode_body_with_def by (auto split: cbor.splits)
qed

section \<open>Decoding a node\<close>

text \<open>
  The side of an operation that the first key of the payload belongs to, looking at the
  fields of each side only.
\<close>

definition side_of :: "codec_env \<Rightarrow> nat \<Rightarrow> i64 \<Rightarrow> (string \<times> nat) option" where
  "side_of E i sid =
    (let S = the_schema E;
         matching = (\<lambda>side. case find_child S i side of
            Some n \<Rightarrow> list_ex (\<lambda>c. node_sid (nodes S ! c) = Some sid) (data_children S n)
          | None \<Rightarrow> False)
     in Option.bind (find matching [''input'', ''output'']) (\<lambda>side.
        map_option (\<lambda>n. (side, n)) (find_child S i side)))"

function decode_node_value :: "codec_env \<Rightarrow> content_format \<Rightarrow> nat \<Rightarrow> cbor \<Rightarrow> json codec" where
  "decode_node_value E cf i v =
    (let nd = nodes (the_schema E) ! i; k = kw nd in
     if k = ''leaf'' then decode_leaf_value E i v
     else if k = ''leaf-list'' then
       (case v of
          CArray vs \<Rightarrow> rbind (rmap (decode_leaf_value E i) vs) (\<lambda>js. Inr (JArray js))
        | _ \<Rightarrow> Inl (Unexpected ''a list of values'' v))
     else if k \<in> {''container'', ''input'', ''output''} then
       decode_body_with (\<lambda>c w. decode_node_value E cf c w) E i v
     else if k = ''list'' then
       (case v of
          CArray vs \<Rightarrow>
            rbind (rmap (\<lambda>w. decode_body_with (\<lambda>c x. decode_node_value E cf c x) E i w) vs) (\<lambda>js.
            Inr (JArray js))
        | CMap _ \<Rightarrow>
            (if is_sequence cf then decode_body_with (\<lambda>c w. decode_node_value E cf c w) E i v
             else Inl (Unexpected ''a list'' v))
        | _ \<Rightarrow> Inl (Unexpected ''a list'' v))
     else if k \<in> {''rpc'', ''action''} then
       (case v of
          CMap entries \<Rightarrow>
            (case entries of
               [] \<Rightarrow> Inr (JObject [])
             | e # _ \<Rightarrow>
                 rbind (ok_or (Malformed (fst e)) (cbor_as_i128 (fst e))) (\<lambda>delta.
                 (let sid = word_of_int delta + (case node_sid nd of Some s \<Rightarrow> s | None \<Rightarrow> 0) in
                  rbind (ok_or (Side_unknown (name_of E i) sid) (side_of E i sid)) (\<lambda>(side, n).
                  rbind (decode_body_with (\<lambda>c w. decode_node_value E cf c w) E n v) (\<lambda>decoded.
                  Inr (JObject [(side, decoded)]))))))
        | _ \<Rightarrow> Inl (Unexpected ''an object'' v))
     else Inl (Unsupported_shape (name_of E i) k))"
  by pat_completeness auto
termination
proof (relation "measure (\<lambda>(E, cf, i, v). size v)")
qed (use cbor_array_size in fastforce)+

declare decode_node_value.simps [simp del]

definition decode_body :: "codec_env \<Rightarrow> content_format \<Rightarrow> nat \<Rightarrow> cbor \<Rightarrow> json codec" where
  "decode_body E cf scope v = decode_body_with (decode_node_value E cf) E scope v"

end
