(* ===== verification/Yang_Codec.thy ===== *)
theory Yang_Codec
  imports Yang_Bodies
begin

text \<open>
  The entry points of the codec (\<open>src/yang/src/codec.rs\<close>): whole trees, CBOR sequences of
  instance identifiers and values, and the normalisation of a CBOR sequence.
\<close>

section \<open>CBOR sequences\<close>

definition cbor_to_bytes :: "cbor \<Rightarrow> bytes codec" where
  "cbor_to_bytes v = Inr (to_vec v)"

text \<open>The loop reads items until the end; every item is at least one byte.\<close>

function seq_items :: "bytes \<Rightarrow> nat \<Rightarrow> cbor list codec" where
  "seq_items bs p =
    (if p < length bs then
       (case from_slice bs p of
          Inl e \<Rightarrow> Inl (Undecodable e)
        | Inr (v, q) \<Rightarrow> rbind (seq_items bs q) (\<lambda>vs. Inr (v # vs)))
     else Inr [])"
  by pat_completeness auto
termination
  by (relation "measure (\<lambda>(bs, p). length bs - p)") (auto dest!: from_slice_pos)

declare seq_items.simps [simp del]

definition cbor_seq_from_bytes :: "bytes \<Rightarrow> cbor list codec" where
  "cbor_seq_from_bytes bs = seq_items bs 0"

fun concat_items :: "cbor list \<Rightarrow> bytes \<Rightarrow> bytes codec" where
  "concat_items [] out = Inr out"
| "concat_items (v # vs) out = rbind (cbor_to_bytes v) (\<lambda>b. concat_items vs (out @ b))"

definition normalize_cbor_seq :: "bytes \<Rightarrow> bytes codec" where
  "normalize_cbor_seq bs = rbind (cbor_seq_from_bytes bs) (\<lambda>vs. concat_items vs [])"

section \<open>Entries of a sequence\<close>

definition validate_single_key :: "content_format \<Rightarrow> json \<Rightarrow> unit codec" where
  "validate_single_key cf entry = (case entry of
     JObject obj \<Rightarrow>
       (if length obj \<noteq> 1 then Inl (Not_single_key (upper_name cf) (map fst obj)) else Inr ())
   | _ \<Rightarrow> Inr ())"

definition kind_of :: "json \<Rightarrow> string" where
  "kind_of entry = (case entry of
     JArray _ \<Rightarrow> ''array'' | JNull \<Rightarrow> ''null'' | JBool _ \<Rightarrow> ''Boolean'' | JNumber _ \<Rightarrow> ''Numeric''
   | JString _ \<Rightarrow> ''String'' | JObject _ \<Rightarrow> ''Hash'')"

definition validate_entry_err :: "content_format \<Rightarrow> json \<Rightarrow> codec_error" where
  "validate_entry_err cf entry = Bad_entry (upper_name cf) (kind_of entry)"

definition validate_instance_entry :: "content_format \<Rightarrow> json \<Rightarrow> unit codec" where
  "validate_instance_entry cf entry = (case entry of
     JObject _ \<Rightarrow> validate_single_key cf entry
   | _ \<Rightarrow> Inl (Bad_entry (upper_name cf) (kind_of entry)))"

text \<open>One path with its value: a map of the instance identifier to the encoded value.\<close>

definition encode_instance :: "codec_env \<Rightarrow> content_format \<Rightarrow> bool \<Rightarrow> string \<Rightarrow> json \<Rightarrow> cbor codec" where
  "encode_instance E cf cont path val =
     rbind (resolve_iid E path) (\<lambda>(target, iid).
     rbind (if val = JNull then Inr CNull else encode_node_value E cf cont target val) (\<lambda>encoded_val.
     Inr (CMap [(iid, encoded_val)])))"

definition encode_entry :: "codec_env \<Rightarrow> content_format \<Rightarrow> bool \<Rightarrow> json \<Rightarrow> cbor codec" where
  "encode_entry E cf cont item =
    (case cf of
       Fetch \<Rightarrow>
         (case item of
            JString path \<Rightarrow> rbind (resolve_iid E path) (\<lambda>(_, c). Inr c)
          | JObject obj \<Rightarrow>
              (case obj of
                 [(path, val)] \<Rightarrow> encode_instance E cf cont path val
               | _ \<Rightarrow> Inl (Not_single_key (upper_name cf) (map fst obj)))
          | _ \<Rightarrow> Inl (validate_entry_err cf item))
     | Yang \<Rightarrow> Inl (Not_a_sequence (upper_name cf))
     | Get \<Rightarrow> Inl (Not_a_sequence (upper_name cf))
     | Put \<Rightarrow> Inl (Not_a_sequence (upper_name cf))
     | _ \<Rightarrow>
         rbind (validate_instance_entry cf item) (\<lambda>_.
         case item of
           JObject ((path, val) # _) \<Rightarrow> encode_instance E cf cont path val
         | _ \<Rightarrow> Inl (validate_entry_err cf item)))"

fun json_seq_items :: "codec_env \<Rightarrow> content_format \<Rightarrow> bool \<Rightarrow> json list \<Rightarrow> bytes \<Rightarrow> bytes codec" where
  "json_seq_items E cf cont [] out = Inr out"
| "json_seq_items E cf cont (item # rest) out =
     rbind (encode_entry E cf cont item) (\<lambda>c.
     rbind (cbor_to_bytes c) (\<lambda>b.
     json_seq_items E cf cont rest (out @ b)))"

definition json_seq_to_cbor :: "codec_env \<Rightarrow> json list \<Rightarrow> content_format \<Rightarrow> bool \<Rightarrow> bytes codec" where
  "json_seq_to_cbor E entries cf cont = json_seq_items E cf cont entries []"

definition decode_entry :: "codec_env \<Rightarrow> content_format \<Rightarrow> cbor \<Rightarrow> json codec" where
  "decode_entry E cf item =
    (case (case item of CMap [e] \<Rightarrow> Some e | _ \<Rightarrow> None) of
       Some (iid, val) \<Rightarrow>
         rbind (decode_iid E iid) (\<lambda>(n, path).
         rbind (if val = CNull then Inr JNull else decode_node_value E cf n val) (\<lambda>decoded_val.
         Inr (JObject [(path, decoded_val)])))
     | None \<Rightarrow>
         if cf = Fetch then rbind (decode_iid E item) (\<lambda>(_, path). Inr (JString path))
         else Inl (Bad_entry (upper_name cf) ''''))"

definition cbor_seq_to_json :: "codec_env \<Rightarrow> bytes \<Rightarrow> content_format \<Rightarrow> json list codec" where
  "cbor_seq_to_json E bs cf =
     rbind (cbor_seq_from_bytes bs) (\<lambda>vs. rmap (decode_entry E cf) vs)"

section \<open>Whole trees\<close>

definition find_root :: "codec_env \<Rightarrow> string \<Rightarrow> (nat \<times> i64) codec" where
  "find_root E key =
     rbind (ok_or (Not_a_field key ''the request'') (root_data_node_by_name (the_schema E) key)) (\<lambda>child.
     rbind (ok_or (No_sid key) (node_sid (nodes (the_schema E) ! child))) (\<lambda>sid. Inr (child, sid)))"

definition encode_whole_tree :: "codec_env \<Rightarrow> (string \<times> json) list \<Rightarrow> content_format \<Rightarrow> bool \<Rightarrow> cbor codec" where
  "encode_whole_tree E obj cf cont =
     rbind (body_entries (encode_node_value E cf cont) (find_root E) 0 cont obj) (\<lambda>entries.
     Inr (CMap entries))"

definition json_to_cbor :: "codec_env \<Rightarrow> json \<Rightarrow> content_format \<Rightarrow> bool \<Rightarrow> bytes codec" where
  "json_to_cbor E value cf cont =
     rbind (lenient
       (rbind (ok_or (Expected ''an object at the top level'' value) (as_object value)) (\<lambda>obj.
        encode_whole_tree E obj cf cont))
       cont (CMap [])) (\<lambda>c.
     cbor_to_bytes c)"

definition decode_whole_tree :: "codec_env \<Rightarrow> cbor \<Rightarrow> content_format \<Rightarrow> json codec" where
  "decode_whole_tree E v cf = (case v of
     CMap entries \<Rightarrow>
       rbind (decode_fields (decode_node_value E cf) E 0 entries []) (\<lambda>obj. Inr (JObject obj))
   | _ \<Rightarrow> Inl (Unexpected ''a set of fields'' v))"

definition cbor_to_json :: "codec_env \<Rightarrow> bytes \<Rightarrow> content_format \<Rightarrow> json codec" where
  "cbor_to_json E bs cf =
    (if bs = [] then Inr (JObject [])
     else rbind (cbor_seq_from_bytes bs) (\<lambda>vs.
       case vs of
         [] \<Rightarrow> Inl (Undecodable Unexpected_end)
       | v # _ \<Rightarrow> decode_whole_tree E v cf))"

end
