(* ===== verification/Yang_Sequence.thy ===== *)
theory Yang_Sequence
  imports Yang_Codec Cbor_Correct
begin

text \<open>
  CBOR sequences: a locale for streams of self-delimiting items, its interpretation on the
  encoder and the decoder of the CBOR crate with the loop of the codec, and what
  \<open>normalize_cbor_seq\<close> (\<open>src/yang/src/codec.rs\<close>) promises.
\<close>

section \<open>Streams of items\<close>

text \<open>
  What a reader of consecutive items relies on: the encoding of a good item is not empty and
  is read back wherever it stands, and whatever is read is a good item.
\<close>

locale item_stream =
  fixes enc :: "'a \<Rightarrow> bytes"
    and read :: "bytes \<Rightarrow> nat \<Rightarrow> 'e + 'a \<times> nat"
    and good :: "'a \<Rightarrow> bool"
  assumes enc_not_Nil: "enc v \<noteq> []"
    and read_enc: "good v \<Longrightarrow> length (pre @ enc v @ rest) < usize_limit \<Longrightarrow>
      read (pre @ enc v @ rest) (length pre) = Inr (v, length pre + length (enc v))"
    and read_good: "read bs p = Inr (v, q) \<Longrightarrow> length bs < usize_limit \<Longrightarrow>
      good v \<and> p < q \<and> q \<le> length bs"

text \<open>The loop over a whole input, with the error the client reports.\<close>

locale item_loop = item_stream +
  fixes loop :: "bytes \<Rightarrow> nat \<Rightarrow> 'f + 'a list"
    and bad :: "'c \<Rightarrow> 'f"
  assumes loop_step: "loop bs p =
    (if p < length bs then
       (case read bs p of Inl e \<Rightarrow> Inl (bad e) | Inr (v, q) \<Rightarrow> rbind (loop bs q) (\<lambda>vs. Inr (v # vs)))
     else Inr [])"
begin

lemma loop_concat_from:
  "\<forall>v \<in> set vs. good v \<Longrightarrow> length (pre @ concat (map enc vs)) < usize_limit \<Longrightarrow>
     loop (pre @ concat (map enc vs)) (length pre) = Inr vs"
proof (induction vs arbitrary: pre)
  case Nil
  then show ?case by (subst loop_step) simp
next
  case (Cons v vs)
  have "read (pre @ enc v @ concat (map enc vs)) (length pre) = Inr (v, length pre + length (enc v))"
    using Cons.prems by (intro read_enc) auto
  moreover have "loop ((pre @ enc v) @ concat (map enc vs)) (length (pre @ enc v)) = Inr vs"
    using Cons.prems by (intro Cons.IH) auto
  ultimately show ?case using enc_not_Nil [of v] by (subst loop_step) simp
qed

lemma loop_concat:
  "\<forall>v \<in> set vs. good v \<Longrightarrow> length (concat (map enc vs)) < usize_limit \<Longrightarrow>
     loop (concat (map enc vs)) 0 = Inr vs"
  using loop_concat_from [of vs "[]"] by simp

lemma loop_good:
  "loop bs p = Inr vs \<Longrightarrow> length bs < usize_limit \<Longrightarrow>
     \<forall>v \<in> set vs. good v"
proof (induction "length bs - p" arbitrary: p vs rule: less_induct)
  case less
  show ?case
  proof (cases "p < length bs")
    case True
    with less.prems(1) obtain v q ws where rd: "read bs p = Inr (v, q)" and lp: "loop bs q = Inr ws"
      and vs: "vs = v # ws"
      by (subst (asm) loop_step) (auto simp: result_simps split: sum.splits)
    from read_good [OF rd less.prems(2)] have q: "good v" "p < q" "q \<le> length bs" by auto
    then have "length bs - q < length bs - p" by arith
    with less.hyps [OF this lp less.prems(2)] q vs show ?thesis by simp
  next
    case False
    with less.prems(1) show ?thesis by (subst (asm) loop_step) simp
  qed
qed

text \<open>Reading, writing the items and reading again gives the same items.\<close>

lemma loop_recode:
  assumes "loop bs 0 = Inr vs" "length bs < usize_limit" "length (concat (map enc vs)) < usize_limit"
  shows "loop (concat (map enc vs)) 0 = Inr vs"
  by (rule loop_concat [OF loop_good [OF assms(1,2)] assms(3)])

end

section \<open>CBOR sequences\<close>

interpretation cbor_loop: item_loop to_vec from_slice cbor_ok seq_items Undecodable
proof
  fix v :: cbor and pre rest :: bytes
  assume "cbor_ok v" "length (pre @ to_vec v @ rest) < usize_limit"
  then show "from_slice (pre @ to_vec v @ rest) (length pre) = Inr (v, length pre + length (to_vec v))"
    using encode_value_item [of v] by (simp only: to_vec_def from_slice_item_iff)
next
  fix bs p v q
  assume rd: "from_slice bs p = Inr (v, q)" and len: "length bs < usize_limit"
  from from_slice_pos [OF rd] have q: "p < q" "q \<le> length bs" by auto
  moreover have "cbor_item (sub bs p q) v" using rd by (rule decode_sound)
  ultimately show "cbor_ok v \<and> p < q \<and> q \<le> length bs" using len item_ok(1) by auto
qed (simp_all add: to_vec_def seq_items.simps)

lemma concat_items_eq: "concat_items vs out = Inr (out @ concat (map to_vec vs))"
  by (induction vs arbitrary: out) (simp_all add: cbor_to_bytes_def)

text \<open>
  C32: Normalising a CBOR sequence keeps its items and is done in one pass: the output reads
  back as the same list of items as the input, and normalising it again changes nothing.
\<close>

theorem cbor_sequence_normalized:
  assumes "normalize_cbor_seq bs = Inr out" "length bs < usize_limit" "length out < usize_limit"
  shows "cbor_seq_from_bytes out = cbor_seq_from_bytes bs \<and> normalize_cbor_seq out = Inr out"
proof -
  from assms(1) obtain vs where vs: "seq_items bs 0 = Inr vs" "out = concat (map to_vec vs)"
    by (auto simp: normalize_cbor_seq_def cbor_seq_from_bytes_def result_simps concat_items_eq)
  with cbor_loop.loop_recode [of bs vs] assms(2,3) have "seq_items out 0 = Inr vs" by simp
  with vs show ?thesis
    by (simp add: normalize_cbor_seq_def cbor_seq_from_bytes_def concat_items_eq)
qed

theorem cbor_sequence_normalized_witness:
  "normalize_cbor_seq [0x18, 0x05, 0x9F, 0xF5, 0xFF] = Inr [0x05, 0x81, 0xF5] \<and>
   normalize_cbor_seq [0x05, 0x81, 0xF5] = Inr [0x05, 0x81, 0xF5]"
proof -
  have items: "cbor_seq_from_bytes [0x18, 0x05, 0x9F, 0xF5, 0xFF] = Inr [CInteger 5, CArray [CBool True]]"
  proof -
    have h: "head 0 (word_of_nat (be_dec [0x05])) ((push_bit 5 0 OR 24) # [0x05])" by (rule head.wide) simp
    from item_uint [OF this] have "cbor_item [0x18, 0x05] (CInteger 5)" by (simp add: be_dec_def)
    from from_slice_item_iff [of "[]" "[0x18, 0x05]" "[0x9F, 0xF5, 0xFF]"] this
    have "from_slice [0x18, 0x05, 0x9F, 0xF5, 0xFF] 0 = Inr (CInteger 5, Suc (Suc 0))"
      by (simp add: usize_limit_def)
    then have one: "from_slice [0x18, 0x05, 0x9F, 0xF5, 0xFF] 0 = Inr (CInteger 5, 2)"
      by (simp add: eval_nat_numeral)
    from item_array_indef [OF items_Cons [OF item_true items_Nil]]
    have "cbor_item [0x9F, 0xF5, 0xFF] (CArray [CBool True])" by simp
    from from_slice_item_iff [of "[0x18, 0x05]" "[0x9F, 0xF5, 0xFF]" "[]"] this
    have "from_slice [0x18, 0x05, 0x9F, 0xF5, 0xFF] (Suc (Suc 0)) = Inr (CArray [CBool True], Suc (Suc (Suc (Suc (Suc 0)))))"
      by (simp add: usize_limit_def)
    then have two: "from_slice [0x18, 0x05, 0x9F, 0xF5, 0xFF] 2 = Inr (CArray [CBool True], 5)"
      by (simp add: eval_nat_numeral)
    have "seq_items [0x18, 0x05, 0x9F, 0xF5, 0xFF] 5 = Inr []" by (subst seq_items.simps) simp
    with two have "seq_items [0x18, 0x05, 0x9F, 0xF5, 0xFF] 2 = Inr [CArray [CBool True]]"
      by (subst seq_items.simps) simp
    with one have "seq_items [0x18, 0x05, 0x9F, 0xF5, 0xFF] 0 = Inr [CInteger 5, CArray [CBool True]]"
      by (subst seq_items.simps) simp
    then show ?thesis by (simp add: cbor_seq_from_bytes_def)
  qed
  then have "normalize_cbor_seq [0x18, 0x05, 0x9F, 0xF5, 0xFF] = Inr [0x05, 0x81, 0xF5]"
    by (simp add: normalize_cbor_seq_def concat_items_eq to_vec_def encode_head_def)
  with cbor_sequence_normalized [of "[0x18, 0x05, 0x9F, 0xF5, 0xFF]" "[0x05, 0x81, 0xF5]"] show ?thesis
    by (simp add: usize_limit_def)
qed

end
