(* ===== verification/Yang_Values_Correct.thy ===== *)
theory Yang_Values_Correct
  imports Yang_Codec
begin

text \<open>
  Correctness of the base64, the bits and the decimals of \<open>src/yang/src/codec.rs\<close>: decoding
  inverts encoding, through the padding of base64 and the spans and gaps of bits, and a decimal is
  exact on the wire.
\<close>

section \<open>Base64\<close>

text \<open>The bytes of a text that the decoder looks at.\<close>

definition significant :: "u8 \<Rightarrow> bool" where
  "significant b \<longleftrightarrow> b \<noteq> 0x3D \<and> \<not> is_ascii_whitespace b"

definition b64_byte :: "u32 \<Rightarrow> u8" where
  "b64_byte v = of_char (B64_ALPHABET ! unat v)"

text \<open>The packed bytes of a chunk and its digits of six bits, as many as the chunk needs.\<close>

definition packed :: "bytes \<Rightarrow> u32" where
  "packed c = push_bit 16 (ucast (c ! 0))
     OR push_bit 8 (ucast (if 1 < length c then c ! 1 else 0))
     OR ucast (if 2 < length c then c ! 2 else 0)"

definition sextets :: "bytes \<Rightarrow> u32 list" where
  "sextets c = take (length c + 1)
     [drop_bit 18 (packed c) AND 0x3F, drop_bit 12 (packed c) AND 0x3F,
      drop_bit 6 (packed c) AND 0x3F, packed c AND 0x3F]"

lemma alphabet_table:
  "list_all (\<lambda>k. b64_val (of_char (B64_ALPHABET ! k)) = Some (word_of_nat k) \<and> significant (of_char (B64_ALPHABET ! k)))
     [0..<64]"
  by code_simp

lemma alphabet_byte:
  "unat v < 64 \<Longrightarrow> b64_val (b64_byte v) = Some v \<and> significant (b64_byte v)"
  using alphabet_table by (auto simp: list_all_iff b64_byte_def)

lemma and_63_less: "unat ((v :: u32) AND 0x3F) < 64"
proof -
  have "v AND 0x3F \<le> 0x3F" by (simp add: word_and_le1)
  then show ?thesis by (simp add: word_le_nat_alt)
qed

lemma sextets_less: "v \<in> set (sextets c) \<Longrightarrow> unat v < 64"
  by (auto simp: sextets_def and_63_less dest!: in_set_takeD)

lemma chunk_cases:
  assumes "chunk \<noteq> []" "length chunk \<le> 3"
  obtains a where "chunk = [a]" | a b where "chunk = [a, b]" | a b c where "chunk = [a, b, c]"
  using assms by (cases chunk rule: list.exhaust; cases "tl chunk"; cases "tl (tl chunk)") auto

lemma encode_chunk_packed:
  "chunk \<noteq> [] \<Longrightarrow> encode_chunk chunk =
     [b64_char (drop_bit 18 (packed chunk)), b64_char (drop_bit 12 (packed chunk)),
      if 1 < length chunk then b64_char (drop_bit 6 (packed chunk)) else CHR ''='',
      if 2 < length chunk then b64_char (packed chunk) else CHR ''='']"
  by (simp only: encode_chunk_def packed_def Let_def)

lemma encode_chunk_significant:
  assumes "chunk \<noteq> []" "length chunk \<le> 3"
  shows "filter significant (as_bytes (encode_chunk chunk)) = map b64_byte (sextets chunk)"
proof -
  have byte: "of_char (b64_char v) = b64_byte (v AND 0x3F)" for v
    by (simp add: b64_char_def b64_byte_def)
  have sig: "significant (b64_byte (v AND 0x3F))" for v
    using alphabet_byte [OF and_63_less, of v] by simp
  have eq: "\<not> significant 61" by (simp add: significant_def)
  obtain p where p: "packed chunk = p" by simp
  show ?thesis
    unfolding encode_chunk_packed [OF assms(1)] sextets_def p
    using assms by (elim chunk_cases) (simp_all add: as_bytes_def byte sig eq)
qed

lemma decode_sextets: "option_all (map (b64_val \<circ> b64_byte) (sextets c)) = Some (sextets c)"
proof -
  have "map (b64_val \<circ> b64_byte) (sextets c) = map Some (sextets c)"
    using sextets_less [of _ c] alphabet_byte by (intro map_cong) auto
  then show ?thesis by (auto simp: option_all_def o_def intro!: map_idI)
qed

lemma mask_63: "(0x3F :: u32) = mask 6"
  by (simp add: mask_numeral)

lemma sextets_or:
  fixes n :: u32
  assumes "\<And>k. 24 \<le> k \<Longrightarrow> \<not> bit n k"
  shows "push_bit 18 (drop_bit 18 n AND 0x3F) OR push_bit 12 (drop_bit 12 n AND 0x3F)
      OR push_bit 6 (drop_bit 6 n AND 0x3F) OR (n AND 0x3F) = n"
  unfolding mask_63
proof (rule bit_word_eqI)
  fix k assume "k < LENGTH(32)"
  consider "k < 6" | "6 \<le> k" "k < 12" | "12 \<le> k" "k < 18" | "18 \<le> k" "k < 24" | "24 \<le> k" by linarith
  then show "bit (push_bit 18 (drop_bit 18 n AND mask 6) OR push_bit 12 (drop_bit 12 n AND mask 6)
      OR push_bit 6 (drop_bit 6 n AND mask 6) OR (n AND mask 6)) k = bit n k"
    by cases (use \<open>k < LENGTH(32)\<close> assms in \<open>auto simp: bit_simps\<close>)
qed

lemma u8_high: "8 \<le> k \<Longrightarrow> \<not> bit (b :: u8) k"
  by (auto dest: bit_imp_le_length)

lemma packed_bit: "k < 8 \<Longrightarrow> bit (packed c) k = bit (if 2 < length c then c ! 2 else 0) k"
  "8 \<le> k \<Longrightarrow> k < 16 \<Longrightarrow> bit (packed c) k = bit (if 1 < length c then c ! 1 else 0) (k - 8)"
  "16 \<le> k \<Longrightarrow> k < 24 \<Longrightarrow> bit (packed c) k = bit (c ! 0) (k - 16)"
  "24 \<le> k \<Longrightarrow> \<not> bit (packed c) k"
  by (auto simp: packed_def bit_simps u8_high)

lemma packed_bytes:
  "ucast (drop_bit 16 (packed c)) = c ! 0"
  "ucast (drop_bit 8 (packed c)) = (if 1 < length c then c ! 1 else 0)"
  "ucast (packed c) = (if 2 < length c then c ! 2 else 0)"
  by (rule bit_word_eqI, simp add: bit_simps packed_bit)+

lemma packed_zero:
  assumes "length c \<le> 2"
  shows "packed c AND 0x3F = 0"
  unfolding mask_63 by (rule bit_word_eqI) (use assms in \<open>auto simp: bit_simps packed_bit\<close>)

lemma packed_zero_2:
  assumes "length c \<le> 1"
  shows "drop_bit 6 (packed c) AND 0x3F = 0"
  unfolding mask_63
proof (rule bit_word_eqI)
  fix k
  show "bit (drop_bit 6 (packed c) AND mask 6) k = bit 0 k"
    by (cases "6 + k < 8"; cases "6 + k < 16") (use assms in \<open>auto simp: bit_simps packed_bit\<close>)
qed

lemma decode_quad_sextets:
  assumes "c \<noteq> []" "length c \<le> 3"
  shows "decode_quad (sextets c) = c"
proof -
  obtain p w x y z where p: "packed c = p" and digits: "drop_bit 18 p AND 0x3F = w"
    "drop_bit 12 p AND 0x3F = x" "drop_bit 6 p AND 0x3F = y" "p AND 0x3F = z" by simp
  have sum: "push_bit 18 w OR (push_bit 12 x OR (push_bit 6 y OR z)) = p"
    using sextets_or [OF packed_bit(4), of c] unfolding p digits by (simp only: or.assoc)
  have short: "length c \<le> 2 \<Longrightarrow> z = 0" "length c \<le> 1 \<Longrightarrow> y = 0"
    using packed_zero [of c] packed_zero_2 [of c] unfolding p digits by simp_all
  note bytes = packed_bytes [of c, unfolded p]
  show ?thesis
    unfolding decode_quad_def sextets_def p digits
    using assms(1,2) sum short bytes by (elim chunk_cases) (simp_all add: or.assoc)
qed

lemma chunks_of_append: "length c = n \<Longrightarrow> 0 < n \<Longrightarrow> chunks_of n (c @ rest) = c # chunks_of n rest"
  by (subst chunks_of.simps) auto

lemma chunks_of_short:
  assumes "c \<noteq> []" "length c \<le> n"
  shows "chunks_of n c = [c]"
proof -
  from assms have "0 < n" by (cases c) auto
  with assms show ?thesis by (subst chunks_of.simps) (simp add: chunks_of.simps [of n "[]"])
qed

text \<open>The digits of the whole data, in quads, are those of its chunks.\<close>

lemma significant_chunks:
  "chunks_of 4 (filter significant (as_bytes (base64_encode data)))
     = map (\<lambda>c. map b64_byte (sextets c)) (chunks_of 3 data)"
proof (induction "3 :: nat" data rule: chunks_of.induct)
  case (1 data)
  show ?case
  proof (cases "data = []")
    case True
    then show ?thesis by (simp add: base64_encode_def chunks_of.simps [of 3 "[]"] chunks_of.simps [of 4 "[]"] as_bytes_def)
  next
    case False
    define c where "c = take 3 data"
    have c: "c \<noteq> []" "length c \<le> 3" using False by (simp_all add: c_def)
    have step: "chunks_of 3 data = c # chunks_of 3 (drop 3 data)"
      using False by (subst chunks_of.simps) (simp add: c_def)
    have enc: "filter significant (as_bytes (base64_encode data))
        = map b64_byte (sextets c) @ filter significant (as_bytes (base64_encode (drop 3 data)))"
      by (simp add: base64_encode_def step encode_chunk_significant [OF c])
    show ?thesis
    proof (cases "length c = 3")
      case True
      then have "length (map b64_byte (sextets c)) = 4" by (simp add: sextets_def)
      with 1 False show ?thesis unfolding enc step by (simp add: chunks_of_append)
    next
      case short: False
      then have "drop 3 data = []" by (auto simp: c_def min_def split: if_splits)
      moreover have "chunks_of 4 (map b64_byte (sextets c)) = [map b64_byte (sextets c)]"
        using c short by (intro chunks_of_short) (auto simp: sextets_def)
      ultimately show ?thesis
        unfolding enc step by (simp add: base64_encode_def chunks_of.simps [of 3 "[]"] as_bytes_def)
    qed
  qed
qed

lemma chunks_of_parts: "c \<in> set (chunks_of n xs) \<Longrightarrow> c \<noteq> [] \<and> length c \<le> n"
proof (induction n xs rule: chunks_of.induct)
  case (1 n xs)
  then show ?case by (subst (asm) (2) chunks_of.simps) (auto split: if_splits)
qed

lemma concat_chunks_of: "0 < n \<Longrightarrow> concat (chunks_of n xs) = xs"
proof (induction n xs rule: chunks_of.induct)
  case (1 n xs)
  then show ?case by (subst chunks_of.simps) simp
qed

lemma base64_decode_encode: "base64_decode (base64_encode data) = Inr data"
proof -
  have quads: "rmap (\<lambda>q. ok_or e (option_all (map b64_val q))) (map (\<lambda>c. map b64_byte (sextets c)) cs)
      = Inr (map sextets cs)" for e :: codec_error and cs
    by (induction cs) (simp_all add: decode_sextets)
  have undo: "map (decode_quad \<circ> sextets) (chunks_of 3 data) = chunks_of 3 data"
    by (rule map_idI) (use chunks_of_parts in \<open>force simp: decode_quad_sextets\<close>)
  have sig: "(\<lambda>b. b \<noteq> 0x3D \<and> \<not> is_ascii_whitespace b) = significant"
    by (simp add: significant_def fun_eq_iff)
  show ?thesis
    unfolding base64_decode_def Let_def sig significant_chunks quads
    by (simp add: undo concat_chunks_of)
qed

text \<open>
  C33: Decoding inverts encoding in base64 for data of any length: the digits and the
  padding of every chunk are read back as its bytes.
\<close>

theorem base64_roundtrip: "base64_decode (base64_encode data) = Inr data"
  by (rule base64_decode_encode)

section \<open>Texts that are not base64\<close>

lemma chunks_of_join: "0 < n \<Longrightarrow> n dvd length xs \<Longrightarrow> chunks_of n (xs @ ys) = chunks_of n xs @ chunks_of n ys"
proof (induction n xs rule: chunks_of.induct)
  case (1 n xs)
  show ?case
  proof (cases "xs = []")
    case True
    then show ?thesis by (simp add: chunks_of.simps [of n "[]"])
  next
    case False
    with "1.prems" have long: "n \<le> length xs" by (simp add: dvd_imp_le)
    have "chunks_of n (drop n xs @ ys) = chunks_of n (drop n xs) @ chunks_of n ys"
      using 1 False long by (simp add: dvd_diff_nat)
    with False long "1.prems" show ?thesis
      by (subst (1 2) chunks_of.simps) simp
  qed
qed

lemma chunks_of_whole: "0 < n \<Longrightarrow> n dvd length xs \<Longrightarrow> c \<in> set (chunks_of n xs) \<Longrightarrow> length c = n"
proof (induction n xs rule: chunks_of.induct)
  case (1 n xs)
  show ?case
  proof (cases "xs = []")
    case True
    with "1.prems" show ?thesis by (simp add: chunks_of.simps [of n "[]"])
  next
    case False
    with "1.prems" have long: "n \<le> length xs" by (simp add: dvd_imp_le)
    from "1.prems"(3) False consider "c = take n xs" | "c \<in> set (chunks_of n (drop n xs))"
      by (subst (asm) chunks_of.simps) (auto split: if_splits)
    then show ?thesis using 1 False long by cases (simp_all add: dvd_diff_nat)
  qed
qed

lemma length_concat_same: "\<forall>c \<in> set cs. length (f c) = k \<Longrightarrow> length (concat (map f cs)) = k * length cs"
  by (induction cs) simp_all

lemma whole_groups:
  assumes "3 dvd length data"
  shows "4 dvd length (filter significant (as_bytes (base64_encode data)))"
proof -
  have "4 dvd length (concat (map (\<lambda>c. map b64_byte (sextets c)) cs))" if "\<forall>c \<in> set cs. length c = 3" for cs
    using that length_concat_same [of cs "\<lambda>c. map b64_byte (sextets c)" 4] by (simp add: sextets_def)
  moreover have "\<forall>c \<in> set (chunks_of 3 data). length c = 3" using chunks_of_whole [of 3 data] assms by simp
  ultimately have "4 dvd length (concat (chunks_of 4 (filter significant (as_bytes (base64_encode data)))))"
    by (simp add: significant_chunks)
  then show ?thesis by (simp add: concat_chunks_of)
qed

lemma length_base64_encode_4: "4 dvd length (base64_encode data)"
proof -
  have "length (concat (map encode_chunk cs)) = 4 * length cs" for cs
    by (rule length_concat_same) (simp add: encode_chunk_def Let_def)
  then show ?thesis by (simp add: base64_encode_def)
qed

lemma base64_decode_eq:
  "base64_decode s = rbind (rmap (\<lambda>q. ok_or (Not_base64 s) (option_all (map b64_val q)))
     (chunks_of 4 (filter significant (as_bytes s)))) (\<lambda>vals. Inr (concat (map decode_quad vals)))"
  by (simp add: base64_decode_def significant_def [abs_def])

lemma rmap_ok_or:
  "rmap (\<lambda>q. ok_or e (f q)) qs = Inr vs \<Longrightarrow> rmap (\<lambda>q. ok_or e' (f q)) qs = Inr vs"
  by (induction qs arbitrary: vs) (auto simp: result_simps)

lemma base64_decode_same:
  assumes "filter significant (as_bytes s) = filter significant (as_bytes t)" "base64_decode s = Inr bs"
  shows "base64_decode t = Inr bs"
  using assms rmap_ok_or by (fastforce simp: base64_decode_eq result_simps)

lemma decode_quad_one: "decode_quad [v] = [push_bit 2 (ucast v)]"
  by (simp add: decode_quad_def) (rule bit_word_eqI, auto simp: bit_simps)

lemma rmap_append_Inr: "rmap f xs = Inr vs \<Longrightarrow> rmap f ys = Inr ws \<Longrightarrow> rmap f (xs @ ys) = Inr (vs @ ws)"
  by (induction xs arbitrary: vs) (auto simp: result_simps)

text \<open>
  C34: The base64 decoder accepts texts that are not base64. After any whole groups a single digit,
  which carries six bits and which no encoder writes there, is decoded into a byte made of these
  bits and two zeros; and padding is skipped wherever it stands and however much of it there is.
\<close>

theorem base64_accepts_lone_digit:
  assumes "3 dvd length data"
  shows "base64_decode (base64_encode data @ [b64_char v]) = Inr (data @ [push_bit 2 (ucast (v AND 0x3F))])
    \<and> (\<forall>other. base64_encode other \<noteq> base64_encode data @ [b64_char v])
    \<and> (\<forall>s t n bs. base64_decode (s @ t) = Inr bs \<longrightarrow> base64_decode (s @ replicate n CHR ''='' @ t) = Inr bs)"
proof (intro conjI allI impI)
  let ?s = "base64_encode data @ [b64_char v]" and ?v = "v AND 0x3F"
  have byte: "of_char (b64_char v) = b64_byte ?v" by (simp add: b64_char_def b64_byte_def)
  have digit: "b64_val (b64_byte ?v) = Some ?v" "significant (b64_byte ?v)"
    using alphabet_byte [OF and_63_less, of v] by simp_all
  have "filter significant (as_bytes ?s) = filter significant (as_bytes (base64_encode data)) @ [b64_byte ?v]"
    using digit(2) by (simp add: as_bytes_def byte)
  moreover have "chunks_of 4 [b64_byte ?v] = [[b64_byte ?v]]" by (rule chunks_of_short) simp_all
  ultimately have chunks: "chunks_of 4 (filter significant (as_bytes ?s)) =
      chunks_of 4 (filter significant (as_bytes (base64_encode data))) @ [[b64_byte ?v]]"
    using chunks_of_join [OF _ whole_groups [OF assms]] by simp
  from base64_decode_encode [of data] obtain vals where
    vals: "rmap (\<lambda>q. ok_or (Not_base64 (base64_encode data)) (option_all (map b64_val q)))
      (chunks_of 4 (filter significant (as_bytes (base64_encode data)))) = Inr vals"
    "concat (map decode_quad vals) = data"
    by (auto simp: base64_decode_eq result_simps)
  have one: "option_all (map b64_val [b64_byte ?v]) = Some [?v]" by (simp add: option_all_def digit)
  have "rmap (\<lambda>q. ok_or (Not_base64 ?s) (option_all (map b64_val q))) [[b64_byte ?v]] = Inr [[?v]]"
    using one by (simp add: ok_or_def result_simps)
  from rmap_append_Inr [OF rmap_ok_or [OF vals(1)] this] show "base64_decode ?s = Inr (data @ [push_bit 2 (ucast ?v)])"
    unfolding base64_decode_eq chunks by (simp add: vals(2) decode_quad_one)
next
  fix other
  show "base64_encode other \<noteq> base64_encode data @ [b64_char v]"
    using length_base64_encode_4 [of other] length_base64_encode_4 [of data] by (auto simp: dvd_def) presburger
next
  fix s t :: string and n bs
  assume "base64_decode (s @ t) = Inr bs"
  moreover have "filter significant (as_bytes (s @ t)) = filter significant (as_bytes (s @ replicate n CHR ''='' @ t))"
    by (simp add: as_bytes_def significant_def)
  ultimately show "base64_decode (s @ replicate n CHR ''='' @ t) = Inr bs" by (rule base64_decode_same [rotated])
qed

theorem base64_accepts_lone_digit_witness:
  "base64_decode ''TWFuQ'' = Inr [0x4D, 0x61, 0x6E, 0x40] \<and> base64_decode ''TWFu=Q'' = Inr [0x4D, 0x61, 0x6E, 0x40]"
proof -
  have enc: "base64_encode [0x4D, 0x61, 0x6E] = ''TWFu''" "b64_char 16 = CHR ''Q''" by code_simp+
  have "3 dvd length [0x4D, 0x61, 0x6E :: u8]" by (simp add: numeral_3_eq_3)
  note lone = base64_accepts_lone_digit [OF this, of 16, unfolded enc]
  have "base64_decode (''TWFu'' @ ''Q'') = Inr [0x4D, 0x61, 0x6E, 0x40]" using lone by simp
  moreover from this lone have "base64_decode (''TWFu'' @ replicate 1 CHR ''='' @ ''Q'') = Inr [0x4D, 0x61, 0x6E, 0x40]" by blast
  ultimately show ?thesis by simp
qed

section \<open>Bits\<close>

lemma span_names_Cons:
  "span_names ty off (b # bs) = concat (map (bit_at ty off b 0) [0..<8]) @ span_names ty (off + 1) bs"
proof -
  have shift: "bit_at ty off x (Suc i) = bit_at ty (off + 1) x i" for x i
    by (simp add: bit_at_def fun_eq_iff algebra_simps)
  have "[0..<length (b # bs)] = 0 # map Suc [0..<length bs]"
    by (simp add: upt_conv_Cons map_Suc_upt del: upt_Suc)
  then show ?thesis by (simp add: span_names_def shift o_def)
qed

lemma span_names_Nil [simp]: "span_names ty off [] = []"
  by (simp add: span_names_def)

lemma span_names_append:
  "span_names ty off (xs @ ys) = span_names ty off xs @ span_names ty (off + word_of_nat (length xs)) ys"
  by (induction xs arbitrary: off) (simp_all add: span_names_Cons algebra_simps)

lemma span_names_zero: "span_names ty off (0 # bs) = span_names ty (off + 1) bs"
  by (simp add: span_names_Cons bit_at_def)

text \<open>The spans and gaps say the same as the bytes they were made of, whatever the gaps add up to.\<close>

lemma decode_spans_from:
  "decode_spans ty off names (spans_from gap bs) = Inr (names @ span_names ty (off + gap) bs)"
proof (induction gap bs arbitrary: off names rule: spans_from.induct)
  case (2 gap b bs)
  show ?case
  proof (cases "b = 0")
    case True
    with 2 show ?thesis by (simp add: span_names_zero add.assoc)
  next
    case False
    define xs where "xs = takeWhile (\<lambda>x. x \<noteq> 0) (b # bs)"
    define ys where "ys = dropWhile (\<lambda>x. x \<noteq> 0) (b # bs)"
    have parts: "b # bs = xs @ ys" by (simp add: xs_def ys_def)
    have rest: "decode_spans ty o' ns (spans_from 0 ys) = Inr (ns @ span_names ty (o' + 0) ys)" for o' ns
      using "2.IH"(2) [OF False] by (simp only: ys_def)
    have "spans_from gap (b # bs) =
        (if 0 < gap then [CInteger (uint gap)] else []) @ CBytes xs # spans_from 0 ys"
      using False by (simp only: spans_from.simps if_False xs_def ys_def)
    moreover have "gap = 0" if "\<not> 0 < gap" using that by (simp add: word_gt_0)
    ultimately show ?thesis
      unfolding parts span_names_append by (auto simp: rest algebra_simps)
  qed
qed simp

definition has_bit :: "bytes \<Rightarrow> nat \<Rightarrow> bool" where
  "has_bit bs p \<longleftrightarrow> p div 8 < length bs \<and> bit (bs ! (p div 8)) (p mod 8)"

lemma has_bit_replicate: "\<not> has_bit (replicate n 0) p"
  by (simp add: has_bit_def)

lemma length_set_bit_at [simp]: "length (set_bit_at bs w) = length bs"
  by (simp add: set_bit_at_def)

lemma unat_div_mod_8: "unat (w div 8 :: u32) = unat w div 8" "unat (w mod 8 :: u32) = unat w mod 8"
  by (simp_all add: unat_div unat_mod)

lemma has_bit_set_bit_at:
  assumes "unat w div 8 < length bs"
  shows "has_bit (set_bit_at bs w) p \<longleftrightarrow> p = unat w \<or> has_bit bs p"
proof (cases "p div 8 = unat w div 8")
  case True
  have m: "p mod 8 < 8" "unat w mod 8 < 8" by simp_all
  have "p = unat w \<longleftrightarrow> p mod 8 = unat w mod 8"
    using True by (metis div_mult_mod_eq)
  with True assms m show ?thesis
    by (auto simp: has_bit_def set_bit_at_def unat_div_mod_8 bit_simps)
next
  case False
  then show ?thesis by (auto simp: has_bit_def set_bit_at_def unat_div_mod_8 nth_list_update)
qed

lemma has_bit_foldl:
  "\<forall>w \<in> set ps. unat w div 8 < length bs \<Longrightarrow>
     has_bit (foldl set_bit_at bs ps) p \<longleftrightarrow> p \<in> unat ` set ps \<or> has_bit bs p"
  by (induction ps arbitrary: bs) (auto simp: has_bit_set_bit_at)

text \<open>The names at the set positions, in ascending order.\<close>

definition name_at :: "type_info \<Rightarrow> nat \<Rightarrow> string list" where
  "name_at ty p = (case find (\<lambda>x. bit_pos x = word_of_nat p) (type_bits ty) of
     Some d \<Rightarrow> [bit_name d] | None \<Rightarrow> [])"

lemma bit_at_name: "k < 8 \<Longrightarrow> i < length bs \<Longrightarrow>
    bit_at ty 0 (bs ! i) i k = (if has_bit bs (8 * i + k) then name_at ty (8 * i + k) else [])"
  by (simp add: bit_at_def name_at_def has_bit_def bit_iff_and_push_bit_not_eq_0 algebra_simps
      cong: option.case_cong)

lemma concat_upt_8: "concat (map (\<lambda>i. map (f i) [0..<8]) [0..<n]) = map (\<lambda>p. f (p div 8) (p mod 8)) [0..<8 * n]"
proof (induction n)
  case (Suc n)
  have "[0..<8 * Suc n] = [0..<8 * n] @ map (\<lambda>k. 8 * n + k) [0..<8]"
  proof -
    have "8 * Suc n = 8 * n + 8" by simp
    then have "[0..<8 * Suc n] = [0..<8 * n] @ [8 * n..<8 * n + 8]"
      by (metis upt_add_eq_append le0)
    moreover have "[8 * n..<8 * n + 8] = map (\<lambda>k. 8 * n + k) [0..<8]"
      using map_add_upt [of "8 * n" 8] by (simp add: add.commute)
    ultimately show ?thesis by (rule trans [OF _ arg_cong])
  qed
  moreover have "map (\<lambda>p. f (p div 8) (p mod 8)) (map (\<lambda>k. 8 * n + k) [0..<8]) = map (f n) [0..<8]"
    by auto
  ultimately show ?case using Suc by simp
qed simp

lemma concat_map_concat: "concat (map (\<lambda>i. concat (f i)) xs) = concat (concat (map f xs))"
  by (induction xs) simp_all

lemma concat_map_if: "concat (map (\<lambda>p. if P p then f p else []) xs) = concat (map f (filter P xs))"
  by (induction xs) simp_all

lemma span_names_positions:
  "span_names ty 0 bs = concat (map (name_at ty) (filter (has_bit bs) [0..<8 * length bs]))"
proof -
  have "span_names ty 0 bs = concat (concat (map (\<lambda>i. map (\<lambda>k. bit_at ty 0 (bs ! i) i k) [0..<8]) [0..<length bs]))"
    by (simp only: span_names_def concat_map_concat)
  also have "\<dots> = concat (map (\<lambda>p. bit_at ty 0 (bs ! (p div 8)) (p div 8) (p mod 8)) [0..<8 * length bs])"
    by (simp only: concat_upt_8)
  also have "\<dots> = concat (map (\<lambda>p. if has_bit bs p then name_at ty p else []) [0..<8 * length bs])"
    by (intro arg_cong [where f = concat] map_cong refl) (simp add: bit_at_name less_mult_imp_div_less mult.commute)
  also have "\<dots> = concat (map (name_at ty) (filter (has_bit bs) [0..<8 * length bs]))"
    by (rule concat_map_if)
  finally show ?thesis .
qed

lemma filter_set_sorted:
  "sorted_wrt (<) qs \<Longrightarrow> \<forall>q \<in> set qs. q < n \<Longrightarrow> filter (\<lambda>p. p \<in> set qs) [0..<n] = (qs :: nat list)"
proof (rule sorted_distinct_set_unique)
qed (auto simp: strict_sorted_iff sorted_wrt_filter)

text \<open>The definitions of the given names, in ascending order of their positions.\<close>

definition named_bits :: "type_info \<Rightarrow> string list \<Rightarrow> bit_def list" where
  "named_bits ty names = filter (\<lambda>b. bit_name b \<in> set names) (sort_key bit_pos (type_bits ty))"

definition bits_type_ok :: "type_info \<Rightarrow> bool" where
  "bits_type_ok ty \<longleftrightarrow> distinct (map bit_name (type_bits ty)) \<and> distinct (map bit_pos (type_bits ty))"

lemma find_distinct:
  "distinct (map f xs) \<Longrightarrow> x \<in> set xs \<Longrightarrow> find (\<lambda>y. f y = f x) xs = Some x"
  by (induction xs) (auto simp: image_iff)

lemma bit_positions:
  "bits_type_ok ty \<Longrightarrow> rmap (bit_position ty) names = Inr ps \<Longrightarrow>
     set ps = bit_pos ` set (named_bits ty names)"
proof (induction names arbitrary: ps)
  case Nil
  then show ?case by (simp add: named_bits_def)
next
  case (Cons name names)
  then obtain p ps' where p: "bit_position ty name = Inr p"
    and "rmap (bit_position ty) names = Inr ps'" "ps = p # ps'"
    by (auto simp: result_simps)
  moreover from p obtain d where d: "find (\<lambda>b. bit_name b = name) (type_bits ty) = Some d" "p = bit_pos d"
    by (auto simp: bit_position_def result_simps)
  ultimately have ps: "rmap (bit_position ty) names = Inr ps'" "ps = bit_pos d # ps'" by auto
  from d(1) have mem: "d \<in> set (type_bits ty)" "bit_name d = name"
    by (auto simp: find_Some_iff)
  have uniq: "b = d" if "b \<in> set (type_bits ty)" "bit_name b = name" for b
    by (rule inj_onD [of bit_name "set (type_bits ty)"])
      (use Cons.prems(1) mem that in \<open>simp_all add: bits_type_ok_def distinct_map\<close>)
  have "b \<in> set (named_bits ty (name # names)) \<longleftrightarrow> b = d \<or> b \<in> set (named_bits ty names)" for b
    using mem uniq [of b] by (cases "bit_name b = name") (auto simp: named_bits_def)
  then have "set (named_bits ty (name # names)) = insert d (set (named_bits ty names))" by blast
  with Cons.IH [OF Cons.prems(1) ps(1)] ps(2) show ?case by simp
qed

lemma length_foldl_set [simp]: "length (foldl set_bit_at bs ps) = length bs"
  by (induction ps arbitrary: bs) simp_all

lemma decode_bits_spans:
  "decode_bits ty (case spans of [CBytes b] \<Rightarrow> CBytes b | _ \<Rightarrow> CArray spans) False
     = rbind (decode_spans ty 0 [] spans) (\<lambda>names. Inr (JString (str_join '' '' names)))"
  by (auto simp: decode_bits_def split: list.splits cbor.splits)

lemma named_bits_sorted:
  assumes "bits_type_ok ty"
  shows "sorted_wrt (<) (map (unat \<circ> bit_pos) (named_bits ty names))"
proof -
  let ?bs = "sort_key bit_pos (type_bits ty)"
  have "distinct (map bit_pos ?bs)" "sorted (map bit_pos ?bs)"
    using assms by (simp_all add: bits_type_ok_def distinct_map)
  then have "sorted_wrt (<) (map bit_pos ?bs)" by (simp add: strict_sorted_iff)
  then have "sorted_wrt (\<lambda>x y. bit_pos x < bit_pos y) (filter (\<lambda>b. bit_name b \<in> set names) ?bs)"
    by (simp add: sorted_wrt_map sorted_wrt_filter)
  then show ?thesis by (simp add: named_bits_def sorted_wrt_map word_less_nat_alt)
qed

lemma name_at_defined:
  assumes "bits_type_ok ty" "d \<in> set (type_bits ty)"
  shows "name_at ty (unat (bit_pos d)) = [bit_name d]"
  using find_distinct [of bit_pos "type_bits ty" d] assms by (simp add: name_at_def bits_type_ok_def)

lemma sorted_le_last: "sorted qs \<Longrightarrow> w \<in> set qs \<Longrightarrow> w \<le> last qs"
  by (induction qs rule: rev_induct) (auto simp: sorted_append)

text \<open>The packed bytes have exactly the bits at the given positions.\<close>

lemma packed_positions:
  assumes "sorted qs" and bs: "bs = foldl set_bit_at (replicate (unat (last qs div 8) + 1) 0) qs"
  shows "has_bit bs p \<longleftrightarrow> p \<in> unat ` set qs" and "q \<in> set qs \<Longrightarrow> unat q < 8 * length bs"
proof -
  have le: "unat w div 8 < unat (last qs div 8) + 1" if "w \<in> set qs" for w
    using sorted_le_last [OF assms(1) that] by (simp add: word_le_nat_alt unat_div_mod_8 div_le_mono less_Suc_eq_le)
  then show "has_bit bs p \<longleftrightarrow> p \<in> unat ` set qs"
    unfolding bs by (subst has_bit_foldl) (simp_all add: has_bit_replicate del: replicate_Suc replicate.simps)
  have "length bs = unat (last qs div 8) + 1"
    unfolding bs by simp
  with le [of q] show "unat q < 8 * length bs" if "q \<in> set qs" using that by auto
qed

lemma encode_positions_decode:
  assumes ok: "bits_type_ok ty" and ps: "set ps = bit_pos ` set (named_bits ty names)"
  shows "decode_bits ty (encode_positions (sort ps)) False = Inr (JString (str_join '' '' (map bit_name (named_bits ty names))))"
proof (cases "ps = []")
  case True
  with ps show ?thesis by (simp add: encode_positions_def decode_bits_def)
next
  case False
  define qs where "qs = sort ps"
  define bs where "bs = foldl set_bit_at (replicate (unat (last qs div 8) + 1) 0) qs"
  define ds where "ds = named_bits ty names"
  have qs: "sorted qs" "set qs = bit_pos ` set ds" using ps by (simp_all add: qs_def ds_def)
  note bits = packed_positions [OF qs(1) bs_def]
  have "filter (has_bit bs) [0..<8 * length bs] = filter (\<lambda>p. p \<in> set (map (unat \<circ> bit_pos) ds)) [0..<8 * length bs]"
    using bits(1) qs(2) by (intro filter_cong) (auto simp: image_image)
  also have "\<dots> = map (unat \<circ> bit_pos) ds"
    using named_bits_sorted [OF ok] bits(2) qs(2) by (intro filter_set_sorted) (auto simp: ds_def)
  finally have "span_names ty 0 bs = concat (map (name_at ty) (map (unat \<circ> bit_pos) ds))"
    by (simp add: span_names_positions)
  also have "\<dots> = concat (map (\<lambda>d. [bit_name d]) ds)"
    unfolding map_map
    by (intro arg_cong [where f = concat] map_cong refl)
      (auto simp: ds_def named_bits_def name_at_defined [OF ok])
  finally have names: "span_names ty 0 bs = map bit_name ds" by (induction ds) simp_all
  have "encode_positions (sort ps) = (case spans_from 0 bs of [CBytes b] \<Rightarrow> CBytes b | _ \<Rightarrow> CArray (spans_from 0 bs))"
  proof -
    have "qs \<noteq> []" using False by (metis length_0_conv length_sort qs_def)
    then show ?thesis
      unfolding encode_positions_def Let_def bits_bytes_to_spans_def qs_def [symmetric] bs_def [symmetric]
      by simp
  qed
  with decode_spans_from [of ty 0 "[]" 0 bs] names show ?thesis
    by (simp add: decode_bits_spans ds_def)
qed

lemma bits_decode_encode:
  assumes ok: "bits_type_ok ty" and enc: "encode_bits ty (JString s) False = Inr c"
  shows "decode_bits ty c False = Inr (JString (str_join '' '' (map bit_name (named_bits ty (split_whitespace s)))))"
proof -
  from enc obtain ps where "rmap (bit_position ty) (split_whitespace s) = Inr ps" "c = encode_positions (sort ps)"
    by (auto simp: encode_bits_def bit_names_of_def result_simps)
  with encode_positions_decode [OF ok bit_positions [OF ok]] show ?thesis by simp
qed

text \<open>
  C31: Bits survive the wire: whatever names of a type are given, in any order and with
  repetitions, packing their positions into bytes, cutting the bytes into spans and gaps and
  decoding these gives each name once, in the order of the positions. The gaps may be as
  long as the positions allow.
\<close>

theorem bits_roundtrip:
  assumes "distinct (map bit_name (type_bits ty))" "distinct (map bit_pos (type_bits ty))"
    and "encode_bits ty (JString s) False = Inr c"
  shows "decode_bits ty c False = Inr (JString (str_join '' ''
    (map bit_name (filter (\<lambda>b. bit_name b \<in> set (split_whitespace s)) (sort_key bit_pos (type_bits ty))))))"
  using bits_decode_encode [of ty s c] assms by (simp add: bits_type_ok_def named_bits_def)

definition sample_bits :: type_info where
  "sample_bits = (type_info_new Bits)\<lparr>type_bits :=
     [\<lparr>bit_name = ''far'', bit_pos = 33\<rparr>, \<lparr>bit_name = ''low'', bit_pos = 1\<rparr>, \<lparr>bit_name = ''odd'', bit_pos = 40\<rparr>]\<rparr>"

theorem bits_roundtrip_witness:
  "decode_bits sample_bits (CArray [CBytes [2], CInteger 3, CBytes [2]]) False = Inr (JString ''low far'')"
proof -
  have "split_whitespace ''far low far'' = [''far'', ''low'', ''far'']"
    using split_join_words [of "[''far'', ''low'', ''far'']"]
    by (simp add: plain_word_def ascii_def is_whitespace_def)
  moreover have "encode_positions [1, 33, 33] = CArray [CBytes [2], CInteger 3, CBytes [2]]" by code_simp
  ultimately have "encode_bits sample_bits (JString ''far low far'') False
      = Inr (CArray [CBytes [2], CInteger 3, CBytes [2]])"
    by (simp add: encode_bits_def bit_names_of_def bit_position_def sample_bits_def type_info_new_def word_le_nat_alt)
  with \<open>split_whitespace ''far low far'' = [''far'', ''low'', ''far'']\<close> show ?thesis
    using bits_roundtrip [of sample_bits "''far low far''"]
    by (simp add: sample_bits_def type_info_new_def word_le_nat_alt)
qed

section \<open>Decimals\<close>

text \<open>A decimal text of a sign, digits before the point, and digits behind it (or no point).\<close>

definition decimal_text :: "bool \<Rightarrow> string \<Rightarrow> string \<Rightarrow> string" where
  "decimal_text neg ip fp = (if neg then [CHR ''-''] else []) @ ip @ (if fp = [] then [] else CHR ''.'' # fp)"

text \<open>Its exact value, in units of the last of \<open>d\<close> fraction digits.\<close>

definition decimal_units :: "nat \<Rightarrow> bool \<Rightarrow> string \<Rightarrow> string \<Rightarrow> int" where
  "decimal_units d neg ip fp =
     (if neg then -1 else 1) * (int (digits_value ip) * 10 ^ d + int (digits_value fp) * 10 ^ (d - length fp))"

lemma char_count_ascii: "ascii s \<Longrightarrow> char_count s = length s"
  by (simp add: char_count_def str_chars_ascii)

lemma digits_ascii: "list_all is_digit s \<Longrightarrow> ascii s"
  by (induction s) (auto simp: ascii_def is_digit_def)

lemma digits_value_append: "digits_value (s @ t) = digits_value s * 10 ^ length t + digits_value t"
proof (induction t rule: rev_induct)
  case (snoc c t)
  have "digits_value (u @ [c]) = digits_value u * 10 + (of_char c - 48)" for u by (simp add: digits_value_def)
  with snoc show ?case by (simp only: append_assoc [symmetric]) (simp add: algebra_simps)
qed (simp add: digits_value_def)

lemma digits_value_zeros: "digits_value (replicate n (CHR ''0'')) = 0"
  by (induction n) (simp_all add: digits_value_def)

lemma zeros_are_digits [simp]: "list_all is_digit (replicate n (CHR ''0''))"
  by (induction n) (simp_all add: is_digit_def)

lemma parse_i128_digits:
  assumes "list_all is_digit s" "s \<noteq> []" "int (digits_value s) < 2 ^ 127"
  shows "parse_i128 s = Some (int (digits_value s))"
proof -
  obtain c r where s: "s = c # r" using assms(2) by (cases s) auto
  with assms(1) have "c \<noteq> CHR ''-''" "c \<noteq> CHR ''+''" by (auto simp: is_digit_def)
  with assms s show ?thesis by (simp add: parse_i128_def parse_int_def parse_digits_def)
qed

lemma small_exponent: "- 256 < i \<Longrightarrow> i \<le> 0 \<Longrightarrow> sint (word_of_int i :: 32 word) = i \<and> trunc_i64 i = i"
  by (simp add: trunc_i64_def signed_of_int signed_take_bit_int_eq_self)

lemma digits_no_point: "list_all is_digit s \<Longrightarrow> CHR ''.'' \<notin> set s"
  by (auto simp: list_all_iff is_digit_def)

lemma decimal_split:
  assumes "list_all is_digit ip" "ip \<noteq> []"
  shows "(case strip_prefix ''-'' (decimal_text neg ip fp) of Some r \<Rightarrow> (-1 :: int, r) | None \<Rightarrow> (1, decimal_text neg ip fp))
      = (if neg then -1 else 1, ip @ (if fp = [] then [] else CHR ''.'' # fp))"
    and "(case split_once (CHR ''.'') (ip @ (if fp = [] then [] else CHR ''.'' # fp)) of
      Some p \<Rightarrow> p | None \<Rightarrow> (ip @ (if fp = [] then [] else CHR ''.'' # fp), [])) = (ip, fp)"
proof -
  obtain c r where ip: "ip = c # r" using assms(2) by (cases ip) auto
  with assms(1) have "c \<noteq> CHR ''-''" by (auto simp: is_digit_def)
  then show "(case strip_prefix ''-'' (decimal_text neg ip fp) of Some r \<Rightarrow> (-1 :: int, r) | None \<Rightarrow> (1, decimal_text neg ip fp))
      = (if neg then -1 else 1, ip @ (if fp = [] then [] else CHR ''.'' # fp))"
    by (simp add: decimal_text_def ip)
  show "(case split_once (CHR ''.'') (ip @ (if fp = [] then [] else CHR ''.'' # fp)) of
      Some p \<Rightarrow> p | None \<Rightarrow> (ip @ (if fp = [] then [] else CHR ''.'' # fp), [])) = (ip, fp)"
  proof (cases "fp = []")
    case True
    then show ?thesis using split_once_None [of "CHR ''.''" ip] digits_no_point [OF assms(1)] by simp
  next
    case False
    then show ?thesis using split_once_Some [of "CHR ''.''" "ip @ CHR ''.'' # fp" ip fp] digits_no_point [OF assms(1)] by simp
  qed
qed

text \<open>
  C35: A decimal64 is exact on the wire: for every decimal text with at most the type's fraction
  digits and a value that fits 64 bits, the tag carries the exponent of the fraction digits and
  the exact value in their units. Exactly these numbers are what the decoder makes its text from,
  through a float, so any loss is in the text of the float and not in the encoding.
\<close>

theorem decimal64_on_the_wire:
  assumes "fraction_digits ty = Some fd" "list_all is_digit ip" "list_all is_digit fp" "ip \<noteq> []" "length fp \<le> unat fd"
    and "- (2 ^ 63) \<le> decimal_units (unat fd) neg ip fp" "decimal_units (unat fd) neg ip fp < 2 ^ 63"
  shows "encode_decimal64 ty (JString (decimal_text neg ip fp))
      = Inr (CTag 4 (CArray [CInteger (- int (unat fd)), CInteger (decimal_units (unat fd) neg ip fp)]))
    \<and> rbind (encode_decimal64 ty (JString (decimal_text neg ip fp))) (decode_decimal64 E)
      = Inr (JString (float_text E (decimal_units (unat fd) neg ip fp) (- int (unat fd))))"
proof -
  let ?fd = "unat fd"
  let ?u = "decimal_units ?fd neg ip fp"
  let ?ds = "ip @ fp @ replicate (?fd - length fp) (CHR ''0'')"
  let ?sign = "if neg then -1 else 1 :: int"
  have digits: "int (digits_value ?ds) = ?sign * ?u"
    using assms(5) by (simp add: digits_value_append digits_value_zeros decimal_units_def algebra_simps flip: power_add)
  have "\<bar>?u\<bar> \<le> 2 ^ 63" using assms(6,7) by simp
  then have "int (digits_value ?ds) \<le> 2 ^ 63" unfolding digits by (cases neg) simp_all
  then have "int (digits_value ?ds) < 2 ^ 127" by (rule order_le_less_trans) simp
  moreover have "list_all is_digit ?ds" using assms(2,3) by simp
  ultimately have parsed: "parse_i128 ?ds = Some (?sign * ?u)" using parse_i128_digits [of ?ds] assms(4) digits by simp
  have trunc: "trunc_i64 ?u = ?u" using assms(6,7) by (simp add: trunc_i64_def signed_of_int signed_take_bit_int_eq_self)
  have unit: "?sign * (?sign * ?u) = ?u" by simp
  have r: "encode_decimal64 ty (JString (decimal_text neg ip fp)) = Inr (CTag 4 (CArray [CInteger (- int ?fd), CInteger ?u]))"
    using assms(1,4,5) parsed trunc unit decimal_split [OF assms(2,4)] char_count_ascii [OF digits_ascii [OF assms(3)]]
    by (cases neg) (simp_all add: encode_decimal64_def as_str_def ok_or_def Let_def)
  have "?fd < 256" using unsigned_less [of fd, where ?'a = nat] by simp
  then have "sint (word_of_int (- int ?fd) :: 32 word) = - int ?fd \<and> trunc_i64 (- int ?fd) = - int ?fd"
    by (intro small_exponent) linarith+
  with r show ?thesis
    by (simp add: decode_decimal64_def decimal64_tag_parts_def cbor_as_i128_def ok_or_def)
qed

theorem decimal64_on_the_wire_witness:
  "encode_decimal64 ((type_info_new Decimal64)\<lparr>fraction_digits := Some 2\<rparr>) (JString ''-10.5'')
     = Inr (CTag 4 (CArray [CInteger (-2), CInteger (-1050)]))"
proof -
  have "decimal_text True ''10'' ''5'' = ''-10.5''" by code_simp
  moreover have "decimal_units (unat (2 :: u8)) True ''10'' ''5'' = -1050" by code_simp
  ultimately show ?thesis
    using decimal64_on_the_wire [of "(type_info_new Decimal64)\<lparr>fraction_digits := Some 2\<rparr>" 2 "''10''" "''5''" True]
    by (simp add: is_digit_def)
qed

end
