(* ===== verification/Yang_Leaf.thy ===== *)
theory Yang_Leaf
  imports Yang_Values_Correct Yang_Types Cbor_Correct
begin

text \<open>
  The values of leaves in both directions (\<open>type_to_cbor\<close> and \<open>type_to_json\<close> of
  \<open>src/yang/src/codec.rs\<close>): well-formed JSON, the canonical values of each type, and
  the proof that they survive the wire.
\<close>

section \<open>Well-formed values\<close>

text \<open>
  The JSON values that Rust can hold: text is UTF-8, lengths fit the address space, integers
  fit \<open>i64\<close> or \<open>u64\<close>.
\<close>

definition text_ok :: "string \<Rightarrow> bool" where
  "text_ok s \<longleftrightarrow> utf8_ok (as_bytes s) \<and> length s < usize_limit"

fun json_ok :: "json \<Rightarrow> bool" where
  "json_ok JNull = True"
| "json_ok (JBool b) = True"
| "json_ok (JNumber n) = (case n of NInt i \<Rightarrow> - (2 ^ 63) \<le> i \<and> i < 2 ^ 64 | NFloat t \<Rightarrow> text_ok t)"
| "json_ok (JString s) = text_ok s"
| "json_ok (JArray vs) \<longleftrightarrow> length vs < usize_limit \<and> (\<forall>v \<in> set vs. json_ok v)"
| "json_ok (JObject es) \<longleftrightarrow>
     length es < usize_limit \<and> (\<forall>e \<in> set es. text_ok (fst e) \<and> json_ok (snd e))"

lemma generic_cbor_ok: "json_ok v \<Longrightarrow> cbor_ok (json_to_cbor_generic v)"
  by (induction v rule: json_to_cbor_generic.induct) (auto simp: text_ok_def split: number.splits)

section \<open>Machine integers\<close>

lemma sint_i64_bounds: "- (2 ^ 63) \<le> sint (w :: i64) \<and> sint w < 2 ^ 63"
  using sint_lt [of w] sint_ge [of w] by simp

lemma cbor_ok_sint [simp]: "cbor_ok (CInteger (sint (w :: i64)))"
  using sint_i64_bounds [of w] by simp

lemma cbor_ok_uint32 [simp]: "cbor_ok (CInteger (uint (w :: u32)))"
proof -
  have "- (2 ^ 64) \<le> (0 :: int)" by simp
  moreover have "uint w < 2 ^ 32" "0 \<le> uint w" using uint_lt2p [of w] by simp_all
  moreover have "(2 :: int) ^ 32 < 2 ^ 64" by simp
  ultimately show ?thesis unfolding cbor_ok.simps by (meson order_trans less_trans)
qed

lemma parse_i64_bounds: "parse_i64 s = Some i \<Longrightarrow> - (2 ^ 63) \<le> i \<and> i < 2 ^ 63"
  unfolding parse_i64_def by (drule parse_int_bounds) simp

lemma parse_u64_bounds: "parse_u64 s = Some i \<Longrightarrow> 0 \<le> i \<and> i < 2 ^ 64"
  unfolding parse_u64_def by (drule parse_int_bounds) simp

lemma trunc_i64_small: "- (2 ^ 63) \<le> n \<Longrightarrow> n < 2 ^ 63 \<Longrightarrow> trunc_i64 n = n"
  by (simp add: trunc_i64_def signed_of_int signed_take_bit_int_eq_self)

lemma word_of_int_sint: "word_of_int (sint (w :: i64)) = w"
  by simp

lemma sint_eq_iff [simp]: "sint (v :: i64) = sint w \<longleftrightarrow> v = w"
  by (metis word_of_int_sint)

lemma trunc_i64_sint [simp]: "trunc_i64 (sint (w :: i64)) = sint w"
  by (simp add: trunc_i64_def)

lemma uint_u64: "0 \<le> n \<Longrightarrow> n < 2 ^ 64 \<Longrightarrow> uint (word_of_int n :: u64) = n"
  by (simp add: unsigned_of_int take_bit_int_eq_self)

section \<open>Canonical values\<close>

text \<open>
  The values of a type in the form that the decoder writes: a name qualified by its module,
  bits in the order of their positions, base64 with padding, integers without a sign or
  zeros in front. Decimals are left out because their text is a float's, unions and instance
  identifiers because they have properties of their own.
\<close>

definition canonical_identity :: "codec_env \<Rightarrow> type_descriptor \<Rightarrow> string \<Rightarrow> bool" where
  "canonical_identity E ty s \<longleftrightarrow>
     CHR '':'' \<in> set s \<and>
     (case identity_values (info ty) of
        None \<Rightarrow> False
      | Some candidates \<Rightarrow>
          (case find (identity_matches (the_schema E) (module_or_empty (source_module (info ty))) s) candidates of
             None \<Rightarrow> False
           | Some i \<Rightarrow>
               (case identity_sid (identities (the_schema E) ! i) of
                  None \<Rightarrow> False
                | Some sid \<Rightarrow> identity_by_sid (the_schema E) sid = Some i)))"

definition canonical_bits :: "type_info \<Rightarrow> string \<Rightarrow> bool" where
  "canonical_bits ty s \<longleftrightarrow>
     bits_type_ok ty \<and> s = str_join '' '' (map bit_name (named_bits ty (split_whitespace s)))"

fun canonical :: "nat \<Rightarrow> codec_env \<Rightarrow> type_descriptor \<Rightarrow> json \<Rightarrow> bool" where
  "canonical 0 E ty v = False"
| "canonical (Suc d) E ty v =
    (case builtin_type ty of
       Int8 \<Rightarrow> as_i64 v \<noteq> None
     | Int16 \<Rightarrow> as_i64 v \<noteq> None
     | Int32 \<Rightarrow> as_i64 v \<noteq> None
     | Uint8 \<Rightarrow> as_i64 v \<noteq> None
     | Uint16 \<Rightarrow> as_i64 v \<noteq> None
     | Uint32 \<Rightarrow> as_i64 v \<noteq> None
     | Int64 \<Rightarrow> (case v of JString s \<Rightarrow> map_option int_text (parse_i64 s) = Some s | _ \<Rightarrow> False)
     | Uint64 \<Rightarrow> (case v of JString s \<Rightarrow> map_option int_text (parse_u64 s) = Some s | _ \<Rightarrow> False)
     | Boolean \<Rightarrow> True
     | String_type \<Rightarrow> True
     | Empty \<Rightarrow> True
     | Binary \<Rightarrow>
         (case v of JString s \<Rightarrow> (case base64_decode s of Inr b \<Rightarrow> base64_encode b = s | Inl _ \<Rightarrow> False)
          | _ \<Rightarrow> False)
     | Enumeration \<Rightarrow> distinct (map enum_value (type_enums (info ty)))
     | Bits \<Rightarrow> (case v of JString s \<Rightarrow> canonical_bits (info ty) s | _ \<Rightarrow> False)
     | Identityref \<Rightarrow> (case v of JString s \<Rightarrow> canonical_identity E ty s | _ \<Rightarrow> False)
     | Leafref \<Rightarrow> (case target_type (the_schema E) ty of Some t \<Rightarrow> canonical d E t v | None \<Rightarrow> False)
     | _ \<Rightarrow> False)"

section \<open>Leaves\<close>

lemma small_int_leaf:
  "encode_small_int ty v = Inr c \<Longrightarrow> as_i64 v \<noteq> None \<Longrightarrow>
     \<exists>i. v = JNumber (NInt i) \<and> c = CInteger i \<and> - (2 ^ 63) \<le> i \<and> i < 2 ^ 63"
  by (cases v) (auto simp: encode_small_int_def json_number_to_i128_def or_else_def as_i64_def Let_def
      trunc_i64_small result_simps split: number.splits if_splits)

lemma length_base64_encode: "length b \<le> length (base64_encode b)"
proof -
  have "length c \<le> length (encode_chunk c)" if "c \<in> set (chunks_of 3 b)" for c
    using chunks_of_parts [OF that] by (simp add: encode_chunk_def Let_def)
  then have "length (concat (chunks_of 3 b)) \<le> length (concat (map encode_chunk (chunks_of 3 b)))"
    by (induction "chunks_of 3 b" arbitrary: b rule: list.induct) 
      (auto simp: length_concat intro!: sum_list_mono)
  then show ?thesis by (simp add: base64_encode_def concat_chunks_of)
qed

lemma enum_leaf:
  assumes "encode_enum ty v False = Inr c" "distinct (map enum_value (type_enums ty))"
  shows "decode_enum ty c False = Inr v \<and> cbor_ok c"
proof -
  from assms(1) obtain s e where s: "v = JString s" "find (\<lambda>e. enum_name e = s) (type_enums ty) = Some e"
    "c = CInteger (sint (enum_value e))"
    by (cases v) (auto simp: encode_enum_def as_str_def result_simps)
  then have e: "e \<in> set (type_enums ty)" "enum_name e = s" by (auto simp: find_Some_iff)
  have "find (\<lambda>x. enum_value x = enum_value e) (type_enums ty) = Some e"
    by (rule find_distinct [OF assms(2) e(1)])
  then show ?thesis
    using s e by (simp add: decode_enum_def cbor_as_i128_def del: cbor_ok.simps)
qed

lemma identityref_leaf:
  assumes "encode_identityref (the_schema E) ty (JString s) False = Inr c" "canonical_identity E ty s"
  shows "decode_identityref (the_schema E) c False = Inr (JString s) \<and> cbor_ok c"
proof -
  let ?S = "the_schema E"
  from assms(2) obtain cs i sid where i: "identity_values (info ty) = Some cs"
    "find (identity_matches ?S (module_or_empty (source_module (info ty))) s) cs = Some i"
    "identity_sid (identities ?S ! i) = Some sid" "identity_by_sid ?S sid = Some i"
    and colon: "CHR '':'' \<in> set s"
    by (auto simp: canonical_identity_def split: option.splits)
  with assms(1) have c: "c = CInteger (sint sid)"
    by (simp add: encode_identityref_def as_str_def)
  from colon obtain m n where mn: "split_once (CHR '':'') s = Some (m, n)"
    by (cases "split_once (CHR '':'') s") (auto simp: split_once_None)
  from i(2) have "identity_matches ?S (module_or_empty (source_module (info ty))) s i"
    by (auto simp: find_Some_iff)
  with mn have "identity_module (identities ?S ! i) = m" "identity_name (identities ?S ! i) = n"
    by (simp_all add: identity_matches_def Let_def)
  moreover have "s = m @ CHR '':'' # n" using mn by (simp add: split_once_Some)
  ultimately show ?thesis
    using i(4) by (simp add: decode_identityref_def identityref_sid_def cbor_as_i128_def c del: cbor_ok.simps)
qed

lemma spans_ok:
  "length bs < n \<Longrightarrow> length (spans_from gap bs) \<le> 2 * length bs
     \<and> (\<forall>v \<in> set (spans_from gap bs). (\<exists>g :: u32. v = CInteger (uint g)) \<or> (\<exists>b. v = CBytes b \<and> length b < n))"
proof (induction gap bs rule: spans_from.induct)
  case (2 gap b bs)
  show ?case
  proof (cases "b = 0")
    case True
    with 2 show ?thesis by auto
  next
    case False
    have "length (dropWhile (\<lambda>x. x \<noteq> 0) bs) \<le> length bs" "length (takeWhile (\<lambda>x. x \<noteq> 0) bs) \<le> length bs"
      by (simp_all add: length_dropWhile_le length_takeWhile_le)
    with False "2.IH"(2) [OF False] "2.prems" show ?thesis by force
  qed
qed simp

lemma bits_cbor_ok: "encode_bits ty v False = Inr c \<Longrightarrow> cbor_ok c"
proof -
  assume "encode_bits ty v False = Inr c"
  then obtain ps where c: "c = encode_positions ps" by (auto simp: encode_bits_def result_simps)
  define bs where "bs = foldl set_bit_at (replicate (unat (last ps div 8) + 1) 0) ps"
  have "unat (last ps div 8) < 2 ^ 29"
    using unsigned_less [of "last ps", where 'a = nat] by (simp add: unat_div)
  then have len: "length bs < 2 ^ 30" by (simp add: bs_def)
  have "cbor_ok v" if "v \<in> set (spans_from 0 bs)" for v
  proof -
    from spans_ok [OF len, of 0] that consider g :: u32 where "v = CInteger (uint g)"
      | b where "v = CBytes b" "length b < 2 ^ 30" by blast
    then show ?thesis
    proof cases
      case (1 g)
      then show ?thesis by (simp del: cbor_ok.simps)
    next
      case (2 b)
      then show ?thesis by (simp add: usize_limit_def)
    qed
  qed
  moreover have "length (spans_from 0 bs) < usize_limit"
    using spans_ok [OF len, of 0] len by (simp add: usize_limit_def)
  ultimately have "cbor_ok (case spans_from 0 bs of [CBytes b] \<Rightarrow> CBytes b | _ \<Rightarrow> CArray (spans_from 0 bs))"
    by (auto split: list.splits cbor.splits)
  then show ?thesis
    unfolding c encode_positions_def Let_def bits_bytes_to_spans_def bs_def [symmetric]
    by (simp add: usize_limit_def)
qed

lemma type_roundtrip:
  "canonical d E ty v \<Longrightarrow> json_ok v \<Longrightarrow> type_to_cbor_checked d E ty v False = Inr c \<Longrightarrow>
     type_to_json_within d E ty c False = Inr v \<and> cbor_ok c"
proof (induction d arbitrary: ty)
  case (Suc d)
  note defs = type_to_cbor_checked.simps(2) type_to_json_within.simps(2) cbor_as_i128_def
  have small: ?case if "encode_small_int (info ty) v = Inr c" "as_i64 v \<noteq> None"
    "builtin_type ty \<in> {Int8, Int16, Int32, Uint8, Uint16, Uint32}"
    using small_int_leaf [OF that(1,2)] that(3) by (auto simp: defs trunc_i64_small)
  show ?case
  proof (cases "builtin_type ty")
    case Int64
    with Suc.prems obtain s i where "v = JString s" "parse_i64 s = Some i" "int_text i = s" "c = CInteger i"
      by (cases v) (auto simp: defs encode_int64_def as_str_def result_simps)
    with Int64 parse_i64_bounds [of s i] show ?thesis by (simp add: defs trunc_i64_small)
  next
    case Uint64
    with Suc.prems obtain s i where "v = JString s" "parse_u64 s = Some i" "int_text i = s" "c = CInteger i"
      by (cases v) (auto simp: defs encode_uint64_def as_str_def result_simps)
    with Uint64 parse_u64_bounds [of s i] uint_u64 [of i] show ?thesis by (simp add: defs)
  next
    case Boolean
    with Suc.prems show ?thesis
      by (cases v) (auto simp: defs as_json_bool_def as_bool_def result_simps)
  next
    case String_type
    with Suc.prems show ?thesis
      by (cases v) (auto simp: defs encode_string_def as_str_def as_text_def result_simps text_ok_def
          split: if_splits option.splits)
  next
    case Binary
    with Suc.prems obtain s b where "v = JString s" "base64_decode s = Inr b" "base64_encode b = s" "c = CBytes b"
      by (cases v) (auto simp: defs encode_binary_def as_str_def result_simps split: if_splits sum.splits)
    with Binary Suc.prems(2) length_base64_encode [of b] show ?thesis
      by (simp add: defs as_byte_string_def text_ok_def)
  next
    case Empty
    with Suc.prems show ?thesis by (auto simp: defs encode_empty_def split: if_splits)
  next
    case Enumeration
    with Suc.prems enum_leaf [of "info ty" v c] show ?thesis by (simp add: defs)
  next
    case Bits
    with Suc.prems obtain s where s: "v = JString s" "canonical_bits (info ty) s"
      by (cases v) auto
    with Bits Suc.prems(3) bits_decode_encode [of "info ty" s c] bits_cbor_ok [of "info ty" v c] show ?thesis
      by (auto simp: defs canonical_bits_def)
  next
    case Identityref
    with Suc.prems obtain s where s: "v = JString s" "canonical_identity E ty s"
      by (cases v) auto
    with Identityref Suc.prems(3) identityref_leaf [of E ty s c] show ?thesis by (simp add: defs)
  next
    case Leafref
    with Suc.prems Suc.IH show ?thesis by (auto simp: defs split: option.splits)
  qed (use Suc.prems small in \<open>simp_all add: defs\<close>)
qed simp

end
