(* ===== verification/Yang_Fields.thy ===== *)
theory Yang_Fields
  imports Yang_Codec Yang_Leaf
begin

text \<open>
  Good schemas, the data parent of a node, and the agreement of the two ways in which the
  codec finds a field, by name and by SID (\<open>encode_body\<close> and \<open>decode_body\<close> of
  \<open>src/yang/src/codec.rs\<close>), as a locale that both loops interpret.
\<close>

section \<open>Good schemas\<close>

text \<open>The nodes of the trees that the codec reaches: those below the roots.\<close>

inductive live :: "schema \<Rightarrow> nat \<Rightarrow> bool" for S where
  live_root: "m \<in> set (module_root S) \<Longrightarrow> r \<in> set (root_nodes (snd m)) \<Longrightarrow> live S r"
| live_yang_data: "y \<in> set (yang_datas S) \<Longrightarrow> live S (yang_data_root y)"
| live_child: "live S i \<Longrightarrow> c \<in> set (children (nodes S ! i)) \<Longrightarrow> live S c"

text \<open>
  What the codec relies on in a schema: for the live nodes, children and parents agree and the
  SID index leads from the SID of a node to that node; roots are nodes.
\<close>

definition schema_ok :: "schema \<Rightarrow> bool" where
  "schema_ok S \<longleftrightarrow> arena_ok (nodes S)
     \<and> (\<forall>i. live S i \<longrightarrow> (\<forall>c \<in> set (children (nodes S ! i)). parent (nodes S ! c) = Some i))
     \<and> (\<forall>i sid. live S i \<longrightarrow> node_sid (nodes S ! i) = Some sid \<longrightarrow> node_by_sid S sid = Some i)
     \<and> (\<forall>m \<in> set (module_root S). \<forall>r \<in> set (root_nodes (snd m)). r < length (nodes S))
     \<and> (\<forall>y \<in> set (yang_datas S). yang_data_root y < length (nodes S))"

lemma schema_ok_arena: "schema_ok S \<Longrightarrow> arena_ok (nodes S)"
  by (simp add: schema_ok_def)

lemma live_range:
  "live S i \<Longrightarrow> arena_ok (nodes S) \<Longrightarrow>
     (\<forall>m \<in> set (module_root S). \<forall>r \<in> set (root_nodes (snd m)). r < length (nodes S)) \<Longrightarrow>
     (\<forall>y \<in> set (yang_datas S). yang_data_root y < length (nodes S)) \<Longrightarrow> i < length (nodes S)"
  by (induction rule: live.induct) (auto dest: arena_ok_child)

lemma schema_ok_range: "schema_ok S \<Longrightarrow> live S i \<Longrightarrow> i < length (nodes S)"
  by (rule live_range) (auto simp: schema_ok_def)

text \<open>A condition on every node of the arena, which can be evaluated.\<close>

lemma schema_okI:
  assumes "arena_ok (nodes S)"
    and "\<forall>i < length (nodes S). \<forall>c \<in> set (children (nodes S ! i)). parent (nodes S ! c) = Some i"
    and "\<forall>i < length (nodes S). case node_sid (nodes S ! i) of None \<Rightarrow> True | Some sid \<Rightarrow> node_by_sid S sid = Some i"
    and "\<forall>m \<in> set (module_root S). \<forall>r \<in> set (root_nodes (snd m)). r < length (nodes S)"
    and "\<forall>y \<in> set (yang_datas S). yang_data_root y < length (nodes S)"
  shows "schema_ok S"
proof -
  have len: "live S i \<Longrightarrow> i < length (nodes S)" for i using live_range [OF _ assms(1,4,5)] by simp
  have "node_by_sid S sid = Some i" if "live S i" "node_sid (nodes S ! i) = Some sid" for i sid
    using len [OF that(1)] that(2) assms(3) by fastforce
  with len assms show ?thesis by (auto simp: schema_ok_def)
qed

lemma schema_ok_parent:
  "schema_ok S \<Longrightarrow> live S i \<Longrightarrow> c \<in> set (children (nodes S ! i)) \<Longrightarrow> parent (nodes S ! c) = Some i"
  by (simp add: schema_ok_def)

lemma schema_ok_sid:
  "schema_ok S \<Longrightarrow> live S i \<Longrightarrow> node_sid (nodes S ! i) = Some sid \<Longrightarrow> node_by_sid S sid = Some i"
  by (simp add: schema_ok_def)

lemma find_SomeD: "find P xs = Some x \<Longrightarrow> x \<in> set xs \<and> P x"
  by (induction xs) (auto split: if_splits)

lemma spliced_within_live:
  "\<forall>i \<in> set ids. live S i \<Longrightarrow> j \<in> set (spliced_within d (nodes S) ids) \<Longrightarrow> live S j"
proof (induction d "nodes S" ids rule: spliced_within.induct)
  case (2 i ids)
  then show ?case by (auto split: if_splits)
next
  case (3 d i ids)
  then show ?case by (auto split: if_splits intro: live_child)
qed simp

lemma data_children_live: "live S i \<Longrightarrow> j \<in> set (data_children S i) \<Longrightarrow> live S j"
  unfolding data_children_def spliced_def by (rule spliced_within_live) (auto intro: live_child)

lemma schema_ok_root:
  assumes "root_data_node_by_name S name = Some c"
  shows "live S c \<and> node_name (nodes S ! c) = name"
proof -
  from find_SomeD [OF assms [unfolded root_data_node_by_name_def]]
  obtain m where m: "m \<in> set (module_root S)" "c \<in> set (spliced (nodes S) (root_nodes (snd m)))"
    and name: "node_name (nodes S ! c) = name" by auto
  have "live S c" using m(2) unfolding spliced_def
    by (rule spliced_within_live [rotated]) (use m(1) in \<open>auto intro: live_root\<close>)
  with name show ?thesis by simp
qed

section \<open>The data parent of a node\<close>

text \<open>A node is spliced into one parent only: its nearest ancestor that is not a choice or case.\<close>

inductive under :: "node list \<Rightarrow> nat \<Rightarrow> nat \<Rightarrow> bool" where
  under_child: "parent (ns ! i) = Some p \<Longrightarrow> kw (ns ! p) \<notin> {''choice'', ''case''} \<Longrightarrow> under ns p i"
| under_choice: "parent (ns ! i) = Some q \<Longrightarrow> kw (ns ! q) \<in> {''choice'', ''case''} \<Longrightarrow> under ns p q \<Longrightarrow> under ns p i"

lemma under_unique: "under ns p i \<Longrightarrow> under ns p' i \<Longrightarrow> p = p'"
  by (induction rule: under.induct) (auto elim: under.cases)

lemma spliced_under:
  "schema_ok S \<Longrightarrow> \<forall>i \<in> set ids. under (nodes S) p i \<and> live S i \<Longrightarrow>
     j \<in> set (spliced_within d (nodes S) ids) \<Longrightarrow> under (nodes S) p j"
proof (induction d "nodes S" ids rule: spliced_within.induct)
  case (2 i ids)
  then show ?case by (auto split: if_splits)
next
  case (3 d i ids)
  show ?case
  proof (cases "kw (nodes S ! i) \<in> {''choice'', ''case''}")
    case True
    have "\<forall>c \<in> set (children (nodes S ! i)). under (nodes S) p c \<and> live S c"
    proof
      fix c assume c: "c \<in> set (children (nodes S ! i))"
      with "3.prems" have "parent (nodes S ! c) = Some i" "under (nodes S) p i" "live S c"
        by (auto intro: live_child schema_ok_parent)
      with True show "under (nodes S) p c \<and> live S c" by (auto intro: under_choice)
    qed
    with 3 True show ?thesis by auto
  next
    case False
    with 3 show ?thesis by auto
  qed
qed simp

lemma data_children_under:
  assumes "schema_ok S" "live S p" "kw (nodes S ! p) \<notin> {''choice'', ''case''}"
    and "j \<in> set (data_children S p)"
  shows "under (nodes S) p j"
  using assms(4) unfolding data_children_def spliced_def
  by (rule spliced_under [OF assms(1), rotated])
    (use schema_ok_parent [OF assms(1,2)] assms(2,3) in \<open>auto intro: under_child live_child\<close>)

section \<open>Fields by name and by SID\<close>

text \<open>
  A body is written by looking fields up by name and read by looking them up by SID. The two
  lookups must agree: this is the contract of both places that do it, the bodies of nodes
  and the top level.
\<close>

locale named_fields =
  fixes found :: "codec_env \<Rightarrow> nat \<Rightarrow> string \<Rightarrow> (nat \<times> i64) codec"
    and good :: "codec_env \<Rightarrow> nat \<Rightarrow> bool"
  assumes found_by_sid: "good E scope \<Longrightarrow> found E scope key = Inr (c, sid) \<Longrightarrow>
    node_by_sid (the_schema E) sid = Some c \<and> name_of E c = key \<and> live (the_schema E) c"
begin

text \<open>If each value survives the wire, so does the object, with its members in order.\<close>

lemma fields_roundtrip:
  assumes "good E scope"
  shows "body_entries enc (found E scope) base False obj = Inr es \<Longrightarrow>
     distinct (map fst obj) \<Longrightarrow> fst ` set obj \<inter> fst ` set acc = {} \<Longrightarrow>
     \<forall>e \<in> set obj. \<forall>c sid x. found E scope (fst e) = Inr (c, sid) \<longrightarrow> enc c (snd e) = Inr x \<longrightarrow>
       dec c x = Inr (snd e) \<and> cbor_ok x \<Longrightarrow>
     decode_fields dec E base es acc = Inr (acc @ obj)
     \<and> length es = length obj \<and> (\<forall>e \<in> set es. cbor_ok (fst e) \<and> cbor_ok (snd e))"
proof (induction obj arbitrary: es acc)
  case (Cons e obj)
  from Cons.prems(1) obtain c sid x es' where f: "found E scope (fst e) = Inr (c, sid)"
    and x: "enc c (snd e) = Inr x" and es: "body_entries enc (found E scope) base False obj = Inr es'"
      "es = (CInteger (sint (sid - base)), x) # es'"
    by (auto simp: lenient_field_def lenient_def result_simps split: sum.splits option.splits)
  have dec: "dec c x = Inr (snd e) \<and> cbor_ok x" using Cons.prems(4) f x by simp
  have node: "node_by_sid (the_schema E) sid = Some c" "name_of E c = fst e"
    using found_by_sid [OF assms f] by auto
  have new: "obj_insert (fst e) (snd e) acc = acc @ [e]"
    using Cons.prems(3) by (subst obj_insert_new) auto
  have "decode_fields dec E base es' (acc @ [e]) = Inr ((acc @ [e]) @ obj)
      \<and> length es' = length obj \<and> (\<forall>e \<in> set es'. cbor_ok (fst e) \<and> cbor_ok (snd e))"
    by (rule Cons.IH [OF es(1)]) (use Cons.prems in auto)
  with dec node new es(2) show ?case
    by (simp add: cbor_as_i128_def del: cbor_ok.simps)
qed simp

lemma fields_first:
  assumes "body_entries enc (found E scope) base False (e # obj) = Inr es"
  shows "\<exists>c sid x es'. found E scope (fst e) = Inr (c, sid) \<and> es = (CInteger (sint (sid - base)), x) # es'"
  using assms by (auto simp: lenient_field_def lenient_def result_simps split: sum.splits option.splits)

end

definition scope_ok :: "codec_env \<Rightarrow> nat \<Rightarrow> bool" where
  "scope_ok E scope \<longleftrightarrow> schema_ok (the_schema E) \<and> live (the_schema E) scope"

lemma find_data_child_live:
  "live S i \<Longrightarrow> find_data_child S i key = Some c \<Longrightarrow> live S c \<and> node_name (nodes S ! c) = key"
  unfolding find_data_child_def by (auto dest!: find_SomeD intro: data_children_live)

interpretation body_fields: named_fields find_field scope_ok
proof
  fix E scope key c sid
  assume ok: "scope_ok E scope" and f: "find_field E scope key = Inr (c, sid)"
  from f have c: "find_data_child (the_schema E) scope key = Some c" "node_sid (nodes (the_schema E) ! c) = Some sid"
    by (auto simp: find_field_def result_simps)
  from ok c(1) have "live (the_schema E) c \<and> node_name (nodes (the_schema E) ! c) = key"
    using find_data_child_live [of "the_schema E" scope key c] by (simp add: scope_ok_def)
  with ok c(2) show "node_by_sid (the_schema E) sid = Some c \<and> name_of E c = key \<and> live (the_schema E) c"
    by (simp add: scope_ok_def schema_ok_sid name_of_def)
qed

interpretation root_fields: named_fields "\<lambda>E _. find_root E" "\<lambda>E _. schema_ok (the_schema E)"
proof
  fix E and scope :: nat and key c sid
  assume ok: "schema_ok (the_schema E)" and f: "find_root E key = Inr (c, sid)"
  from f have c: "root_data_node_by_name (the_schema E) key = Some c" "node_sid (nodes (the_schema E) ! c) = Some sid"
    by (auto simp: find_root_def result_simps)
  with schema_ok_root [OF c(1)] ok
  show "node_by_sid (the_schema E) sid = Some c \<and> name_of E c = key \<and> live (the_schema E) c"
    by (simp add: schema_ok_sid name_of_def)
qed

end
