(* ===== verification/Yang_Sample.thy ===== *)
theory Yang_Sample
  imports Yang_Fields
begin

text \<open>
  A small schema with a choice and a keyed list, on which the witnesses of the codec's
  properties are evaluated.
\<close>

section \<open>A schema\<close>

text \<open>
  A container with a small integer, a text inside a choice and a list keyed by a number: the
  nodes are added with \<open>new_node\<close> in the order of the builder and get their types and SIDs.
\<close>

definition sample_leaf :: "string \<Rightarrow> nat \<Rightarrow> builtin \<Rightarrow> i64 \<Rightarrow> node" where
  "sample_leaf name par b sid =
     (fresh_node ''leaf'' name ''m'' (Some par) (Some True) False)
       \<lparr>node_ty := Some (Type_descriptor ((type_info_new b)\<lparr>ranges := default_ranges b\<rparr>) []), node_sid := Some sid\<rparr>"

definition sample_schema :: schema where
  "sample_schema =
    \<lparr>nodes =
      [(fresh_node ''container'' ''m:top'' ''m'' None (Some True) False)
         \<lparr>children := [1, 2, 5], node_sid := Some 1000\<rparr>,
       sample_leaf ''n'' 0 Int8 1001,
       (fresh_node ''choice'' ''pick'' ''m'' (Some 0) (Some True) False)\<lparr>children := [3]\<rparr>,
       (fresh_node ''case'' ''a'' ''m'' (Some 2) (Some True) False)\<lparr>children := [4]\<rparr>,
       sample_leaf ''x'' 3 String_type 1002,
       (fresh_node ''list'' ''l'' ''m'' (Some 0) (Some True) False)
         \<lparr>children := [6, 7], node_keys := [6], node_sid := Some 1010\<rparr>,
       sample_leaf ''id'' 5 String_type 1011,
       sample_leaf ''v'' 5 Boolean 1012],
     typedefs = [], identities = [],
     module_root = [(''m'', \<lparr>yang_module_name = ''m'', module_namespace = ''urn:m'', revision = None,
       module_sid = None, root_nodes = [0], deviated_by = []\<rparr>)],
     import_only_modules = [], yang_datas = [], structure_roots = [],
     sid_index = [(1000, 0), (1001, 1), (1002, 4), (1010, 5), (1011, 6), (1012, 7)],
     reachable_typedefs = [], reachable_identities = [], implemented_identities = []\<rparr>"

definition sample_env :: codec_env where
  "sample_env = \<lparr>the_schema = sample_schema, regex_match = \<lambda>_ _. None, float_text = \<lambda>_ _. [],
     json_text = \<lambda>_. [], depth = 4\<rparr>"

lemmas sample_defs = sample_env_def sample_schema_def sample_leaf_def fresh_node_def type_info_new_def default_ranges_def

lemma sample_nodes:
  "length (nodes sample_schema) = 8" "node_by_sid sample_schema 1000 = Some 0"
  "node_by_sid sample_schema 1001 = Some 1" "node_by_sid sample_schema 1002 = Some 4"
  "root_data_node_by_name sample_schema ''m:top'' = Some 0"
  "find_data_child sample_schema 0 ''n'' = Some 1" "find_data_child sample_schema 0 ''x'' = Some 4"
  "find_data_child sample_schema 0 ''l'' = Some 5"
  "data_children sample_schema 0 = [1, 4, 5]" "data_children sample_schema 5 = [6, 7]"
  by code_simp+

lemma sample_schema_ok: "schema_ok sample_schema"
  by (rule schema_okI; code_simp)

text \<open>
  What the put of \<open>m:top\<close> with a number, a text and a list of one entry is on the wire.
\<close>

definition sample_data :: json where
  "sample_data = JObject [(''n'', JNumber (NInt (-5))), (''x'', JString ''hi''),
     (''l'', JArray [JObject [(''id'', JString ''k''), (''v'', JBool True)]])]"

definition sample_cbor :: cbor where
  "sample_cbor = CMap [(CInteger 1, CInteger (-5)), (CInteger 2, CText ''hi''),
     (CInteger 10, CArray [CMap [(CInteger 1, CText ''k''), (CInteger 2, CBool True)]])]"

lemma sample_put: "json_to_cbor sample_env (JObject [(''m:top'', sample_data)]) Put False
    = Inr (to_vec (CMap [(CInteger 1000, sample_cbor)]))"
  by code_simp

lemma sample_env_simps [simp]: "the_schema sample_env = sample_schema" "depth sample_env = Suc 3"
  by (simp_all add: sample_env_def)

lemma sample_kinds:
  "kw (nodes sample_schema ! 0) = ''container''" "kw (nodes sample_schema ! 1) = ''leaf''"
  "kw (nodes sample_schema ! 4) = ''leaf''" "kw (nodes sample_schema ! 5) = ''list''"
  "kw (nodes sample_schema ! 6) = ''leaf''" "kw (nodes sample_schema ! 7) = ''leaf''"
  "find_data_child sample_schema 5 ''id'' = Some 6" "find_data_child sample_schema 5 ''v'' = Some 7"
  by code_simp+

lemma sample_types:
  "map_option builtin_type (node_ty (nodes sample_schema ! 1)) = Some Int8"
  "map_option builtin_type (node_ty (nodes sample_schema ! 4)) = Some String_type"
  "map_option builtin_type (node_ty (nodes sample_schema ! 6)) = Some String_type"
  "map_option builtin_type (node_ty (nodes sample_schema ! 7)) = Some Boolean"
  by code_simp+

end
