(* ===== verification/Yang_Tree.thy ===== *)
theory Yang_Tree
  imports Yang_Sequence Yang_Sample
begin

text \<open>
  Data survives the wire: by rule induction over the data that fits a schema, and for
  whole trees as bytes (\<open>encode_node_value\<close>, \<open>decode_node_value\<close>, \<open>json_to_cbor\<close> and
  \<open>cbor_to_json\<close> of \<open>src/yang/src/codec.rs\<close>).
\<close>

section \<open>Data that fits a schema\<close>

text \<open>
  \<open>tidy E cf i v\<close>: the value \<open>v\<close> has the shape of node \<open>i\<close> with canonical leaves, and
  \<open>tidy_body\<close> the same for the members of an object, whose names are distinct. An operation
  has its parameters inside \<open>input\<close> or \<open>output\<close>, and at least one of them.
\<close>

inductive tidy :: "codec_env \<Rightarrow> content_format \<Rightarrow> nat \<Rightarrow> json \<Rightarrow> bool"
  and tidy_body :: "codec_env \<Rightarrow> content_format \<Rightarrow> nat \<Rightarrow> (string \<times> json) list \<Rightarrow> bool"
  for E cf
where
  tidy_leaf: "kw (nodes (the_schema E) ! i) = ''leaf'' \<Longrightarrow> node_ty (nodes (the_schema E) ! i) = Some ty \<Longrightarrow>
    canonical (depth E) E ty v \<Longrightarrow> tidy E cf i v"
| tidy_leaf_list: "kw (nodes (the_schema E) ! i) = ''leaf-list'' \<Longrightarrow>
    node_ty (nodes (the_schema E) ! i) = Some ty \<Longrightarrow> \<forall>v \<in> set vs. canonical (depth E) E ty v \<Longrightarrow>
    tidy E cf i (JArray vs)"
| tidy_container: "kw (nodes (the_schema E) ! i) \<in> {''container'', ''input'', ''output''} \<Longrightarrow>
    tidy_body E cf i obj \<Longrightarrow> tidy E cf i (JObject obj)"
| tidy_list: "kw (nodes (the_schema E) ! i) = ''list'' \<Longrightarrow> \<forall>obj \<in> set objs. tidy_body E cf i obj \<Longrightarrow>
    tidy E cf i (JArray (map JObject objs))"
| tidy_entry: "kw (nodes (the_schema E) ! i) = ''list'' \<Longrightarrow> is_sequence cf \<Longrightarrow> tidy_body E cf i obj \<Longrightarrow>
    tidy E cf i (JObject obj)"
| tidy_operation: "kw (nodes (the_schema E) ! i) \<in> {''rpc'', ''action''} \<Longrightarrow>
    node_sid (nodes (the_schema E) ! i) = Some sid \<Longrightarrow> side \<in> {''input'', ''output''} \<Longrightarrow>
    find_child (the_schema E) i side = Some n \<Longrightarrow> kw (nodes (the_schema E) ! n) = side \<Longrightarrow>
    (\<forall>m. find_child (the_schema E) i ''input'' = Some m \<longrightarrow> kw (nodes (the_schema E) ! m) = ''input'') \<Longrightarrow>
    inner \<noteq> [] \<Longrightarrow> tidy_body E cf n inner \<Longrightarrow> tidy E cf i (JObject [(side, JObject inner)])"
| tidy_members: "distinct (map fst obj) \<Longrightarrow>
    \<forall>e \<in> set obj. \<exists>c. find_data_child (the_schema E) scope (fst e) = Some c \<and> tidy E cf c (snd e) \<Longrightarrow>
    tidy_body E cf scope obj"

inductive_cases tidy_bodyE: "tidy_body E cf scope obj"

lemma lenient_strict [simp]: "lenient r False f = r"
  by (cases r) (simp_all add: lenient_def)

lemma find_child_range:
  assumes "schema_ok S" "live S i" "find_child S i name = Some n"
  shows "live S n \<and> parent (nodes S ! n) = Some i"
proof -
  from assms(3) have "n \<in> set (children (nodes S ! i))"
    unfolding find_child_def by (auto dest: find_SomeD)
  with assms(1,2) show ?thesis by (blast intro: live_child schema_ok_parent)
qed

lemma leaf_roundtrip:
  assumes "node_ty (nodes (the_schema E) ! i) = Some ty" "canonical (depth E) E ty v" "json_ok v"
    and "encode_leaf_value E False i v = Inr c"
  shows "decode_leaf_value E i c = Inr v \<and> cbor_ok c"
  using assms type_roundtrip [OF assms(2,3)]
  by (simp add: encode_leaf_value_def decode_leaf_value_def type_to_cbor_def type_to_json_def)

lemma rmap_roundtrip:
  "rmap f xs = Inr ys \<Longrightarrow> (\<And>x y. x \<in> set xs \<Longrightarrow> f x = Inr y \<Longrightarrow> g y = Inr x \<and> P y) \<Longrightarrow>
     rmap g ys = Inr xs \<and> (\<forall>y \<in> set ys. P y) \<and> length ys = length xs"
proof (induction xs arbitrary: ys)
  case (Cons x xs)
  then obtain y zs where y: "f x = Inr y" "rmap f xs = Inr zs" "ys = y # zs" by (auto simp: result_simps)
  have "rmap g zs = Inr xs \<and> (\<forall>y \<in> set zs. P y) \<and> length zs = length xs"
    by (rule Cons.IH [OF y(2)]) (use Cons.prems(2) in auto)
  moreover have "g y = Inr x \<and> P y" using Cons.prems(2) [of x y] y(1) by simp
  ultimately show ?case by (simp add: y(3))
qed simp

text \<open>The payload of an operation is recognised as that of the side it was written for.\<close>

lemma side_of_field:
  assumes ok: "scope_ok E i" and op: "kw (nodes (the_schema E) ! i) \<in> {''rpc'', ''action''}"
    and side: "side \<in> {''input'', ''output''}" "find_child (the_schema E) i side = Some n"
      "kw (nodes (the_schema E) ! n) = side"
    and input: "\<forall>m. find_child (the_schema E) i ''input'' = Some m \<longrightarrow> kw (nodes (the_schema E) ! m) = ''input''"
    and found: "find_field E n key = Inr (c, s)"
  shows "side_of E i s = Some (side, n)"
proof -
  let ?S = "the_schema E"
  have S: "schema_ok ?S" "live ?S i" using ok by (simp_all add: scope_ok_def)
  from find_child_range [OF S side(2)] have n: "live ?S n" by simp
  from found have c: "find_data_child ?S n key = Some c" "node_sid (nodes ?S ! c) = Some s"
    by (auto simp: find_field_def result_simps)
  then have mem: "c \<in> set (data_children ?S n)" unfolding find_data_child_def by (auto dest: find_SomeD)
  have under: "under (nodes ?S) n c"
    by (rule data_children_under [OF S(1) n _ mem]) (use side in auto)
  have other: "m = n" if m: "find_child ?S i ''input'' = Some m" "c' \<in> set (data_children ?S m)"
    "node_sid (nodes ?S ! c') = Some s" for m c'
  proof -
    from find_child_range [OF S m(1)] have len: "live ?S m" by simp
    have "live ?S c'" by (rule data_children_live [OF len m(2)])
    moreover have "live ?S c"
      using body_fields.found_by_sid [OF _ found] S(1) n by (simp add: scope_ok_def)
    ultimately have "node_by_sid ?S s = Some c'" "node_by_sid ?S s = Some c"
      using schema_ok_sid [OF S(1)] m(3) c(2) by blast+
    then have "c' = c" by simp
    moreover have "under (nodes ?S) m c'"
      by (rule data_children_under [OF S(1) len _ m(2)]) (use input m(1) in auto)
    ultimately show ?thesis using under_unique under by blast
  qed
  have this_side: "list_ex (\<lambda>c. node_sid (nodes ?S ! c) = Some s) (data_children ?S n)"
    using mem c(2) by (auto simp: list_ex_iff)
  show ?thesis
  proof (cases "side = ''input''")
    case True
    with side this_side show ?thesis by (simp add: side_of_def Let_def)
  next
    case False
    with side have out: "side = ''output''" by simp
    have "\<not> list_ex (\<lambda>c. node_sid (nodes ?S ! c) = Some s) (data_children ?S m)"
      if "find_child ?S i ''input'' = Some m" for m
      using other [OF that] input that side(3) out by (auto simp: list_ex_iff)
    with side this_side out show ?thesis by (simp add: side_of_def Let_def split: option.splits)
  qed
qed

lemma tidy_member_body:
  "tidy_body E cf scope obj \<Longrightarrow> distinct (map fst obj) \<and>
     (\<forall>e \<in> set obj. \<exists>c. find_data_child (the_schema E) scope (fst e) = Some c \<and> tidy E cf c (snd e))"
  by (erule tidy_bodyE) auto

section \<open>Nodes\<close>

lemma body_step:
  assumes ok: "scope_ok E scope" and names: "distinct (map fst obj)"
    and json: "json_ok (JObject obj)"
    and IH: "\<forall>e \<in> set obj. \<exists>c. find_data_child (the_schema E) scope (fst e) = Some c \<and>
        (\<forall>x. scope_ok E c \<longrightarrow> json_ok (snd e) \<longrightarrow> encode_node_value E cf False c (snd e) = Inr x \<longrightarrow>
          decode_node_value E cf c x = Inr (snd e) \<and> cbor_ok x)"
    and enc: "encode_body E cf False scope obj = Inr c"
  shows "decode_body E cf scope c = Inr (JObject obj) \<and> cbor_ok c"
proof -
  let ?base = "effective_delta_base (the_schema E) scope"
  from enc obtain es where es: "body_entries (encode_node_value E cf False) (find_field E scope) ?base False obj = Inr es"
    and c: "c = CMap es"
    by (auto simp: encode_body_def encode_body_with_def result_simps)
  have fields: "\<forall>e \<in> set obj. \<forall>i sid x. find_field E scope (fst e) = Inr (i, sid) \<longrightarrow>
      encode_node_value E cf False i (snd e) = Inr x \<longrightarrow> decode_node_value E cf i x = Inr (snd e) \<and> cbor_ok x"
  proof (intro ballI allI impI)
    fix e i sid x
    assume e: "e \<in> set obj" and f: "find_field E scope (fst e) = Inr (i, sid)"
      and x: "encode_node_value E cf False i (snd e) = Inr x"
    from f have i: "find_data_child (the_schema E) scope (fst e) = Some i"
      by (auto simp: find_field_def result_simps)
    have "scope_ok E i" using body_fields.found_by_sid [OF ok f] ok by (simp add: scope_ok_def)
    moreover have "json_ok (snd e)" using json e by simp
    moreover from IH e obtain c' where c': "find_data_child (the_schema E) scope (fst e) = Some c'"
      "\<forall>x. scope_ok E c' \<longrightarrow> json_ok (snd e) \<longrightarrow> encode_node_value E cf False c' (snd e) = Inr x \<longrightarrow>
          decode_node_value E cf c' x = Inr (snd e) \<and> cbor_ok x" by blast
    moreover from c'(1) i have "c' = i" by simp
    ultimately show "decode_node_value E cf i x = Inr (snd e) \<and> cbor_ok x" using x by blast
  qed
  have "decode_fields (decode_node_value E cf) E ?base es [] = Inr ([] @ obj) \<and> length es = length obj
      \<and> (\<forall>e \<in> set es. cbor_ok (fst e) \<and> cbor_ok (snd e))"
    by (rule body_fields.fields_roundtrip [OF ok es names _ fields]) simp
  with json show ?thesis by (simp add: decode_body_def decode_body_with_def c)
qed

text \<open>The equations of the two recursions by kind of node, with the bodies folded.\<close>

lemma encode_node_container:
  "kw (nodes (the_schema E) ! i) \<in> {''container'', ''input'', ''output''} \<Longrightarrow>
     encode_node_value E cf False i (JObject obj) = encode_body E cf False i obj"
  by (auto simp: encode_node_value.simps [of E cf False i] encode_body_def)

lemma decode_node_container:
  "kw (nodes (the_schema E) ! i) \<in> {''container'', ''input'', ''output''} \<Longrightarrow>
     decode_node_value E cf i v = decode_body E cf i v"
  by (auto simp: decode_node_value.simps [of E cf i] decode_body_def)

lemma encode_node_list:
  "kw (nodes (the_schema E) ! i) = ''list'' \<Longrightarrow>
     encode_node_value E cf cont i (JArray (map JObject objs)) =
     rbind (rmap (encode_body E cf cont i) objs) (\<lambda>cs. Inr (CArray cs))"
proof -
  have "rmap (\<lambda>v. case v of JObject obj \<Rightarrow> g obj | _ \<Rightarrow> Inl (e v)) (map JObject objs) = rmap g objs"
    for g :: "(string \<times> json) list \<Rightarrow> cbor codec" and e
    by (induction objs) simp_all
  then show "kw (nodes (the_schema E) ! i) = ''list'' \<Longrightarrow> ?thesis"
    by (simp add: encode_node_value.simps [of E cf cont i] encode_body_def [abs_def])
qed

lemma decode_node_list:
  "kw (nodes (the_schema E) ! i) = ''list'' \<Longrightarrow>
     decode_node_value E cf i (CArray cs) = rbind (rmap (decode_body E cf i) cs) (\<lambda>js. Inr (JArray js))"
  by (simp add: decode_node_value.simps [of E cf i] decode_body_def [abs_def])

lemma encode_node_entry:
  "kw (nodes (the_schema E) ! i) = ''list'' \<Longrightarrow> is_sequence cf \<Longrightarrow>
     encode_node_value E cf False i (JObject obj) = encode_body E cf False i obj"
  by (simp add: encode_node_value.simps [of E cf False i] encode_body_def)

lemma decode_node_entry:
  "kw (nodes (the_schema E) ! i) = ''list'' \<Longrightarrow> is_sequence cf \<Longrightarrow>
     decode_node_value E cf i (CMap es) = decode_body E cf i (CMap es)"
  by (simp add: decode_node_value.simps [of E cf i] decode_body_def)

lemma encode_node_operation:
  "kw (nodes (the_schema E) ! i) \<in> {''rpc'', ''action''} \<Longrightarrow> side \<in> {''input'', ''output''} \<Longrightarrow>
     find_child (the_schema E) i side = Some n \<Longrightarrow>
     encode_node_value E cf cont i (JObject [(side, JObject inner)]) = encode_body E cf cont n inner"
  by (auto simp: encode_node_value.simps [of E cf cont i] encode_body_def side_wrapper_def)

lemma decode_node_operation:
  "kw (nodes (the_schema E) ! i) \<in> {''rpc'', ''action''} \<Longrightarrow> node_sid (nodes (the_schema E) ! i) = Some s \<Longrightarrow>
     side_of E i (word_of_int d + s) = Some (side, n) \<Longrightarrow>
     decode_node_value E cf i (CMap ((CInteger d, x) # es)) =
     rbind (decode_body E cf n (CMap ((CInteger d, x) # es))) (\<lambda>j. Inr (JObject [(side, j)]))"
  by (auto simp: decode_node_value.simps [of E cf i] decode_body_def cbor_as_i128_def Let_def)

lemma encode_body_map: "encode_body E cf cont i obj = Inr c \<Longrightarrow> \<exists>es. c = CMap es \<and>
    body_entries (encode_node_value E cf cont) (find_field E i) (effective_delta_base (the_schema E) i) cont obj = Inr es"
  by (auto simp: encode_body_def encode_body_with_def result_simps)

text \<open>The parameters of an operation are numbered from the operation's own SID.\<close>

lemma operation_base:
  assumes "scope_ok E i" "kw (nodes (the_schema E) ! i) \<in> {''rpc'', ''action''}"
    and "node_sid (nodes (the_schema E) ! i) = Some s" "find_child (the_schema E) i side = Some n"
    and "kw (nodes (the_schema E) ! n) \<in> {''input'', ''output''}"
  shows "effective_delta_base (the_schema E) n = s"
  using assms find_child_range [of "the_schema E" i side n]
  by (auto simp: effective_delta_base_def scope_ok_def Let_def)

lemma operation_step:
  assumes ok: "scope_ok E i" and op: "kw (nodes (the_schema E) ! i) \<in> {''rpc'', ''action''}"
    and sid: "node_sid (nodes (the_schema E) ! i) = Some s"
    and side: "side \<in> {''input'', ''output''}" "find_child (the_schema E) i side = Some n"
      "kw (nodes (the_schema E) ! n) = side"
    and input: "\<forall>m. find_child (the_schema E) i ''input'' = Some m \<longrightarrow> kw (nodes (the_schema E) ! m) = ''input''"
    and inner: "inner \<noteq> []"
    and IH: "\<forall>c. encode_body E cf False n inner = Inr c \<longrightarrow>
      decode_body E cf n c = Inr (JObject inner) \<and> cbor_ok c"
    and enc: "encode_node_value E cf False i (JObject [(side, JObject inner)]) = Inr c"
  shows "decode_node_value E cf i c = Inr (JObject [(side, JObject inner)]) \<and> cbor_ok c"
proof -
  let ?S = "the_schema E"
  from enc op side(1,2) have body: "encode_body E cf False n inner = Inr c" by (simp only: encode_node_operation)
  then obtain es where c: "c = CMap es"
    and es: "body_entries (encode_node_value E cf False) (find_field E n) (effective_delta_base ?S n) False inner = Inr es"
    using encode_body_map by blast
  from inner obtain e rest where "inner = e # rest" by (cases inner) auto
  with body_fields.fields_first es obtain k sid' x es' where
    f: "find_field E n (fst e) = Inr (k, sid')" and es': "es = (CInteger (sint (sid' - effective_delta_base ?S n)), x) # es'"
    by blast
  have base: "effective_delta_base ?S n = s"
    by (rule operation_base [OF ok op sid side(2)]) (use side in auto)
  have "side_of E i (word_of_int (sint (sid' - s)) + s) = Some (side, n)"
    using side_of_field [OF ok op side input f] by simp
  from decode_node_operation [OF op sid this] IH body show ?thesis
    by (simp add: c es' base)
qed

lemma node_roundtrip:
  "tidy E cf i v \<Longrightarrow> (\<forall>c. scope_ok E i \<longrightarrow> json_ok v \<longrightarrow> encode_node_value E cf False i v = Inr c \<longrightarrow>
     decode_node_value E cf i c = Inr v \<and> cbor_ok c)"
  "tidy_body E cf i obj \<Longrightarrow> (\<forall>c. scope_ok E i \<longrightarrow> json_ok (JObject obj) \<longrightarrow> encode_body E cf False i obj = Inr c \<longrightarrow>
     decode_body E cf i c = Inr (JObject obj) \<and> cbor_ok c)"
proof (induction rule: tidy_tidy_body.inducts)
  case (tidy_leaf i ty v)
  then show ?case using leaf_roundtrip [of E i ty v]
    by (simp add: encode_node_value.simps [of E cf False i] decode_node_value.simps [of E cf i] Let_def)
next
  case (tidy_leaf_list i ty vs)
  show ?case
  proof (intro allI impI)
    fix c assume ok: "json_ok (JArray vs)" and enc: "encode_node_value E cf False i (JArray vs) = Inr c"
    from enc tidy_leaf_list obtain cs where cs: "rmap (encode_leaf_value E False i) vs = Inr cs" "c = CArray cs"
      by (auto simp: encode_node_value.simps [of E cf False i] result_simps)
    have "rmap (decode_leaf_value E i) cs = Inr vs \<and> (\<forall>c \<in> set cs. cbor_ok c) \<and> length cs = length vs"
      by (rule rmap_roundtrip [OF cs(1)]) (use tidy_leaf_list ok leaf_roundtrip in auto)
    with tidy_leaf_list ok cs(2) show "decode_node_value E cf i c = Inr (JArray vs) \<and> cbor_ok c"
      by (simp add: decode_node_value.simps [of E cf i] Let_def)
  qed
next
  case (tidy_container i obj)
  then show ?case by (simp add: encode_node_container decode_node_container del: json_ok.simps)
next
  case (tidy_list i objs)
  show ?case
  proof (intro allI impI)
    fix c assume ok: "scope_ok E i" "json_ok (JArray (map JObject objs))"
      and enc: "encode_node_value E cf False i (JArray (map JObject objs)) = Inr c"
    from enc tidy_list(1) obtain cs where cs: "rmap (encode_body E cf False i) objs = Inr cs" "c = CArray cs"
      by (auto simp: encode_node_list result_simps)
    have "rmap (\<lambda>c. case decode_body E cf i c of Inr (JObject obj) \<Rightarrow> Inr obj | r \<Rightarrow> Inl Too_deep) cs = Inr objs
        \<and> (\<forall>c \<in> set cs. cbor_ok c \<and> (\<exists>obj. decode_body E cf i c = Inr (JObject obj))) \<and> length cs = length objs"
      by (rule rmap_roundtrip [OF cs(1)]) (use tidy_list(2) ok in \<open>auto simp del: json_ok.simps simp: json_ok.simps(5)\<close>)
    moreover have "rmap (decode_body E cf i) ds = Inr (map JObject os)"
      if "rmap (\<lambda>c. case decode_body E cf i c of Inr (JObject obj) \<Rightarrow> Inr obj | r \<Rightarrow> Inl Too_deep) ds = Inr os" for ds os
      using that by (induction ds arbitrary: os) (auto simp: result_simps split: sum.splits json.splits)
    ultimately show "decode_node_value E cf i c = Inr (JArray (map JObject objs)) \<and> cbor_ok c"
      using tidy_list(1) ok(2) by (simp add: decode_node_list cs(2))
  qed
next
  case (tidy_entry i obj)
  then show ?case
    using encode_body_map [of E cf False i obj]
    by (auto simp: encode_node_entry decode_node_entry simp del: json_ok.simps cbor_ok.simps)
next
  case (tidy_operation i sid side n inner)
  show ?case
  proof (intro allI impI)
    fix c assume ok: "scope_ok E i" "json_ok (JObject [(side, JObject inner)])"
      and enc: "encode_node_value E cf False i (JObject [(side, JObject inner)]) = Inr c"
    have "scope_ok E n" using ok(1) find_child_range [of "the_schema E" i side n] tidy_operation
      by (simp add: scope_ok_def)
    with tidy_operation ok(2) have IH: "\<forall>c. encode_body E cf False n inner = Inr c \<longrightarrow>
        decode_body E cf n c = Inr (JObject inner) \<and> cbor_ok c" by simp
    show "decode_node_value E cf i c = Inr (JObject [(side, JObject inner)]) \<and> cbor_ok c"
      by (rule operation_step [where s = sid and n = n, OF ok(1) _ _ _ _ _ _ _ IH enc])
        (use tidy_operation in simp_all)
  qed
next
  case (tidy_members obj scope)
  then show ?case using body_step [of E scope obj cf] by blast
qed

section \<open>Whole trees\<close>

lemma tree_roundtrip:
  assumes S: "schema_ok (the_schema E)" and json: "json_ok (JObject obj)" and names: "distinct (map fst obj)"
    and shape: "\<forall>e \<in> set obj. \<exists>c. root_data_node_by_name (the_schema E) (fst e) = Some c \<and> tidy E cf c (snd e)"
    and enc: "json_to_cbor E (JObject obj) cf False = Inr bs" and len: "length bs < usize_limit"
  shows "cbor_to_json E bs cf = Inr (JObject obj)"
proof -
  from enc obtain es where es: "body_entries (encode_node_value E cf False) (find_root E) 0 False obj = Inr es"
    and bs: "bs = to_vec (CMap es)"
    by (auto simp: json_to_cbor_def as_object_def encode_whole_tree_def cbor_to_bytes_def result_simps)
  have fields: "\<forall>e \<in> set obj. \<forall>i sid x. find_root E (fst e) = Inr (i, sid) \<longrightarrow>
      encode_node_value E cf False i (snd e) = Inr x \<longrightarrow> decode_node_value E cf i x = Inr (snd e) \<and> cbor_ok x"
  proof (intro ballI allI impI)
    fix e i sid x
    assume e: "e \<in> set obj" and f: "find_root E (fst e) = Inr (i, sid)"
      and x: "encode_node_value E cf False i (snd e) = Inr x"
    from f have i: "root_data_node_by_name (the_schema E) (fst e) = Some i"
      by (auto simp: find_root_def result_simps)
    with shape e have "tidy E cf i (snd e)" by auto
    moreover have "scope_ok E i"
      using root_fields.found_by_sid [OF S f] S by (simp add: scope_ok_def)
    moreover have "json_ok (snd e)" using json e by simp
    ultimately show "decode_node_value E cf i x = Inr (snd e) \<and> cbor_ok x"
      using node_roundtrip(1) x by blast
  qed
  have fields_back: "decode_fields (decode_node_value E cf) E 0 es [] = Inr ([] @ obj) \<and> length es = length obj
      \<and> (\<forall>e \<in> set es. cbor_ok (fst e) \<and> cbor_ok (snd e))"
    by (rule root_fields.fields_roundtrip [OF S es names _ fields]) simp
  then have "cbor_ok (CMap es)" using json by simp
  then have "seq_items bs 0 = Inr [CMap es]"
    using cbor_loop.loop_concat [of "[CMap es]"] len bs by simp
  with fields_back show ?thesis
    by (simp add: cbor_to_json_def cbor_seq_from_bytes_def decode_whole_tree_def bs to_vec_def)
qed

text \<open>
  C1: A tidy tree survives the wire: for every schema whose SID index leads back to its nodes,
  and data of any depth that fits it (containers, lists, leaf-lists, fields spliced out of choices
  and cases) with canonical leaves, the bytes written for a put decode to the same JSON, every
  member under its name and in its place. A leaf is canonical in the decoder's own form (qualified
  identities, bits in order, padded base64, plain integers). Leaves of type decimal64, union and
  instance-identifier are excluded: a decimal comes back as the text of a float, which can differ
  from the text that was encoded.
\<close>

theorem yang_tree_roundtrip:
  assumes "schema_ok (the_schema E)" "json_ok (JObject obj)" "distinct (map fst obj)"
    and "\<forall>e \<in> set obj. \<exists>c. root_data_node_by_name (the_schema E) (fst e) = Some c \<and> tidy E cf c (snd e)"
    and "json_to_cbor E (JObject obj) cf False = Inr bs" "length bs < usize_limit"
  shows "cbor_to_json E bs cf = Inr (JObject obj)"
  by (rule tree_roundtrip [OF assms])

lemma sample_leaf_tidy:
  assumes "kw (nodes sample_schema ! i) = ''leaf''" "map_option builtin_type (node_ty (nodes sample_schema ! i)) = Some b"
    and "b = Int8 \<and> as_i64 v \<noteq> None \<or> b = String_type \<or> b = Boolean"
  shows "tidy sample_env cf i v"
proof -
  from assms(2) obtain ty where "node_ty (nodes sample_schema ! i) = Some ty" "builtin_type ty = b" by auto
  then show ?thesis using assms(1,3) canonical.simps(2) [of 3 sample_env ty v]
    by (intro tidy_leaf [of _ _ ty]) auto
qed

lemma sample_leaves:
  "tidy sample_env cf 1 (JNumber (NInt (-5)))" "tidy sample_env cf 4 (JString s)"
  "tidy sample_env cf 6 (JString s)" "tidy sample_env cf 7 (JBool b)"
  using sample_leaf_tidy [OF sample_kinds(2) sample_types(1)] sample_leaf_tidy [OF sample_kinds(3) sample_types(2)]
    sample_leaf_tidy [OF sample_kinds(5) sample_types(3)] sample_leaf_tidy [OF sample_kinds(6) sample_types(4)]
  by (simp_all add: as_i64_def)

lemma sample_tidy: "tidy sample_env cf 0 sample_data"
proof -
  have entry: "tidy_body sample_env cf 5 [(''id'', JString ''k''), (''v'', JBool True)]"
    by (rule tidy_members) (use sample_leaves in \<open>simp_all add: sample_kinds\<close>)
  have list: "tidy sample_env cf 5 (JArray (map JObject [[(''id'', JString ''k''), (''v'', JBool True)]]))"
    by (rule tidy_list) (use entry in \<open>simp_all add: sample_kinds\<close>)
  show ?thesis
    unfolding sample_data_def
    by (rule tidy_container, simp add: sample_kinds, rule tidy_members)
      (use list sample_leaves in \<open>simp_all add: sample_nodes\<close>)
qed

theorem yang_tree_roundtrip_witness:
  "cbor_to_json sample_env (to_vec (CMap [(CInteger 1000, sample_cbor)])) Put = Inr (JObject [(''m:top'', sample_data)])"
proof (rule yang_tree_roundtrip [OF _ _ _ _ sample_put])
  show "json_ok (JObject [(''m:top'', sample_data)])"
    by (simp add: sample_data_def text_ok_def as_bytes_def usize_limit_def)
  show "schema_ok (the_schema sample_env)" using sample_schema_ok by simp
  show "\<forall>e \<in> set [(''m:top'', sample_data)].
      \<exists>c. root_data_node_by_name (the_schema sample_env) (fst e) = Some c \<and> tidy sample_env Put c (snd e)"
    using sample_tidy sample_nodes(5) by simp
  show "length (to_vec (CMap [(CInteger 1000, sample_cbor)])) < usize_limit"
    by (simp add: to_vec_def sample_cbor_def encode_head_def as_bytes_def usize_limit_def)
qed simp

end
