(* ===== verification/Yang_Continue.thy ===== *)
theory Yang_Continue
  imports Yang_Tree
begin

text \<open>
  The flag \<open>--continue\<close>: what encoding does when errors are softened.
\<close>

section \<open>Continuing after errors\<close>

lemma lenient_mono: "(\<And>x. r = Inr x \<Longrightarrow> r' = Inr x) \<Longrightarrow> r = Inr c \<Longrightarrow> lenient r' cont f = Inr c"
  by (simp add: lenient_def)

lemma lenient_Inr [simp]: "lenient (Inr x) cont f = Inr x"
  by (simp add: lenient_def)

lemma rmap_mono:
  "rmap f xs = Inr ys \<Longrightarrow> (\<And>x y. x \<in> set xs \<Longrightarrow> f x = Inr y \<Longrightarrow> g x = Inr y) \<Longrightarrow> rmap g xs = Inr ys"
proof (induction xs arbitrary: ys)
  case (Cons x xs)
  then obtain y zs where y: "f x = Inr y" "rmap f xs = Inr zs" "ys = y # zs" by (auto simp: result_simps)
  with Cons.IH [OF y(2)] Cons.prems(2) show ?case by simp
qed simp

lemma body_entries_mono:
  "body_entries enc found base False obj = Inr es \<Longrightarrow>
     (\<And>e i x. e \<in> set obj \<Longrightarrow> enc i (snd e) = Inr x \<Longrightarrow> enc' i (snd e) = Inr x) \<Longrightarrow>
     body_entries enc' found base cont obj = Inr es"
proof (induction obj arbitrary: es)
  case (Cons e obj)
  from Cons.prems(1) obtain i sid x es' where f: "found (fst e) = Inr (i, sid)"
    and x: "enc i (snd e) = Inr x" and es: "body_entries enc found base False obj = Inr es'"
      "es = (CInteger (sint (sid - base)), x) # es'"
    by (auto simp: lenient_field_def result_simps split: option.splits)
  have "body_entries enc' found base cont obj = Inr es'"
    by (rule Cons.IH [OF es(1)]) (use Cons.prems(2) in auto)
  moreover have "enc' i (snd e) = Inr x" using Cons.prems(2) x by simp
  ultimately show ?case by (simp add: lenient_field_def f es(2))
qed simp

lemma check_required_mono:
  "check_required E cf False scope obj cs = Inr () \<Longrightarrow> check_required E cf cont scope obj cs = Inr ()"
  by (induction cs) (auto simp: result_simps split: if_splits)

lemma encode_body_with_mono:
  assumes "encode_body_with enc E cf False scope obj = Inr c"
    and "\<And>e i x. e \<in> set obj \<Longrightarrow> enc i (snd e) = Inr x \<Longrightarrow> enc' i (snd e) = Inr x"
  shows "encode_body_with enc' E cf cont scope obj = Inr c"
proof -
  from assms(1) obtain es where es: "c = CMap es"
    "body_entries enc (find_field E scope) (effective_delta_base (the_schema E) scope) False obj = Inr es"
    "check_required E cf False scope obj (data_children (the_schema E) scope) = Inr ()"
    by (auto simp: encode_body_with_def result_simps)
  have "body_entries enc' (find_field E scope) (effective_delta_base (the_schema E) scope) cont obj = Inr es"
    by (rule body_entries_mono [OF es(2)]) (rule assms(2))
  with check_required_mono [OF es(3)] show ?thesis by (simp add: encode_body_with_def es(1))
qed

lemma encode_leaf_mono: "encode_leaf_value E False i v = Inr c \<Longrightarrow> encode_leaf_value E cont i v = Inr c"
  by (auto simp: encode_leaf_value_def type_to_cbor_def result_simps)

text \<open>The equations of the recursion by kind of node, with the body of a list's entry named.\<close>

definition entry_body :: "codec_env \<Rightarrow> content_format \<Rightarrow> bool \<Rightarrow> nat \<Rightarrow> json \<Rightarrow> cbor codec" where
  "entry_body E cf cont i v =
     (case v of JObject obj \<Rightarrow> encode_body E cf cont i obj | _ \<Rightarrow> Inl (Expected ''an object'' v))"

lemma encode_leaf_list_eq:
  "kw (nodes (the_schema E) ! i) = ''leaf-list'' \<Longrightarrow> encode_node_value E cf cont i v =
     (case v of JArray vs \<Rightarrow> rbind (rmap (encode_leaf_value E cont i) vs) (\<lambda>cs. Inr (CArray cs))
      | _ \<Rightarrow> Inl (Expected ''a list of values'' v))"
  by (subst encode_node_value.simps) (simp add: Let_def)

lemma encode_container_eq:
  "kw (nodes (the_schema E) ! i) \<in> {''container'', ''input'', ''output''} \<Longrightarrow>
     encode_node_value E cf cont i v = lenient (entry_body E cf cont i v) cont (CMap [])"
  by (subst encode_node_value.simps, cases v) (auto simp: entry_body_def encode_body_def)

lemma encode_list_eq:
  "kw (nodes (the_schema E) ! i) = ''list'' \<Longrightarrow> encode_node_value E cf cont i v =
     (case v of JArray vs \<Rightarrow> rbind (rmap (entry_body E cf cont i) vs) (\<lambda>cs. Inr (CArray cs))
      | JObject obj \<Rightarrow> lenient (if is_sequence cf then encode_body E cf cont i obj
           else Inl (Expected ''a list'' v)) cont (CArray [])
      | _ \<Rightarrow> lenient (Inl (Expected ''a list'' v)) cont (CArray []))"
  by (subst encode_node_value.simps, unfold entry_body_def [abs_def] encode_body_def, cases v) (simp_all add: Let_def)

lemma encode_operation_eq:
  "kw (nodes (the_schema E) ! i) \<in> {''rpc'', ''action''} \<Longrightarrow> encode_node_value E cf cont i v =
     (case v of
        JObject obj \<Rightarrow>
          (case side_wrapper obj of
             Some e \<Rightarrow> rbind (ok_or (Catalog_problem (fst e)) (find_child (the_schema E) i (fst e))) (\<lambda>side.
               entry_body E cf cont side (snd e))
           | None \<Rightarrow> encode_body E cf cont (case find_child (the_schema E) i ''input'' of Some s \<Rightarrow> s | None \<Rightarrow> i) obj)
      | _ \<Rightarrow> Inl (Expected ''an object'' v))"
  by (subst encode_node_value.simps, unfold entry_body_def encode_body_def, cases v) (auto simp: Let_def split: option.splits)

lemma encode_unsupported_eq:
  "kw (nodes (the_schema E) ! i) \<notin> {''leaf'', ''leaf-list'', ''container'', ''input'', ''output'', ''list'', ''rpc'', ''action''} \<Longrightarrow>
     encode_node_value E cf cont i v = Inl (Unsupported_shape (name_of E i) (kw (nodes (the_schema E) ! i)))"
  by (subst encode_node_value.simps) (simp add: Let_def)

lemma encode_leaf_eq:
  "kw (nodes (the_schema E) ! i) = ''leaf'' \<Longrightarrow> encode_node_value E cf cont i v = encode_leaf_value E cont i v"
  by (subst encode_node_value.simps) (simp add: Let_def)

lemma encode_node_mono:
  "encode_node_value E cf False i v = Inr c \<Longrightarrow> encode_node_value E cf cont i v = Inr c"
proof (induction "size v" arbitrary: v i c rule: less_induct)
  case less
  let ?k = "kw (nodes (the_schema E) ! i)"
  have body: "encode_body E cf cont n obj = Inr d"
    if "encode_body E cf False n obj = Inr d" "size (JObject obj) \<le> size v" for n obj d
    unfolding encode_body_def
  proof (rule encode_body_with_mono [OF that(1) [unfolded encode_body_def]])
    fix e i x assume e: "e \<in> set obj" and x: "encode_node_value E cf False i (snd e) = Inr x"
    have "size (snd e) < size v" using json_object_size [OF e] that(2) by simp
    from less.hyps [OF this x] show "encode_node_value E cf cont i (snd e) = Inr x" .
  qed
  have entry: "entry_body E cf cont n w = Inr d"
    if "entry_body E cf False n w = Inr d" "size w \<le> size v" for n w d
    using that body by (cases w) (simp_all add: entry_body_def)
  consider "?k = ''leaf''" | (ll) "?k = ''leaf-list''" | (con) "?k \<in> {''container'', ''input'', ''output''}"
    | (list) "?k = ''list''" | (op) "?k \<in> {''rpc'', ''action''}"
    | "?k \<notin> {''leaf'', ''leaf-list'', ''container'', ''input'', ''output'', ''list'', ''rpc'', ''action''}"
    by auto
  then show ?case
  proof cases
    case 1
    from less.prems show ?thesis unfolding encode_leaf_eq [OF 1] by (rule encode_leaf_mono)
  next
    case ll
    from less.prems obtain vs cs where v: "v = JArray vs" "rmap (encode_leaf_value E False i) vs = Inr cs" "c = CArray cs"
      unfolding encode_leaf_list_eq [OF ll] by (auto simp: result_simps split: json.splits)
    have "rmap (encode_leaf_value E cont i) vs = Inr cs"
      by (rule rmap_mono [OF v(2)]) (rule encode_leaf_mono)
    then show ?thesis unfolding encode_leaf_list_eq [OF ll] by (simp add: v)
  next
    case con
    from less.prems have "entry_body E cf False i v = Inr c" unfolding encode_container_eq [OF con] by (auto simp: lenient_def split: sum.splits)
    from entry [OF this] show ?thesis unfolding encode_container_eq [OF con] by simp
  next
    case list
    show ?thesis
    proof (cases v)
      case (JArray vs)
      from less.prems obtain cs where cs: "rmap (entry_body E cf False i) vs = Inr cs" "c = CArray cs"
        unfolding encode_list_eq [OF list] by (auto simp: result_simps JArray)
      have "rmap (entry_body E cf cont i) vs = Inr cs"
        by (rule rmap_mono [OF cs(1)]) (use entry json_array_size JArray in \<open>fastforce intro: less_imp_le\<close>)
      then show ?thesis unfolding encode_list_eq [OF list] by (simp add: JArray cs)
    next
      case (JObject obj)
      with less.prems have "encode_body E cf False i obj = Inr c" "is_sequence cf"
        unfolding encode_list_eq [OF list] by (auto simp: lenient_def split: if_splits sum.splits)
      with body JObject show ?thesis unfolding encode_list_eq [OF list] by simp
    qed (use less.prems in \<open>auto simp: encode_list_eq [OF list] lenient_def\<close>)
  next
    case op
    from less.prems obtain obj where v: "v = JObject obj"
      unfolding encode_operation_eq [OF op] by (auto split: json.splits)
    show ?thesis
    proof (cases "side_wrapper obj")
      case None
      with less.prems body v show ?thesis unfolding encode_operation_eq [OF op] by simp
    next
      case (Some e)
      from less.prems obtain side where s: "find_child (the_schema E) i (fst e) = Some side"
        "entry_body E cf False side (snd e) = Inr c"
        unfolding encode_operation_eq [OF op] by (auto simp: result_simps v Some)
      have "size (snd e) \<le> size v" using json_object_size [of e obj] side_wrapper_Some [OF Some] v by simp
      from entry [OF s(2) this] show ?thesis unfolding encode_operation_eq [OF op] by (simp add: v Some s)
    qed
  next
    case 6
    from less.prems show ?thesis unfolding encode_unsupported_eq [OF 6] by simp
  qed
qed

lemma tree_mono:
  assumes "json_to_cbor E v cf False = Inr bs"
  shows "json_to_cbor E v cf cont = Inr bs"
proof -
  from assms obtain obj es where obj: "as_object v = Some obj" "bs = to_vec (CMap es)"
    "body_entries (encode_node_value E cf False) (find_root E) 0 False obj = Inr es"
    by (auto simp: json_to_cbor_def encode_whole_tree_def cbor_to_bytes_def result_simps)
  have "body_entries (encode_node_value E cf cont) (find_root E) 0 cont obj = Inr es"
    by (rule body_entries_mono [OF obj(3)]) (rule encode_node_mono)
  with obj(1,2) show ?thesis by (simp add: json_to_cbor_def encode_whole_tree_def cbor_to_bytes_def)
qed

lemma instance_mono: "encode_instance E cf False path val = Inr c \<Longrightarrow> encode_instance E cf cont path val = Inr c"
proof -
  assume "encode_instance E cf False path val = Inr c"
  then obtain target iid ev where r: "resolve_iid E path = Inr (target, iid)" "c = CMap [(iid, ev)]"
    and "(if val = JNull then Inr CNull else encode_node_value E cf False target val) = Inr ev"
    by (auto simp: encode_instance_def result_simps)
  from this(3) have "(if val = JNull then Inr CNull else encode_node_value E cf cont target val) = Inr ev"
    by (auto intro: encode_node_mono split: if_splits)
  with r show ?thesis by (simp add: encode_instance_def)
qed

lemma entry_mono: "encode_entry E cf False item = Inr c \<Longrightarrow> encode_entry E cf cont item = Inr c"
  by (cases cf; cases item) (auto simp: encode_entry_def result_simps intro: instance_mono split: list.splits)

lemma seq_mono: "json_seq_items E cf False vs out = Inr bs \<Longrightarrow> json_seq_items E cf cont vs out = Inr bs"
  by (induction vs arbitrary: out) (auto simp: result_simps cbor_to_bytes_def dest: entry_mono)

text \<open>
  C36: Continuing after errors changes nothing when there are none: if a request encodes
  strictly, the same request encodes to the same bytes with \<open>--continue\<close>, as a tree and as a
  sequence of entries.
\<close>

theorem continue_conservative:
  "(\<forall>bs. json_to_cbor E v cf False = Inr bs \<longrightarrow> json_to_cbor E v cf True = Inr bs) \<and>
   (\<forall>bs. json_seq_to_cbor E vs cf False = Inr bs \<longrightarrow> json_seq_to_cbor E vs cf True = Inr bs)"
  by (auto simp: json_seq_to_cbor_def intro: tree_mono seq_mono)

theorem continue_conservative_witness:
  "json_to_cbor sample_env (JObject [(''m:top'', sample_data)]) Put True
     = Inr (to_vec (CMap [(CInteger 1000, sample_cbor)]))"
  using continue_conservative [of sample_env "JObject [(''m:top'', sample_data)]" Put "[]"] sample_put by blast

lemma rmap_error: "v \<in> set vs \<Longrightarrow> f v = Inl e \<Longrightarrow> \<exists>e. rmap f vs = Inl e"
proof (induction vs)
  case (Cons w vs)
  then show ?case by (cases "f w"; cases "rmap f vs") auto
qed simp

text \<open>
  C37: Continuing does not reach into lists: an entry of a list that is not an object fails
  the request with \<open>--continue\<close> as without it, although the same mistake one level up, in the
  shape of the list or of a container, is replaced by an empty list or map.
\<close>

theorem continue_stops_at_list_entries:
  assumes "kw (nodes (the_schema E) ! i) = ''list''" "v \<in> set vs" "as_object v = None"
  shows "(\<exists>e. encode_node_value E cf True i (JArray vs) = Inl e) \<and>
    encode_node_value E cf True i (JString s) = Inr (CArray [])"
proof -
  have "\<exists>e. entry_body E cf True i v = Inl e" using assms(3) by (cases v) (simp_all add: as_object_def entry_body_def)
  then obtain e where "rmap (entry_body E cf True i) vs = Inl e" using assms(2) rmap_error by metis
  then show ?thesis unfolding encode_list_eq [OF assms(1)] by (simp add: lenient_def)
qed

theorem continue_stops_at_list_entries_witness:
  "encode_node_value sample_env Put True 5 (JString ''k'') = Inr (CArray [])"
  using continue_stops_at_list_entries [of sample_env 5 JNull "[JNull]" Put "''k''"]
  by (simp add: sample_kinds as_object_def)

end
