(* ===== verification/Yang_Builder.thy ===== *)
theory Yang_Builder
  imports Yang_Arena Yang_Sid
begin

text \<open>
  The state of the schema builder (\<open>Builder\<close> of \<open>src/yang/src/schema.rs\<close>) and the look-ups on it:
  qualified names, identities, paths to nodes under construction, groupings in scope. An
  operation that may fail gives an error or the new state; after an error the code drops the
  builder, so no state comes with it.
\<close>

section \<open>Folding a fallible step\<close>

fun rfold :: "('a \<Rightarrow> 's \<Rightarrow> 'e + 's) \<Rightarrow> 'a list \<Rightarrow> 's \<Rightarrow> 'e + 's" where
  "rfold f [] s = Inr s"
| "rfold f (x # xs) s = rbind (f x s) (rfold f xs)"

lemma rfold_cong [fundef_cong]:
  "xs = ys \<Longrightarrow> s = t \<Longrightarrow> (\<And>x s. x \<in> set ys \<Longrightarrow> f x s = g x s) \<Longrightarrow> rfold f xs s = rfold g ys t"
proof (induction ys arbitrary: xs s t)
  case (Cons y ys)
  then have "rfold f ys = rfold g ys" by (intro ext) simp
  with Cons show ?case by simp
qed simp

text \<open>What holds of a state and is kept by every step holds at the end.\<close>

lemma rfold_invariant:
  "rfold f xs s = Inr t \<Longrightarrow> P s \<Longrightarrow> (\<And>x s t. x \<in> set xs \<Longrightarrow> P s \<Longrightarrow> f x s = Inr t \<Longrightarrow> P t) \<Longrightarrow> P t"
proof (induction xs arbitrary: s)
  case (Cons x xs)
  then obtain s' where "f x s = Inr s'" "rfold f xs s' = Inr t" by (auto simp: result_simps)
  with Cons.IH [of s'] Cons.prems(2,3) show ?case by (meson list.set_intros)
qed simp

section \<open>Hash maps as association lists\<close>

fun assoc_put :: "'k \<Rightarrow> 'v \<Rightarrow> ('k \<times> 'v) list \<Rightarrow> ('k \<times> 'v) list" where
  "assoc_put k v [] = [(k, v)]"
| "assoc_put k v (e # es) = (if fst e = k then (k, v) # es else e # assoc_put k v es)"

lemma map_of_assoc_put [simp]: "map_of (assoc_put k v es) = (map_of es)(k \<mapsto> v)"
  by (induction es) auto

lemma fst_assoc_put [simp]: "fst ` set (assoc_put k v es) = insert k (fst ` set es)"
  by (induction es) auto

lemma assoc_put_set: "e \<in> set (assoc_put k v es) \<Longrightarrow> e = (k, v) \<or> e \<in> set es"
  by (induction es) (auto split: if_splits)

section \<open>Errors and state\<close>

text \<open>
  The errors of the builder, with what their messages quote. \<open>Schema_panic\<close> stands for a
  panic of the code and \<open>Too_nested\<close> for recursion deeper than the given depth.
\<close>

datatype schema_error =
  Unparsable parse_failure
| Bad_sid_file sid_error
| Unknown_status string
| Unknown_module string
| No_namespace string
| Unknown_prefix string string
| Document_collides string string string
| Yang_data_twice string string
| Yang_data_children string nat
| Yang_data_not_container string string
| Yang_data_collides string string string
| Structure_not_top string string
| Structure_twice string string
| Structure_collides string string
| Not_a_key string string
| Segment_not_found string string
| Empty_schema_node_id string
| Target_module_unknown string string
| Target_not_found string string string
| No_sid_target string
| Grouping_not_found string string
| Typedef_not_found string string
| Typedef_without_type string
| Leafref_unresolved string string
| Leafref_not_a_leaf string string string
| Not_qualified string string
| Not_an_identity string string
| Not_derived string string
| Yang_data_unknown string
| Accept_leaf_unknown string
| Accept_leaf_not_a_leaf string string
| Accept_leaf_not_identityref string
| Accept_leaf_twice string
| Schema_panic string
| Too_nested

type_synonym 'a built = "schema_error + 'a"

type_synonym scope = "(stmt \<times> string) list"

record pending_type =
  pending_resolve :: string
  pending_scope :: scope
  pending_stmt :: stmt

text \<open>
  The builder. The last four fields are the sets that \<open>compute_reachable_typedefs\<close> leaves.
  A hash map is a list of entries in the order of insertion; nothing below but which of two
  errors comes first, and which of two nodes with one SID wins, depends on that order.
\<close>

record builder =
  raw_modules :: "(string \<times> stmt) list"
  contexts :: "(string \<times> (string \<times> string) list) list"
  building :: "string list"
  built :: "string list"
  arena :: "node list"
  typedef_arena :: "typedef_def list"
  identity_arena :: "identity list"
  identity_by_module_name :: "((string \<times> string) \<times> nat) list"
  typedef_cache :: "((string \<times> string) \<times> nat \<times> pending_type) list"
  modules_of :: "(string \<times> yang_module) list"
  yang_data_of :: "yang_data list"
  structures_of :: "(string \<times> nat) list"
  implemented_yang_data :: "string list"
  identity_accept_lists :: "(string \<times> string list) list"
  identityref_accept_lists :: "(string \<times> string list) list"
  live_typedefs :: "nat list"
  live_identities :: "nat list"
  live_implemented :: "nat list"
  referenced_modules :: "string list"

definition schema_node_keywords :: "string list" where
  "schema_node_keywords =
     [''container'', ''leaf'', ''leaf-list'', ''list'', ''choice'', ''case'', ''rpc'', ''action'',
      ''input'', ''output'', ''notification'', ''anydata'', ''anyxml'']"

definition read_status :: "stmt \<Rightarrow> yang_status built" where
  "read_status s =
    (case stmt_sub ''status'' s of
       None \<Rightarrow> Inr Current
     | Some st \<Rightarrow>
         (if arg_str st = ''current'' then Inr Current
          else if arg_str st = ''deprecated'' then Inr Deprecated
          else if arg_str st = ''obsolete'' then Inr Obsolete
          else Inl (Unknown_status (arg_str st))))"

text \<open>\<open>self.nodes[i]\<close> and an assignment to its fields.\<close>

abbreviation node_at :: "builder \<Rightarrow> nat \<Rightarrow> node" where
  "node_at b i \<equiv> arena b ! i"

definition set_node :: "nat \<Rightarrow> (node \<Rightarrow> node) \<Rightarrow> builder \<Rightarrow> builder" where
  "set_node i f b = b\<lparr>arena := (arena b)[i := f (arena b ! i)]\<rparr>"

definition set_identity :: "nat \<Rightarrow> (identity \<Rightarrow> identity) \<Rightarrow> builder \<Rightarrow> builder" where
  "set_identity i f b = b\<lparr>identity_arena := (identity_arena b)[i := f (identity_arena b ! i)]\<rparr>"

definition add_node :: "string \<Rightarrow> string \<Rightarrow> string \<Rightarrow> nat option \<Rightarrow> bool \<Rightarrow> bool \<Rightarrow> builder
    \<Rightarrow> (nat \<times> builder) built" where
  "add_node k name owner par detached syn b =
    (case new_node k name owner par detached syn (arena b, modules_of b) of
       None \<Rightarrow> Inl (Schema_panic owner)
     | Some (i, ns, ms) \<Rightarrow> Inr (i, b\<lparr>arena := ns, modules_of := ms\<rparr>))"

section \<open>Names and identities\<close>

definition split_qualified :: "builder \<Rightarrow> string \<Rightarrow> string \<Rightarrow> (string \<times> string) built" where
  "split_qualified b current_module val =
    (case split_once (CHR '':'') val of
       Some (prefix, local) \<Rightarrow>
         rbind (ok_or (Unknown_module current_module) (map_of (contexts b) current_module)) (\<lambda>ctx.
         rbind (ok_or (Unknown_prefix prefix current_module) (map_of ctx prefix)) (\<lambda>m.
         Inr (m, local)))
     | None \<Rightarrow> Inr (current_module, val))"

definition fresh_identity :: "string \<Rightarrow> string \<Rightarrow> identity" where
  "fresh_identity m name =
    \<lparr>identity_name = name, identity_module = m, identity_description = None, identity_base = [],
     derived = [], identity_sid = None\<rparr>"

definition get_identity :: "string \<Rightarrow> string \<Rightarrow> builder \<Rightarrow> nat \<times> builder" where
  "get_identity m name b =
    (case map_of (identity_by_module_name b) (m, name) of
       Some i \<Rightarrow> (i, b)
     | None \<Rightarrow>
         (let i = length (identity_arena b) in
          (i, b\<lparr>identity_arena := identity_arena b @ [fresh_identity m name],
                identity_by_module_name := assoc_put (m, name) i (identity_by_module_name b)\<rparr>)))"

definition resolve_identity_ref :: "string \<Rightarrow> string \<Rightarrow> builder \<Rightarrow> (nat \<times> builder) built" where
  "resolve_identity_ref current_module val b =
     rbind (split_qualified b current_module val) (\<lambda>(m, local). Inr (get_identity m local b))"

text \<open>One \<open>base\<close> of an identity: both ends of the derivation are recorded.\<close>

definition add_base :: "string \<Rightarrow> nat \<Rightarrow> stmt \<Rightarrow> builder \<Rightarrow> builder built" where
  "add_base name i base b =
     rbind (resolve_identity_ref name (arg_str base) b) (\<lambda>(base_id, b).
     Inr (set_identity base_id (\<lambda>d. d\<lparr>derived := derived d @ [i]\<rparr>)
         (set_identity i (\<lambda>d. d\<lparr>identity_base := identity_base d @ [base_id]\<rparr>) b)))"

definition register_identity :: "string \<Rightarrow> stmt \<Rightarrow> builder \<Rightarrow> builder built" where
  "register_identity name ident b =
    (let (i, b) = get_identity name (arg_str ident) b;
         b = set_identity i (\<lambda>d. d\<lparr>identity_description := map_option arg_str (stmt_sub ''description'' ident)\<rparr>) b
     in rfold (add_base name i) (subs_of ''base'' ident) b)"

section \<open>Paths to nodes under construction\<close>

definition find_in_module :: "builder \<Rightarrow> yang_module \<Rightarrow> string \<Rightarrow> nat option" where
  "find_in_module b m local = find (\<lambda>i. local_name (node_at b i) = local) (root_nodes m)"

definition find_by_local :: "builder \<Rightarrow> nat \<Rightarrow> string \<Rightarrow> nat option" where
  "find_by_local b par local = find (\<lambda>c. local_name (node_at b c) = local) (children (node_at b par))"

fun descend_named :: "builder \<Rightarrow> string \<Rightarrow> string list \<Rightarrow> nat \<Rightarrow> nat built" where
  "descend_named b path [] cur = Inr cur"
| "descend_named b path (seg # segs) cur =
     rbind (ok_or (Segment_not_found seg path) (find_by_local b cur (local_part seg))) (descend_named b path segs)"

definition resolve_relative_path :: "builder \<Rightarrow> nat \<Rightarrow> string \<Rightarrow> nat built" where
  "resolve_relative_path b root path = descend_named b path (path_segments path) root"

definition resolve_absolute_schema_node_id :: "builder \<Rightarrow> string \<Rightarrow> string \<Rightarrow> nat built" where
  "resolve_absolute_schema_node_id b current_module path =
    (case path_segments path of
       [] \<Rightarrow> Inl (Empty_schema_node_id path)
     | first # segs \<Rightarrow>
         rbind (split_qualified b current_module first) (\<lambda>(dst_module, first_local).
         rbind (ok_or (Target_module_unknown dst_module path) (map_of (modules_of b) dst_module)) (\<lambda>m.
         rbind (ok_or (Target_not_found first_local dst_module path) (find_in_module b m first_local)) (\<lambda>cur.
         descend_named b path segs cur))))"

definition resolve_sid_data_identifier :: "builder \<Rightarrow> string \<Rightarrow> nat built" where
  "resolve_sid_data_identifier b path =
     ok_or (No_sid_target path)
       (or_else (resolve_schema_path (arena b) (modules_of b) path)
       (or_else (resolve_yang_data_path (arena b) (map yang_data_root (yang_data_of b)) path)
                (resolve_yang_data_path (arena b) (map snd (structures_of b)) path)))"

definition schema_node_path_of :: "builder \<Rightarrow> nat \<Rightarrow> string" where
  "schema_node_path_of b i = node_path_of (arena b) i"

text \<open>The grouping that a \<open>uses\<close> names, and the scope it was declared in; the innermost scope first.\<close>

fun grouping_in_scope :: "string \<Rightarrow> scope \<Rightarrow> (stmt \<times> scope) option" where
  "grouping_in_scope local [] = None"
| "grouping_in_scope local ((s, label) # outer) =
    (case find (\<lambda>g. arg_str g = local) (subs_of ''grouping'' s) of
       Some g \<Rightarrow> Some (g, rev ((s, label) # outer))
     | None \<Rightarrow> grouping_in_scope local outer)"

definition find_grouping_stmt :: "builder \<Rightarrow> string \<Rightarrow> scope \<Rightarrow> string \<Rightarrow> (stmt \<times> scope) built" where
  "find_grouping_stmt b def_module scope local =
    (case grouping_in_scope local (rev scope) of
       Some r \<Rightarrow> Inr r
     | None \<Rightarrow>
         rbind (ok_or (Unknown_module def_module) (map_of (raw_modules b) def_module)) (\<lambda>module_stmt.
         rbind (ok_or (Grouping_not_found local def_module)
           (find (\<lambda>g. arg_str g = local) (subs_of ''grouping'' module_stmt))) (\<lambda>g.
         Inr (g, []))))"

end
