(* ===== verification/Yang_Build_Types.thy ===== *)
theory Yang_Build_Types
  imports Yang_Builder
begin

text \<open>
  Type statements and typedefs (\<open>interpret_type\<close> and what it calls in
  \<open>src/yang/src/schema.rs\<close>). The functions that read a type inside a type take the reader as an
  argument, and \<open>interpret_type\<close> ties the knot with the depth of nested calls as fuel: the code
  recurses without a bound, and forever on a typedef that refers to itself.
\<close>

section \<open>Built-in types\<close>

type_synonym type_reader = "string \<Rightarrow> scope \<Rightarrow> stmt \<Rightarrow> builder \<Rightarrow> (type_descriptor \<times> builder) built"

definition set_info :: "(type_info \<Rightarrow> type_info) \<Rightarrow> type_descriptor \<Rightarrow> type_descriptor" where
  "set_info f ty = Type_descriptor (f (info ty)) (union_members ty)"

definition parse_u32 :: "string \<Rightarrow> u32 option" where
  "parse_u32 s = map_option word_of_int (parse_int 0 (2 ^ 32 - 1) s)"

definition parse_u8 :: "string \<Rightarrow> u8 option" where
  "parse_u8 s = map_option word_of_int (parse_int 0 255 s)"

text \<open>Positions and values count up from the last one given; the sums wrap as in a release build.\<close>

fun read_bits :: "u32 \<Rightarrow> stmt list \<Rightarrow> bit_def list" where
  "read_bits next_pos [] = []"
| "read_bits next_pos (b # bs) =
    (let p = (case Option.bind (stmt_sub ''position'' b) (\<lambda>p. parse_u32 (arg_str p)) of
                Some p \<Rightarrow> p | None \<Rightarrow> next_pos)
     in \<lparr>bit_name = arg_str b, bit_pos = p\<rparr> # read_bits (p + 1) bs)"

fun read_enums :: "i64 \<Rightarrow> stmt list \<Rightarrow> enum_val list" where
  "read_enums next_val [] = []"
| "read_enums next_val (e # es) =
    (let v = (case Option.bind (stmt_sub ''value'' e) (\<lambda>v. parse_i64 (arg_str v)) of
                Some v \<Rightarrow> word_of_int v | None \<Rightarrow> next_val)
     in \<lparr>enum_name = arg_str e, enum_value = v\<rparr> # read_enums (v + 1) es)"

definition add_identity_base :: "string \<Rightarrow> stmt \<Rightarrow> nat list \<times> builder \<Rightarrow> (nat list \<times> builder) built" where
  "add_identity_base m base = (\<lambda>(ids, b).
     rbind (resolve_identity_ref m (arg_str base) b) (\<lambda>(i, b). Inr (ids @ [i], b)))"

definition add_member :: "type_reader \<Rightarrow> string \<Rightarrow> scope \<Rightarrow> stmt \<Rightarrow> type_descriptor list \<times> builder
    \<Rightarrow> (type_descriptor list \<times> builder) built" where
  "add_member read_type m scope t = (\<lambda>(tys, b).
     rbind (read_type m scope t b) (\<lambda>(ty, b). Inr (tys @ [ty], b)))"

definition interpret_builtin_type :: "type_reader \<Rightarrow> string \<Rightarrow> scope \<Rightarrow> builtin \<Rightarrow> stmt \<Rightarrow> builder
    \<Rightarrow> (type_descriptor \<times> builder) built" where
  "interpret_builtin_type read_type m scope k t b =
    (let i = (type_info_new k)\<lparr>ranges := default_ranges k\<rparr> in
     case k of
       Decimal64 \<Rightarrow>
         Inr (Type_descriptor (case stmt_sub ''fraction-digits'' t of
             Some fd \<Rightarrow> i\<lparr>fraction_digits := parse_u8 (arg_str fd)\<rparr> | None \<Rightarrow> i) [], b)
     | Bits \<Rightarrow> Inr (Type_descriptor (i\<lparr>type_bits := read_bits 0 (subs_of ''bit'' t)\<rparr>) [], b)
     | Enumeration \<Rightarrow> Inr (Type_descriptor (i\<lparr>type_enums := read_enums 0 (subs_of ''enum'' t)\<rparr>) [], b)
     | Identityref \<Rightarrow>
         rbind (rfold (add_identity_base m) (subs_of ''base'' t) ([], b)) (\<lambda>(ids, b).
         Inr (Type_descriptor (i\<lparr>source_module := Some m, identity_bases := ids\<rparr>) [], b))
     | Leafref \<Rightarrow>
         Inr (Type_descriptor (case stmt_sub ''path'' t of
             Some p \<Rightarrow> i\<lparr>leafref_path := Some (arg_str p), source_module := Some m\<rparr> | None \<Rightarrow> i) [], b)
     | Union_type \<Rightarrow>
         rbind (rfold (add_member read_type m scope) (subs_of ''type'' t) ([], b)) (\<lambda>(tys, b).
         Inr (Type_descriptor i tys, b))
     | _ \<Rightarrow> Inr (Type_descriptor i [], b))"

section \<open>Typedefs\<close>

definition ensure_typedef_interpreted :: "type_reader \<Rightarrow> string \<times> string \<Rightarrow> builder \<Rightarrow> builder built" where
  "ensure_typedef_interpreted read_type key b =
    (case map_of (typedef_cache b) key of
       None \<Rightarrow> Inr b
     | Some (i, p) \<Rightarrow>
         (if typedef_ty (typedef_arena b ! i) \<noteq> None then Inr b
          else
            rbind (ok_or (Typedef_without_type (typedef_name (typedef_arena b ! i))) (stmt_sub ''type'' (pending_stmt p))) (\<lambda>base.
            rbind (read_type (pending_resolve p) (pending_scope p) base b) (\<lambda>(ty, b).
            (let ty = (case stmt_sub ''default'' (pending_stmt p) of
                   Some d \<Rightarrow> set_info (\<lambda>i. i\<lparr>type_default := Some (arg_str d)\<rparr>) ty | None \<Rightarrow> ty);
                 ty = (case stmt_sub ''units'' (pending_stmt p) of
                   Some u \<Rightarrow> set_info (\<lambda>i. i\<lparr>type_units := Some (arg_str u)\<rparr>) ty | None \<Rightarrow> ty)
             in Inr (b\<lparr>typedef_arena := (typedef_arena b)[i := (typedef_arena b ! i)\<lparr>typedef_ty := Some ty\<rparr>]\<rparr>))))))"

definition typedef_scope_of :: "builder \<Rightarrow> string \<Rightarrow> scope \<Rightarrow> string \<Rightarrow> string" where
  "typedef_scope_of b def_module scope local =
    (case find (\<lambda>e. map_of (typedef_cache b) (snd e, local) \<noteq> None) (rev scope) of
       Some e \<Rightarrow> snd e
     | None \<Rightarrow> def_module)"

definition resolve_typedef :: "type_reader \<Rightarrow> string \<Rightarrow> scope \<Rightarrow> string \<Rightarrow> builder \<Rightarrow> (nat \<times> builder) built" where
  "resolve_typedef read_type def_module scope local b =
    (let key = (typedef_scope_of b def_module scope local, local) in
     rbind (ensure_typedef_interpreted read_type key b) (\<lambda>b.
     rbind (ok_or (Typedef_not_found local def_module) (map_of (typedef_cache b) key)) (\<lambda>(i, _).
     Inr (i, b))))"

text \<open>Declaring the typedefs of a scope first, then reading their types.\<close>

definition declare_typedef :: "string \<Rightarrow> string \<Rightarrow> scope \<Rightarrow> stmt \<Rightarrow> (string \<times> string) list \<times> builder
    \<Rightarrow> (string \<times> string) list \<times> builder" where
  "declare_typedef def_module label scope td = (\<lambda>(ks, b).
    (let key = (label, arg_str td) in
     if map_of (typedef_cache b) key \<noteq> None then (ks, b)
     else (ks @ [key],
       b\<lparr>typedef_arena := typedef_arena b @
            [\<lparr>typedef_name = arg_str td, typedef_module = def_module, typedef_scope = label,
              typedef_description = map_option arg_str (stmt_sub ''description'' td), typedef_ty = None\<rparr>],
         typedef_cache := assoc_put key
            (length (typedef_arena b), \<lparr>pending_resolve = def_module, pending_scope = scope, pending_stmt = td\<rparr>)
            (typedef_cache b)\<rparr>)))"

definition interpret_scope_typedefs :: "type_reader \<Rightarrow> string \<Rightarrow> string \<Rightarrow> scope \<Rightarrow> stmt list \<Rightarrow> builder
    \<Rightarrow> builder built" where
  "interpret_scope_typedefs read_type def_module label scope stmts b =
    (let (ks, b) = fold (declare_typedef def_module label scope) (filter (\<lambda>s. keyword s = ''typedef'') stmts) ([], b)
     in rfold (ensure_typedef_interpreted read_type) ks b)"

section \<open>Type statements\<close>

definition typedef_reference :: "type_reader \<Rightarrow> string \<Rightarrow> scope \<Rightarrow> string \<Rightarrow> builder
    \<Rightarrow> (type_descriptor \<times> builder) built" where
  "typedef_reference read_type m scope name b =
     rbind (split_qualified b m name) (\<lambda>(def_module, local).
     rbind (resolve_typedef read_type def_module (if def_module = m then scope else []) local b) (\<lambda>(i, b).
     rbind (ok_or (Schema_panic local) (typedef_ty (typedef_arena b ! i))) (\<lambda>ty.
     Inr (set_info (\<lambda>f. f\<lparr>type_base := Some i\<rparr>) ty, b))))"

definition narrow_by :: "stmt option \<Rightarrow> type_info \<Rightarrow> type_info" where
  "narrow_by st i = (case st of
     None \<Rightarrow> i
   | Some r \<Rightarrow> i\<lparr>ranges := restrict_range (ranges i) (arg_str r), range_error := narrowed_by (range_error i) r\<rparr>)"

definition read_pattern :: "stmt \<Rightarrow> pattern_def" where
  "read_pattern p =
    \<lparr>regex = arg_str p,
     invert_match = (case stmt_sub ''modifier'' p of Some m \<Rightarrow> arg_str m = ''invert-match'' | None \<Rightarrow> False),
     pattern_error = error_info_read p\<rparr>"

definition apply_restrictions :: "stmt \<Rightarrow> type_info \<Rightarrow> type_info" where
  "apply_restrictions t i =
    (let i = (if ranges i \<noteq> [] then narrow_by (stmt_sub ''length'' t) (narrow_by (stmt_sub ''range'' t) i) else i);
         i = i\<lparr>patterns := patterns i @ map read_pattern (subs_of ''pattern'' t)\<rparr>
     in case stmt_sub ''require-instance'' t of
          Some r \<Rightarrow> i\<lparr>require_instance := (arg_str r = ''true'')\<rparr>
        | None \<Rightarrow> i)"

fun interpret_type :: "nat \<Rightarrow> type_reader" where
  "interpret_type 0 m scope t b = Inl Too_nested"
| "interpret_type (Suc d) m scope t b =
     rbind (case builtin_from_name (arg_str t) of
              Some k \<Rightarrow> interpret_builtin_type (interpret_type d) m scope k t b
            | None \<Rightarrow> typedef_reference (interpret_type d) m scope (arg_str t) b) (\<lambda>(ty, b).
     Inr (set_info (apply_restrictions t) ty, b))"

end
