(* ===== verification/Yang_Build_Nodes.thy ===== *)
theory Yang_Build_Nodes
  imports Yang_Build_Types
begin

text \<open>
  Statements that make nodes: schema nodes, choices, groupings, augments and extensions (the
  \<open>interpret\<close> functions of \<open>src/yang/src/schema.rs\<close>). Each takes the interpreter of a nested
  statement as an argument, and \<open>interpret_one\<close> ties the knot with the depth as fuel.
\<close>

section \<open>Statements under a parent\<close>

type_synonym interpreter = "string \<Rightarrow> string \<Rightarrow> scope \<Rightarrow> stmt \<Rightarrow> nat option \<Rightarrow> builder \<Rightarrow> builder built"

definition interpret_children :: "interpreter \<Rightarrow> string \<Rightarrow> string \<Rightarrow> scope \<Rightarrow> stmt list \<Rightarrow> nat option \<Rightarrow> builder
    \<Rightarrow> builder built" where
  "interpret_children one resolve naming scope stmts par b =
     rfold (\<lambda>s b. one resolve naming scope s par b) stmts b"

definition add_reference :: "string \<Rightarrow> nat \<Rightarrow> builder \<Rightarrow> builder" where
  "add_reference m i = set_node i (\<lambda>n. n\<lparr>references_modules := references_modules n @ [m]\<rparr>)"

section \<open>Extensions\<close>

definition extension_module :: "builder \<Rightarrow> string \<Rightarrow> stmt \<Rightarrow> string option" where
  "extension_module b resolve s =
     Option.bind (stmt_prefix s) (\<lambda>prefix.
     Option.bind (map_of (contexts b) resolve) (\<lambda>ctx. map_of ctx prefix))"

definition note_reference :: "nat option \<Rightarrow> string option \<Rightarrow> builder \<Rightarrow> builder" where
  "note_reference par ext b = (case (par, ext) of (Some p, Some m) \<Rightarrow> add_reference m p b | _ \<Rightarrow> b)"

definition named_yang_data :: "builder \<Rightarrow> string \<Rightarrow> bool" where
  "named_yang_data b name = list_ex (\<lambda>y. node_name (node_at b (yang_data_root y)) = name) (yang_data_of b)"

text \<open>
  \<open>rc:yang-data\<close>: its one container is interpreted under a scratch node and becomes a root of
  its own, outside the roots of the module.
\<close>

definition promote_container :: "string \<Rightarrow> string option \<Rightarrow> stmt \<Rightarrow> nat \<Rightarrow> builder \<Rightarrow> builder built" where
  "promote_container naming ext s scratch b =
    (case children (node_at b scratch) of
       [root] \<Rightarrow>
         (if kw (node_at b root) \<noteq> ''container''
          then Inl (Yang_data_not_container (arg_str s) (kw (node_at b root)))
          else
            (let name = naming @ '':'' @ node_name (node_at b root) in
             if name \<in> fst ` set (structures_of b) \<or> named_yang_data b name
             then Inl (Yang_data_collides (arg_str s) (node_name (node_at b root)) naming)
             else
               (let b = set_node root (\<lambda>n. n\<lparr>parent := None, node_name := name\<rparr>) b;
                    b = note_reference (Some root) ext b
                in Inr (b\<lparr>yang_data_of := yang_data_of b @
                     [\<lparr>yang_data_module = naming, yang_data_name = arg_str s, yang_data_root = root\<rparr>]\<rparr>))))
     | cs \<Rightarrow> Inl (Yang_data_children (arg_str s) (length cs)))"

definition interpret_yang_data :: "interpreter \<Rightarrow> string \<Rightarrow> string \<Rightarrow> string option \<Rightarrow> stmt \<Rightarrow> builder
    \<Rightarrow> builder built" where
  "interpret_yang_data one resolve naming ext s b =
    (if list_ex (\<lambda>y. yang_data_module y = naming \<and> yang_data_name y = arg_str s) (yang_data_of b)
     then Inl (Yang_data_twice (arg_str s) naming)
     else
       rbind (add_node ''container'' [] naming None True True b) (\<lambda>(scratch, b).
       rbind (interpret_children one resolve naming [] (subs s) (Some scratch)
                (set_node scratch (\<lambda>n. n\<lparr>config := None\<rparr>) b))
       (promote_container naming ext s scratch)))"

definition interpret_structure :: "interpreter \<Rightarrow> type_reader \<Rightarrow> string \<Rightarrow> string \<Rightarrow> stmt \<Rightarrow> nat option \<Rightarrow> builder
    \<Rightarrow> builder built" where
  "interpret_structure one read_type resolve naming s par b =
    (let name = naming @ '':'' @ arg_str s in
     if par \<noteq> None then Inl (Structure_not_top (arg_str s) naming)
     else if name \<in> fst ` set (structures_of b) then Inl (Structure_twice (arg_str s) naming)
     else if named_yang_data b name then Inl (Structure_collides (arg_str s) naming)
     else
       rbind (add_node ''container'' name naming None True True b) (\<lambda>(root, b).
       rbind (read_status s) (\<lambda>st.
       (let b = set_node root (\<lambda>n. n\<lparr>config := None, node_status := Some st,
              node_description := (case stmt_sub ''description'' s of
                 Some d \<Rightarrow> Some (arg_str d) | None \<Rightarrow> node_description n)\<rparr>) b;
            label = schema_node_path_of b root;
            scope = [(s, label)]
        in rbind (interpret_scope_typedefs read_type resolve label scope (subs s) b) (\<lambda>b.
           rbind (interpret_children one resolve naming scope (subs s) (Some root) b) (\<lambda>b.
           Inr (b\<lparr>structures_of := assoc_put name root (structures_of b)\<rparr>)))))))"

definition interpret_extension :: "interpreter \<Rightarrow> type_reader \<Rightarrow> string \<Rightarrow> string \<Rightarrow> stmt \<Rightarrow> nat option \<Rightarrow> builder
    \<Rightarrow> builder built" where
  "interpret_extension one read_type resolve naming s par b =
    (let ext = extension_module b resolve s; b = note_reference par ext b in
     if keyword s = ''yang-data'' then interpret_yang_data one resolve naming ext s b
     else if keyword s = ''structure'' \<and> ext = Some ''ietf-yang-structure-ext''
     then interpret_structure one read_type resolve naming s par b
     else Inr b)"

section \<open>Schema nodes\<close>

definition type_default_applies :: "node \<Rightarrow> bool" where
  "type_default_applies n \<longleftrightarrow> (if kw n = ''leaf'' then \<not> mandatory n else min_elements n = 0)"

definition effective_defaults :: "node \<Rightarrow> string list" where
  "effective_defaults n =
    (if is_key n then []
     else if own_defaults n \<noteq> [] then own_defaults n
     else if type_default_applies n then
       (case Option.bind (node_ty n) (\<lambda>ty. type_default (info ty)) of Some d \<Rightarrow> [d] | None \<Rightarrow> [])
     else [])"

definition resolve_effective_default_and_units :: "nat \<Rightarrow> builder \<Rightarrow> builder" where
  "resolve_effective_default_and_units i =
     set_node i (\<lambda>n. n\<lparr>node_defaults := effective_defaults n,
       node_units := or_else (own_units n) (Option.bind (node_ty n) (\<lambda>ty. type_units (info ty)))\<rparr>)"

definition stmt_is_true :: "stmt \<Rightarrow> bool" where
  "stmt_is_true s \<longleftrightarrow> arg_str s = ''true''"

text \<open>The substatements that fill in the fields of any node.\<close>

definition read_common :: "stmt \<Rightarrow> node \<Rightarrow> node" where
  "read_common s n = n\<lparr>
     config := (case stmt_sub ''config'' s of
        Some c \<Rightarrow> if config n \<noteq> None then Some (stmt_is_true c) else config n | None \<Rightarrow> config n),
     mandatory := (case stmt_sub ''mandatory'' s of Some m \<Rightarrow> stmt_is_true m | None \<Rightarrow> mandatory n),
     node_description := (case stmt_sub ''description'' s of Some d \<Rightarrow> Some (arg_str d) | None \<Rightarrow> node_description n)\<rparr>"

definition set_status :: "nat \<Rightarrow> stmt \<Rightarrow> builder \<Rightarrow> builder built" where
  "set_status i s b =
    (if keyword s \<in> {''input'', ''output''} then Inr b
     else rbind (read_status s) (\<lambda>st. Inr (set_node i (\<lambda>n. n\<lparr>node_status := Some st\<rparr>) b)))"

definition read_leaf :: "type_reader \<Rightarrow> string \<Rightarrow> scope \<Rightarrow> stmt \<Rightarrow> nat \<Rightarrow> builder \<Rightarrow> builder built" where
  "read_leaf read_type resolve scope s i b =
    (let b = set_node i (\<lambda>n. n\<lparr>own_defaults := map arg_str (subs_of ''default'' s),
             own_units := map_option arg_str (stmt_sub ''units'' s),
             min_elements := (case Option.bind (stmt_sub ''min-elements'' s) (\<lambda>m. parse_u64 (arg_str m)) of
                Some v \<Rightarrow> word_of_int v | None \<Rightarrow> 0)\<rparr>) b
     in rbind (case stmt_sub ''type'' s of
                 Some t \<Rightarrow>
                   rbind (read_type resolve scope t b) (\<lambda>(ty, b).
                   Inr (set_node i (\<lambda>n. n\<lparr>node_ty := Some ty\<rparr>) b))
               | None \<Rightarrow> Inr b) (\<lambda>b.
        Inr (resolve_effective_default_and_units i b)))"

text \<open>The parameters of an operation exist even when the module does not write them.\<close>

definition add_side :: "string \<Rightarrow> string \<Rightarrow> nat \<Rightarrow> stmt \<Rightarrow> builder \<Rightarrow> builder built" where
  "add_side side naming i s b =
    (if stmt_sub side s = None
     then rbind (add_node side side naming (Some i) False True b) (\<lambda>(_, b). Inr b)
     else Inr b)"

definition read_kind :: "type_reader \<Rightarrow> string \<Rightarrow> string \<Rightarrow> scope \<Rightarrow> stmt \<Rightarrow> nat \<Rightarrow> builder \<Rightarrow> builder built" where
  "read_kind read_type resolve naming scope s i b =
    (if keyword s \<in> {''leaf'', ''leaf-list''} then read_leaf read_type resolve scope s i b
     else if keyword s \<in> {''rpc'', ''action''} then
       rbind (add_side ''input'' naming i s b) (add_side ''output'' naming i s)
     else Inr b)"

definition read_choice_default :: "stmt \<Rightarrow> nat \<Rightarrow> builder \<Rightarrow> builder" where
  "read_choice_default s i b =
    (if keyword s = ''choice''
     then case stmt_sub ''default'' s of
         Some d \<Rightarrow> set_node i (\<lambda>n. n\<lparr>node_default := Some (arg_str d)\<rparr>) b
       | None \<Rightarrow> b
     else b)"

definition scope_bearing_keywords :: "string list" where
  "scope_bearing_keywords =
     [''container'', ''list'', ''rpc'', ''action'', ''input'', ''output'', ''notification'']"

definition open_scope :: "type_reader \<Rightarrow> string \<Rightarrow> scope \<Rightarrow> stmt \<Rightarrow> nat \<Rightarrow> builder \<Rightarrow> (scope \<times> builder) built" where
  "open_scope read_type resolve scope s i b =
    (if keyword s \<in> set scope_bearing_keywords then
       (let label = schema_node_path_of b i; inner = scope @ [(s, label)] in
        rbind (interpret_scope_typedefs read_type resolve label inner (subs s) b) (\<lambda>b. Inr (inner, b)))
     else Inr (scope, b))"

definition implicit_case_keywords :: "string list" where
  "implicit_case_keywords =
     [''container'', ''leaf'', ''leaf-list'', ''list'', ''choice'', ''anydata'', ''anyxml'']"

definition interpret_choice_member :: "interpreter \<Rightarrow> string \<Rightarrow> string \<Rightarrow> scope \<Rightarrow> nat \<Rightarrow> stmt \<Rightarrow> builder
    \<Rightarrow> builder built" where
  "interpret_choice_member one resolve naming scope choice_node s b =
    (if stmt_prefix s = None \<and> keyword s \<in> set implicit_case_keywords then
       rbind (add_node ''case'' (arg_str s) naming (Some choice_node) False True b) (\<lambda>(case_id, b).
       rbind (one resolve naming scope s (Some case_id) b) (\<lambda>b.
       case children (node_at b case_id) of
         [] \<Rightarrow> Inl (Schema_panic ''implicit case must have a child'')
       | c # _ \<Rightarrow> Inr (set_node case_id (\<lambda>n. n\<lparr>node_status := node_status (node_at b c)\<rparr>) b)))
     else one resolve naming scope s (Some choice_node) b)"

definition interpret_choice_body :: "interpreter \<Rightarrow> string \<Rightarrow> string \<Rightarrow> scope \<Rightarrow> stmt list \<Rightarrow> nat \<Rightarrow> builder
    \<Rightarrow> builder built" where
  "interpret_choice_body one resolve naming scope stmts choice_node b =
     rfold (interpret_choice_member one resolve naming scope choice_node) stmts b"

definition add_key :: "nat \<Rightarrow> string \<Rightarrow> builder \<Rightarrow> builder built" where
  "add_key i local b =
     rbind (ok_or (Not_a_key local (node_name (node_at b i))) (find_by_local b i local)) (\<lambda>k.
     Inr (resolve_effective_default_and_units k
         (set_node k (\<lambda>n. n\<lparr>is_key := True\<rparr>)
         (set_node i (\<lambda>n. n\<lparr>node_keys := node_keys n @ [k]\<rparr>) b))))"

definition read_keys :: "stmt \<Rightarrow> nat \<Rightarrow> builder \<Rightarrow> builder built" where
  "read_keys s i b =
    (if keyword s = ''list''
     then case stmt_sub ''key'' s of
         Some k \<Rightarrow> rfold (add_key i) (split_whitespace (arg_str k)) b
       | None \<Rightarrow> Inr b
     else Inr b)"

definition interpret_schema_node :: "interpreter \<Rightarrow> type_reader \<Rightarrow> string \<Rightarrow> string \<Rightarrow> scope \<Rightarrow> stmt \<Rightarrow> nat option
    \<Rightarrow> builder \<Rightarrow> builder built" where
  "interpret_schema_node one read_type resolve naming scope s par b =
    (let local = (if keyword s \<in> {''input'', ''output''} then keyword s else arg_str s);
         name = (if par = None then naming @ '':'' @ local else local)
     in rbind (add_node (keyword s) name naming par False False b) (\<lambda>(i, b).
        rbind (set_status i s (set_node i (read_common s) b)) (\<lambda>b.
        rbind (read_kind read_type resolve naming scope s i (read_choice_default s i b)) (\<lambda>b.
        rbind (open_scope read_type resolve scope s i b) (\<lambda>(inner, b).
        rbind (if keyword s = ''choice'' then interpret_choice_body one resolve naming inner (subs s) i b
               else interpret_children one resolve naming inner (subs s) (Some i) b)
        (read_keys s i))))))"

section \<open>Groupings and augments\<close>

text \<open>
  A node that an augment of another module adds is named in the namespace of that module.
\<close>

definition qualify_child :: "string \<Rightarrow> nat \<Rightarrow> builder \<Rightarrow> builder" where
  "qualify_child naming c = set_node c (\<lambda>n. n\<lparr>node_name := naming @ '':'' @ local_name n\<rparr>)"

definition augment_child :: "interpreter \<Rightarrow> string \<Rightarrow> string \<Rightarrow> scope \<Rightarrow> nat \<Rightarrow> string \<Rightarrow> stmt \<Rightarrow> builder
    \<Rightarrow> builder built" where
  "augment_child one resolve naming scope target target_owner s b =
    (if stmt_prefix s = None \<and> keyword s \<notin> set schema_node_keywords \<and> keyword s \<noteq> ''uses'' then Inr b
     else
       (let count = length (children (node_at b target)) in
        rbind (one resolve naming scope s (Some target) b) (\<lambda>b.
        Inr (if naming \<noteq> target_owner
             then fold (qualify_child naming) (drop count (children (node_at b target))) b
             else b))))"

definition interpret_augment :: "interpreter \<Rightarrow> string \<Rightarrow> string \<Rightarrow> scope \<Rightarrow> stmt \<Rightarrow> nat option \<Rightarrow> builder
    \<Rightarrow> builder built" where
  "interpret_augment one resolve naming scope s relative_root b =
     rbind (case relative_root of
              Some root \<Rightarrow> resolve_relative_path b root (arg_str s)
            | None \<Rightarrow> resolve_absolute_schema_node_id b resolve (arg_str s)) (\<lambda>target.
     rfold (augment_child one resolve naming scope target (owner_module (node_at b target))) (subs s) b)"

definition splice_grouping :: "interpreter \<Rightarrow> string \<Rightarrow> string \<Rightarrow> scope \<Rightarrow> stmt list \<Rightarrow> nat option \<Rightarrow> builder
    \<Rightarrow> builder built" where
  "splice_grouping one def_module naming inner body par b =
    (case par of
       Some p \<Rightarrow>
         rbind (interpret_children one def_module naming inner body par b) (\<lambda>b. Inr (add_reference def_module p b))
     | None \<Rightarrow>
         rbind (ok_or (Schema_panic naming) (map_of (modules_of b) naming)) (\<lambda>m.
         rbind (interpret_children one def_module naming inner body par b) (\<lambda>b.
         rbind (ok_or (Schema_panic naming) (map_of (modules_of b) naming)) (\<lambda>m'.
         Inr (fold (add_reference def_module) (drop (length (root_nodes m)) (root_nodes m')) b)))))"

definition interpret_uses :: "interpreter \<Rightarrow> type_reader \<Rightarrow> string \<Rightarrow> string \<Rightarrow> scope \<Rightarrow> stmt \<Rightarrow> nat option
    \<Rightarrow> builder \<Rightarrow> builder built" where
  "interpret_uses one read_type resolve naming scope s par b =
     rbind (split_qualified b resolve (arg_str s)) (\<lambda>(def_module, local).
     rbind (find_grouping_stmt b def_module scope local) (\<lambda>(raw, def_scope).
     (let label = (case par of Some p \<Rightarrow> schema_node_path_of b p | None \<Rightarrow> naming);
          inner = def_scope @ [(raw, label)]
      in rbind (interpret_scope_typedefs read_type def_module label inner (subs raw) b) (\<lambda>b.
         rbind (splice_grouping one def_module naming inner (subs raw) par b)
         (rfold (\<lambda>aug b. interpret_augment one resolve naming scope aug par b) (subs_of ''augment'' s))))))"

section \<open>One statement\<close>

text \<open>
  \<open>interpret_one\<close>, with the depth of nested calls as fuel: a statement inside a statement, or
  the body of a grouping inside its use, is one level down.
\<close>

fun interpret_one :: "nat \<Rightarrow> interpreter" where
  "interpret_one 0 resolve naming scope s par b = Inl Too_nested"
| "interpret_one (Suc d) resolve naming scope s par b =
    (if stmt_prefix s \<noteq> None
     then interpret_extension (interpret_one d) (interpret_type d) resolve naming s par b
     else if keyword s \<in> set schema_node_keywords
     then interpret_schema_node (interpret_one d) (interpret_type d) resolve naming scope s par b
     else if keyword s = ''uses''
     then interpret_uses (interpret_one d) (interpret_type d) resolve naming scope s par b
     else if keyword s = ''augment''
     then interpret_augment (interpret_one d) resolve naming scope s None b
     else Inr b)"

end
