(* ===== verification/Yang_Build.thy ===== *)
theory Yang_Build
  imports Yang_Build_Nodes "HOL-Library.List_Lexorder" "HOL-Library.Product_Lexorder" "HOL-Library.Option_ord"
begin

text \<open>
  Building a schema (\<open>build\<close> of \<open>src/yang/src/schema.rs\<close>): the modules in the order of their
  names, each after its imports, then SIDs, deviations, the identities and typedefs in use,
  leafrefs, and the finished schema with its index of SIDs.
\<close>

section \<open>Modules\<close>

text \<open>
  The roots that are outside the tree of their module must not have the name of one inside.
\<close>

definition document_collision :: "builder \<Rightarrow> string \<Rightarrow> string \<times> nat \<Rightarrow> bool" where
  "document_collision b name = (\<lambda>(kind, root).
     owner_module (node_at b root) = name \<and>
     (case map_of (modules_of b) name of
        Some m \<Rightarrow> find_in_module b m (local_name (node_at b root)) \<noteq> None
      | None \<Rightarrow> False))"

definition check_documents :: "string \<Rightarrow> builder \<Rightarrow> builder built" where
  "check_documents name b =
    (case find (document_collision b name)
        (map (\<lambda>e. (''structure'', snd e)) (structures_of b) @
         map (\<lambda>y. (''yang-data container'', yang_data_root y)) (yang_data_of b)) of
       Some (kind, root) \<Rightarrow> Inl (Document_collides kind (local_name (node_at b root)) name)
     | None \<Rightarrow> Inr b)"

definition fresh_module :: "string \<Rightarrow> stmt \<Rightarrow> stmt \<Rightarrow> yang_module" where
  "fresh_module name raw ns =
    \<lparr>yang_module_name = name, module_namespace = arg_str ns,
     revision = map_option arg_str (stmt_sub ''revision'' raw), module_sid = None, root_nodes = [],
     deviated_by = []\<rparr>"

text \<open>The part of \<open>ensure_module\<close> after its imports.\<close>

definition interpret_module :: "nat \<Rightarrow> string \<Rightarrow> stmt \<Rightarrow> builder \<Rightarrow> builder built" where
  "interpret_module d name raw b =
     rbind (rfold (register_identity name) (subs_of ''identity'' raw) b) (\<lambda>b.
     rbind (ok_or (No_namespace name) (stmt_sub ''namespace'' raw)) (\<lambda>ns.
     rbind (interpret_scope_typedefs (interpret_type d) name name [] (subs raw)
              (b\<lparr>modules_of := assoc_put name (fresh_module name raw ns) (modules_of b)\<rparr>)) (\<lambda>b.
     rbind (interpret_children (interpret_one d) name name [] (subs raw) None b) (\<lambda>b.
     rbind (check_documents name b) (\<lambda>b.
     Inr (b\<lparr>built := List.insert name (built b), building := removeAll name (building b)\<rparr>))))))"

text \<open>
  \<open>ensure_module\<close>: the first argument bounds the chain of imports, the second the depth of the
  statements of a module.
\<close>

fun ensure_module :: "nat \<Rightarrow> nat \<Rightarrow> string \<Rightarrow> builder \<Rightarrow> builder built" where
  "ensure_module 0 d name b =
    (if name \<in> set (built b) \<or> name \<in> set (building b) then Inr b else Inl Too_nested)"
| "ensure_module (Suc k) d name b =
    (if name \<in> set (built b) \<or> name \<in> set (building b) then Inr b
     else
       rbind (ok_or (Unknown_module name) (map_of (raw_modules b) name)) (\<lambda>raw.
       rbind (rfold (ensure_module k d) (map arg_str (subs_of ''import'' raw))
                (b\<lparr>building := List.insert name (building b)\<rparr>)) (\<lambda>b.
       interpret_module d name raw b)))"

section \<open>SIDs\<close>

definition attach_sid :: "string \<Rightarrow> sid_item \<Rightarrow> builder \<Rightarrow> builder built" where
  "attach_sid module_name item b =
    (case item_namespace item of
       NModule \<Rightarrow>
         (case map_of (modules_of b) (sid_identifier item) of
            Some m \<Rightarrow> Inr (b\<lparr>modules_of := assoc_put (sid_identifier item)
                (m\<lparr>module_sid := Some (item_sid item)\<rparr>) (modules_of b)\<rparr>)
          | None \<Rightarrow> Inr b)
     | NIdentity \<Rightarrow>
         (case map_of (identity_by_module_name b) (module_name, sid_identifier item) of
            Some i \<Rightarrow> Inr (set_identity i (\<lambda>d. d\<lparr>identity_sid := Some (item_sid item)\<rparr>) b)
          | None \<Rightarrow> Inr b)
     | NData \<Rightarrow>
         rbind (resolve_sid_data_identifier b (sid_identifier item)) (\<lambda>target.
         Inr (set_node target (\<lambda>n. n\<lparr>node_sid := Some (item_sid item)\<rparr>) b))
     | NFeature \<Rightarrow> Inr b)"

definition attach_sids :: "sid_file \<Rightarrow> builder \<Rightarrow> builder built" where
  "attach_sids f b = rfold (attach_sid (sid_module_name f)) (sid_file_items f) b"

section \<open>Deviations\<close>

definition remove_node :: "nat \<Rightarrow> builder \<Rightarrow> builder" where
  "remove_node target b =
    (case parent (node_at b target) of
       Some p \<Rightarrow> set_node p (\<lambda>n. n\<lparr>children := removeAll target (children n)\<rparr>) b
     | None \<Rightarrow>
         (let owner = owner_module (node_at b target) in
          case map_of (modules_of b) owner of
            Some m \<Rightarrow> b\<lparr>modules_of := assoc_put owner (m\<lparr>root_nodes := removeAll target (root_nodes m)\<rparr>) (modules_of b)\<rparr>
          | None \<Rightarrow> b))"

text \<open>The depth of the tree is at most the number of nodes, which is what the callers give.\<close>

fun propagate_config_within :: "nat \<Rightarrow> nat \<Rightarrow> node list \<Rightarrow> node list" where
  "propagate_config_within 0 i ns = ns"
| "propagate_config_within (Suc d) i ns =
     fold (\<lambda>c ns.
       if config (ns ! c) \<noteq> None
       then propagate_config_within d c (ns[c := (ns ! c)\<lparr>config := Some False\<rparr>])
       else ns) (children (ns ! i)) ns"

definition propagate_config_false :: "nat \<Rightarrow> builder \<Rightarrow> builder" where
  "propagate_config_false i b = b\<lparr>arena := propagate_config_within (length (arena b)) i (arena b)\<rparr>"

definition replace_config :: "nat \<Rightarrow> stmt \<Rightarrow> builder \<Rightarrow> builder" where
  "replace_config target d b =
    (case stmt_sub ''config'' d of
       Some c \<Rightarrow>
         (if config (node_at b target) \<noteq> None
          then (let b = set_node target (\<lambda>n. n\<lparr>config := Some (stmt_is_true c)\<rparr>) b
                in if stmt_is_true c then b else propagate_config_false target b)
          else b)
     | None \<Rightarrow> b)"

definition replace_type :: "nat \<Rightarrow> string \<Rightarrow> nat \<Rightarrow> stmt \<Rightarrow> builder \<Rightarrow> builder built" where
  "replace_type depth m target d b =
    (case stmt_sub ''type'' d of
       Some t \<Rightarrow>
         rbind (interpret_type depth m [] t b) (\<lambda>(ty, b).
         Inr (resolve_effective_default_and_units target (set_node target (\<lambda>n. n\<lparr>node_ty := Some ty\<rparr>) b)))
     | None \<Rightarrow> Inr b)"

definition apply_deviate :: "nat \<Rightarrow> string \<Rightarrow> nat \<Rightarrow> stmt \<Rightarrow> builder \<Rightarrow> builder built" where
  "apply_deviate depth m target d b =
    (if arg_str d = ''not-supported'' then Inr (remove_node target b)
     else if arg_str d = ''replace'' then replace_type depth m target d (replace_config target d b)
     else Inr b)"

definition note_deviation :: "string \<Rightarrow> string \<Rightarrow> builder \<Rightarrow> builder built" where
  "note_deviation m target_module b =
    (if target_module = m then Inr b
     else
       rbind (ok_or (Schema_panic target_module) (map_of (modules_of b) target_module)) (\<lambda>t.
       Inr (b\<lparr>modules_of := assoc_put target_module (t\<lparr>deviated_by := List.insert m (deviated_by t)\<rparr>) (modules_of b)\<rparr>)))"

definition apply_deviation :: "nat \<Rightarrow> string \<Rightarrow> stmt \<Rightarrow> builder \<Rightarrow> builder built" where
  "apply_deviation depth m dev b =
     rbind (resolve_absolute_schema_node_id b m (arg_str dev)) (\<lambda>target.
     rbind (note_deviation m (owner_module (node_at b target)) b)
     (rfold (apply_deviate depth m target) (subs_of ''deviate'' dev)))"

definition apply_deviations :: "nat \<Rightarrow> stmt list \<Rightarrow> builder \<Rightarrow> builder built" where
  "apply_deviations depth ms b =
     rfold (\<lambda>m. rfold (apply_deviation depth (arg_str m)) (subs_of ''deviation'' m)) ms b"

section \<open>Walking the tree\<close>

text \<open>The nodes below a root, each before its children; the depth is at most the number of nodes.\<close>

fun subtree_within :: "nat \<Rightarrow> node list \<Rightarrow> nat \<Rightarrow> nat list" where
  "subtree_within 0 ns i = [i]"
| "subtree_within (Suc d) ns i = i # concat (map (subtree_within d ns) (children (ns ! i)))"

definition subtree :: "node list \<Rightarrow> nat \<Rightarrow> nat list" where
  "subtree ns i = subtree_within (length ns) ns i"

definition tree_roots :: "builder \<Rightarrow> nat list" where
  "tree_roots b = concat (map (root_nodes \<circ> snd) (modules_of b)) @ map yang_data_root (yang_data_of b)"

text \<open>The nodes that a walk from the roots meets (\<open>mark_reachable\<close> and the stack of live nodes).\<close>

definition live_nodes :: "builder \<Rightarrow> nat list" where
  "live_nodes b = concat (map (subtree (arena b)) (tree_roots b))"

section \<open>Leafrefs\<close>

fun climb :: "builder \<Rightarrow> string list \<Rightarrow> nat \<Rightarrow> nat option" where
  "climb b [] cur = Some cur"
| "climb b (seg # segs) cur =
     Option.bind (if seg = ''..'' then parent (node_at b cur) else find_by_local b cur (local_part seg)) (climb b segs)"

definition resolve_relative_leafref :: "builder \<Rightarrow> nat \<Rightarrow> string \<Rightarrow> nat option" where
  "resolve_relative_leafref b i path = climb b (path_segments (str_trim path)) i"

definition leafref_target_of :: "builder \<Rightarrow> nat \<Rightarrow> string \<Rightarrow> string \<Rightarrow> nat built" where
  "leafref_target_of b i m path =
     rbind (case strip_prefix ''/'' (str_trim path) of
              Some below \<Rightarrow> resolve_absolute_schema_node_id b m (CHR ''/'' # below)
            | None \<Rightarrow> ok_or (Leafref_unresolved path m) (resolve_relative_leafref b i path)) (\<lambda>target.
     if kw (node_at b target) \<notin> {''leaf'', ''leaf-list''}
     then Inl (Leafref_not_a_leaf path m (kw (node_at b target)))
     else Inr target)"

definition resolve_own_leafref :: "builder \<Rightarrow> nat \<Rightarrow> type_info \<Rightarrow> type_info built" where
  "resolve_own_leafref b i ty =
    (case (builtin_of ty, leafref_path ty) of
       (Leafref, Some path) \<Rightarrow>
         rbind (ok_or (Schema_panic path) (source_module ty)) (\<lambda>m.
         rbind (leafref_target_of b i m path) (\<lambda>target.
         Inr (ty\<lparr>leafref_target := Some target\<rparr>)))
     | _ \<Rightarrow> Inr ty)"

fun resolve_leafref_in_descriptor :: "builder \<Rightarrow> nat \<Rightarrow> type_descriptor \<Rightarrow> type_descriptor built" where
  "resolve_leafref_in_descriptor b i (Type_descriptor ty members) =
     rbind (resolve_own_leafref b i ty) (\<lambda>ty.
     rbind (rmap (resolve_leafref_in_descriptor b i) members) (\<lambda>members.
     Inr (Type_descriptor ty members)))"

text \<open>
  While the type of a node is being resolved it is taken out of the node; no path looks at it.
\<close>

definition resolve_leafref_of_node :: "nat \<Rightarrow> builder \<Rightarrow> builder built" where
  "resolve_leafref_of_node i b =
    (case node_ty (node_at b i) of
       None \<Rightarrow> Inr b
     | Some ty \<Rightarrow>
         rbind (resolve_leafref_in_descriptor b i ty) (\<lambda>ty.
         Inr (set_node i (\<lambda>n. n\<lparr>node_ty := Some ty\<rparr>) b)))"

definition resolve_leafrefs :: "builder \<Rightarrow> builder built" where
  "resolve_leafrefs b =
    (let live = set (live_nodes b)
     in rfold resolve_leafref_of_node (filter (\<lambda>i. i \<in> live) [0..<length (arena b)]) b)"

section \<open>Identities that a device accepts\<close>

definition identity_by_qualified_name :: "builder \<Rightarrow> string \<Rightarrow> nat option built" where
  "identity_by_qualified_name b name =
     rbind (ok_or (Not_qualified name name) (split_once (CHR '':'') name)) (\<lambda>(m, local).
     Inr (map_of (identity_by_module_name b) (m, local)))"

definition accept_identity :: "builder \<Rightarrow> nat list \<Rightarrow> string \<Rightarrow> string \<Rightarrow> nat list \<Rightarrow> nat list built" where
  "accept_identity b ds owner name accepted =
     rbind (identity_by_qualified_name b name) (\<lambda>r.
     rbind (ok_or (Not_an_identity name owner) r) (\<lambda>i.
     if i \<notin> set ds then Inl (Not_derived name owner) else Inr (List.insert i accepted)))"

definition accepted_identities :: "builder \<Rightarrow> string list \<Rightarrow> nat list \<Rightarrow> string \<Rightarrow> nat list built" where
  "accepted_identities b accepted_names bases owner =
     rfold (accept_identity b (derived_from_all (identity_arena b) bases) owner) accepted_names []"

definition accept_base :: "builder \<Rightarrow> string \<times> string list \<Rightarrow> (nat \<times> nat list) list
    \<Rightarrow> (nat \<times> nat list) list built" where
  "accept_base b = (\<lambda>(base_name, accepted_names) out.
     rbind (identity_by_qualified_name b base_name) (\<lambda>r.
     case r of
       None \<Rightarrow> Inr out
     | Some base_id \<Rightarrow>
         rbind (accepted_identities b accepted_names [base_id] base_name) (\<lambda>accepted.
         Inr (assoc_put base_id accepted out))))"

definition accept_lists_by_base :: "builder \<Rightarrow> (nat \<times> nat list) list built" where
  "accept_lists_by_base b = rfold (accept_base b) (identity_accept_lists b) []"

definition accept_leaf :: "builder \<Rightarrow> string \<times> string list \<Rightarrow> (nat \<times> nat list) list
    \<Rightarrow> (nat \<times> nat list) list built" where
  "accept_leaf b = (\<lambda>(leaf, accepted_names) out.
     rbind (ok_or (Accept_leaf_unknown leaf)
        (or_else (resolve_schema_path (arena b) (modules_of b) leaf)
                 (resolve_yang_data_path (arena b) (map yang_data_root (yang_data_of b)) leaf))) (\<lambda>i.
     if kw (node_at b i) \<notin> {''leaf'', ''leaf-list''} then Inl (Accept_leaf_not_a_leaf leaf (kw (node_at b i)))
     else
       rbind (ok_or (Schema_panic leaf) (node_ty (node_at b i))) (\<lambda>ty.
       if builtin_type ty \<noteq> Identityref then Inl (Accept_leaf_not_identityref leaf)
       else
         rbind (accepted_identities b accepted_names (identity_bases (info ty)) leaf) (\<lambda>accepted.
         if map_of out i \<noteq> None then Inl (Accept_leaf_twice leaf)
         else Inr (assoc_put i accepted out)))))"

definition accept_lists_by_leaf :: "builder \<Rightarrow> (nat \<times> nat list) list built" where
  "accept_lists_by_leaf b = rfold (accept_leaf b) (identityref_accept_lists b) []"

definition values_for_base :: "identity list \<Rightarrow> (nat \<times> nat list) list \<Rightarrow> nat \<Rightarrow> nat list" where
  "values_for_base ids by_base base =
    (case map_of by_base base of Some accepted \<Rightarrow> accepted | None \<Rightarrow> transitive_derived_excluding_self ids base)"

definition values_of_bases :: "identity list \<Rightarrow> (nat \<times> nat list) list \<Rightarrow> nat list \<Rightarrow> nat list" where
  "values_of_bases ids by_base bases =
    (case bases of
       [] \<Rightarrow> []
     | base # rest \<Rightarrow>
         foldl (\<lambda>vs base. filter (\<lambda>i. i \<in> set (values_for_base ids by_base base)) vs)
           (values_for_base ids by_base base) rest)"

fun assign_identity_values :: "identity list \<Rightarrow> nat list option \<Rightarrow> (nat \<times> nat list) list \<Rightarrow> type_descriptor
    \<Rightarrow> type_descriptor" where
  "assign_identity_values ids by_leaf by_base (Type_descriptor ty members) =
     Type_descriptor
       (if builtin_of ty = Identityref
        then ty\<lparr>identity_values := Some (case by_leaf of
            Some accepted \<Rightarrow> accepted | None \<Rightarrow> values_of_bases ids by_base (identity_bases ty))\<rparr>
        else ty)
       (map (assign_identity_values ids None by_base) members)"

section \<open>What the tree uses\<close>

text \<open>
  The typedefs and the bases of identities that a type refers to. Every step from a typedef to
  its own type adds it to the set first, so no chain is longer than the number of typedefs.
\<close>

fun mark_reachable_typedefs :: "nat \<Rightarrow> typedef_def list \<Rightarrow> type_descriptor \<Rightarrow> nat list \<times> nat list
    \<Rightarrow> nat list \<times> nat list" where
  "mark_reachable_typedefs d tds (Type_descriptor ty members) (out, seeds) =
    (let (out, seeds) =
       (case type_base ty of
          None \<Rightarrow> (out, seeds)
        | Some t \<Rightarrow>
            (if t \<in> set out then (out, seeds)
             else case (d, typedef_ty (tds ! t)) of
                 (Suc d', Some base_ty) \<Rightarrow> mark_reachable_typedefs d' tds base_ty (t # out, seeds)
               | _ \<Rightarrow> (t # out, seeds)))
     in fold (mark_reachable_typedefs d tds) members (out, List.union (identity_bases ty) seeds))"

definition mark_node :: "builder \<Rightarrow> nat \<Rightarrow> (nat list \<times> nat list) \<times> string list \<Rightarrow> (nat list \<times> nat list) \<times> string list" where
  "mark_node b i = (\<lambda>(marks, refs).
    ((case node_ty (node_at b i) of
        None \<Rightarrow> marks
      | Some ty \<Rightarrow> mark_reachable_typedefs (length (typedef_arena b)) (typedef_arena b) ty marks),
     List.union (references_modules (node_at b i)) refs))"

text \<open>The bases of the implemented identities, transitively; each is visited once.\<close>

function visit_bases :: "identity list \<Rightarrow> nat list \<Rightarrow> nat list \<Rightarrow> nat list" where
  "visit_bases ids out [] = out"
| "visit_bases ids out (i # stack) =
    (if i \<in> set out \<or> length ids \<le> i then visit_bases ids out stack
     else visit_bases ids (i # out) (rev (identity_base (ids ! i)) @ stack))"
  by pat_completeness auto
termination
proof (relation "measures [\<lambda>(ids, out, stack). card ({..<length ids} - set out), \<lambda>(ids, out, stack). length stack]")
  fix ids :: "identity list" and out :: "nat list" and i stack
  assume "\<not> (i \<in> set out \<or> length ids \<le> i)"
  then have "{..<length ids} - insert i (set out) \<subset> {..<length ids} - set out" by fastforce
  then have "card ({..<length ids} - insert i (set out)) < card ({..<length ids} - set out)"
    by (intro psubset_card_mono) auto
  then show "((ids, i # out, rev (identity_base (ids ! i)) @ stack), ids, out, i # stack)
      \<in> measures [\<lambda>(ids, out, stack). card ({..<length ids} - set out), \<lambda>(ids, out, stack). length stack]"
    by simp
qed auto

definition assign_node :: "(nat \<times> nat list) list \<Rightarrow> (nat \<times> nat list) list \<Rightarrow> nat \<Rightarrow> builder \<times> nat list
    \<Rightarrow> builder \<times> nat list" where
  "assign_node by_leaf by_base i = (\<lambda>(b, implemented).
    (case node_ty (node_at b i) of
       None \<Rightarrow> (b, implemented)
     | Some ty \<Rightarrow>
         (let ty = assign_identity_values (identity_arena b) (map_of by_leaf i) by_base ty
          in (set_node i (\<lambda>n. n\<lparr>node_ty := Some ty\<rparr>) b, collect_identity_values ty implemented))))"

definition check_implemented :: "string \<Rightarrow> builder \<Rightarrow> builder built" where
  "check_implemented name b =
    (if list_ex (\<lambda>y. qualified_name y = name) (yang_data_of b) then Inr b else Inl (Yang_data_unknown name))"

text \<open>The pass over the live nodes: what their types refer to, and the values of their identityrefs.\<close>

definition note_live :: "(nat \<times> nat list) list \<Rightarrow> (nat \<times> nat list) list \<Rightarrow> builder \<Rightarrow> builder" where
  "note_live by_leaf by_base b =
    (let marks = fold (mark_node b) (live_nodes b) (([], []), []);
         assigned = fold (assign_node by_leaf by_base) (live_nodes b) (b, [])
     in (fst assigned)\<lparr>live_typedefs := fst (fst marks), live_identities :=
           visit_bases (identity_arena b) [] (List.union (snd assigned) (snd (fst marks))),
         live_implemented := snd assigned, referenced_modules := snd marks\<rparr>)"

definition compute_reachable_typedefs :: "builder \<Rightarrow> builder built" where
  "compute_reachable_typedefs b =
     rbind (accept_lists_by_base b) (\<lambda>by_base.
     rbind (rfold check_implemented (implemented_yang_data b) b) (\<lambda>b.
     (let b = b\<lparr>yang_data_of := filter (\<lambda>y. qualified_name y \<in> set (implemented_yang_data b)) (yang_data_of b)\<rparr> in
      rbind (accept_lists_by_leaf b) (\<lambda>by_leaf.
      Inr (note_live by_leaf by_base b)))))"

section \<open>The finished schema\<close>

definition has_surviving_augment :: "builder \<Rightarrow> string \<Rightarrow> stmt \<Rightarrow> bool" where
  "has_surviving_augment b name raw =
     list_ex (\<lambda>aug. case resolve_absolute_schema_node_id b name (arg_str aug) of Inr _ \<Rightarrow> True | Inl _ \<Rightarrow> False)
       (subs_of ''augment'' raw)"

definition module_implemented :: "builder \<Rightarrow> string \<times> stmt \<Rightarrow> bool built" where
  "module_implemented b = (\<lambda>(name, raw).
     rbind (ok_or (Schema_panic name) (map_of (modules_of b) name)) (\<lambda>m.
     Inr (root_nodes m \<noteq> []
        \<or> has_surviving_augment b name raw
        \<or> stmt_sub ''deviation'' raw \<noteq> None
        \<or> deviated_by m \<noteq> []
        \<or> list_ex (\<lambda>y. yang_data_module y = name) (yang_data_of b)
        \<or> list_ex (\<lambda>i. identity_module (identity_arena b ! i) = name) (live_implemented b))))"

definition implemented_names :: "builder \<Rightarrow> string list built" where
  "implemented_names b =
     rbind (rmap (\<lambda>e. rbind (module_implemented b e) (\<lambda>y. Inr (y, fst e))) (raw_modules b)) (\<lambda>marks.
     Inr (map snd (filter fst marks)))"

definition used_names :: "builder \<Rightarrow> string list \<Rightarrow> string list" where
  "used_names b implemented =
     filter (\<lambda>name. name \<notin> set implemented)
       (remdups (map (\<lambda>i. typedef_module (typedef_arena b ! i)) (live_typedefs b) @
                 map (\<lambda>i. identity_module (identity_arena b ! i)) (live_identities b) @
                 referenced_modules b))"

definition import_dates :: "string \<Rightarrow> stmt \<Rightarrow> string option list" where
  "import_dates name raw =
     map (\<lambda>imp. map_option arg_str (stmt_sub ''revision-date'' imp))
       (filter (\<lambda>imp. arg_str imp = name) (subs_of ''import'' raw))"

definition import_only_of :: "builder \<Rightarrow> string list \<Rightarrow> string \<Rightarrow> import_only_module list built" where
  "import_only_of b graph name =
     rbind (ok_or (Schema_panic name) (map_of (modules_of b) name)) (\<lambda>m.
     rbind (rmap (\<lambda>importer. rbind (ok_or (Schema_panic importer) (map_of (raw_modules b) importer))
              (\<lambda>raw. Inr (import_dates name raw))) graph) (\<lambda>ds.
     (let dates = remdups (concat ds); dates = (if dates = [] then [None] else dates)
      in Inr (map (\<lambda>d. \<lparr>import_name = yang_module_name m, import_namespace = module_namespace m,
                import_revision_date = d, import_sid = module_sid m\<rparr>) dates))))"

text \<open>Sorted by name and then by date, as \<open>sort_by\<close> on the pair of the two.\<close>

definition import_key :: "import_only_module \<Rightarrow> nat list \<times> nat list option" where
  "import_key m = (map of_char (import_name m), map_option (map of_char) (import_revision_date m))"

definition index_sids :: "node list \<Rightarrow> nat \<Rightarrow> (i64 \<times> nat) list \<Rightarrow> (i64 \<times> nat) list" where
  "index_sids ns root out =
     fold (\<lambda>i out. case node_sid (ns ! i) of Some sid \<Rightarrow> assoc_put sid i out | None \<Rightarrow> out) (subtree ns root) out"

definition finish :: "builder \<Rightarrow> schema built" where
  "finish b =
     rbind (implemented_names b) (\<lambda>implemented.
     (let used = used_names b implemented in
      rbind (rmap (import_only_of b (implemented @ used)) used) (\<lambda>imports.
      (let b = b\<lparr>modules_of := filter (\<lambda>e. fst e \<in> set implemented) (modules_of b)\<rparr>
       in Inr \<lparr>nodes = arena b, typedefs = typedef_arena b, identities = identity_arena b,
            module_root = modules_of b, import_only_modules = sort_key import_key (concat imports),
            yang_datas = yang_data_of b, structure_roots = structures_of b,
            sid_index = fold (index_sids (arena b)) (tree_roots b) [],
            reachable_typedefs = live_typedefs b, reachable_identities = live_identities b,
            implemented_identities = live_implemented b\<rparr>))))"

section \<open>Building a schema\<close>

definition import_prefix :: "stmt \<Rightarrow> (string \<times> string) list \<Rightarrow> (string \<times> string) list" where
  "import_prefix imp ctx =
    (case stmt_sub ''prefix'' imp of Some p \<Rightarrow> assoc_put (arg_str p) (arg_str imp) ctx | None \<Rightarrow> ctx)"

definition module_context :: "stmt \<Rightarrow> (string \<times> string) list" where
  "module_context m =
    (let ctx = fold import_prefix (subs_of ''import'' m) [] in
     case stmt_sub ''prefix'' m of Some p \<Rightarrow> assoc_put (arg_str p) (arg_str m) ctx | None \<Rightarrow> ctx)"

definition new_builder :: "stmt list \<Rightarrow> string list \<Rightarrow> (string \<times> string list) list \<Rightarrow> (string \<times> string list) list
    \<Rightarrow> builder" where
  "new_builder parsed implemented by_base by_leaf =
    \<lparr>raw_modules = fold (\<lambda>m. assoc_put (arg_str m) m) parsed [],
     contexts = fold (\<lambda>m. assoc_put (arg_str m) (module_context m)) parsed [],
     building = [], built = [], arena = [], typedef_arena = [], identity_arena = [],
     identity_by_module_name = [], typedef_cache = [], modules_of = [], yang_data_of = [],
     structures_of = [], implemented_yang_data = remdups implemented,
     identity_accept_lists = fold (\<lambda>(base, accepted). assoc_put base accepted) by_base [],
     identityref_accept_lists = by_leaf, live_typedefs = [], live_identities = [],
     live_implemented = [], referenced_modules = []\<rparr>"

definition read_sid_source :: "(string \<Rightarrow> string + raw_sid_file) \<Rightarrow> string \<Rightarrow> builder \<Rightarrow> builder built" where
  "read_sid_source from_str src b =
    (case sid_parse from_str src of Inl e \<Rightarrow> Inl (Bad_sid_file e) | Inr f \<Rightarrow> attach_sids f b)"

definition parse_source :: "string \<Rightarrow> stmt built" where
  "parse_source s = (case parse_module s of Inl e \<Rightarrow> Inl (Unparsable e) | Inr m \<Rightarrow> Inr m)"

definition build_modules :: "nat \<Rightarrow> (string \<Rightarrow> string + raw_sid_file) \<Rightarrow> stmt list \<Rightarrow> string list
    \<Rightarrow> string list \<Rightarrow> (string \<times> string list) list \<Rightarrow> (string \<times> string list) list \<Rightarrow> schema built" where
  "build_modules d from_str parsed sid_sources implemented by_base by_leaf =
    (let b = new_builder parsed implemented by_base by_leaf in
     rbind (rfold (ensure_module (Suc (length parsed)) d) (sort_key (map of_char :: string \<Rightarrow> nat list) (map arg_str parsed)) b) (\<lambda>b.
     rbind (rfold (read_sid_source from_str) sid_sources b) (\<lambda>b.
     rbind (apply_deviations d parsed b) (\<lambda>b.
     rbind (compute_reachable_typedefs b) (\<lambda>b.
     rbind (resolve_leafrefs b) finish)))))"

definition build_schema :: "nat \<Rightarrow> (string \<Rightarrow> string + raw_sid_file) \<Rightarrow> string list \<Rightarrow> string list
    \<Rightarrow> string list \<Rightarrow> (string \<times> string list) list \<Rightarrow> (string \<times> string list) list \<Rightarrow> schema built" where
  "build_schema d from_str yang_sources sid_sources implemented by_base by_leaf =
     rbind (rmap parse_source yang_sources) (\<lambda>parsed.
     build_modules d from_str parsed sid_sources implemented by_base by_leaf)"

end
