(* ===== verification/Yang_Build_Invariant.thy ===== *)
theory Yang_Build_Invariant
  imports Yang_Build Yang_Fields
begin

text \<open>
  What the builder keeps while it interprets statements: a good arena whose children and
  parents agree, an identity graph with both ends of every derivation, and no SIDs. The
  handlers of statements are proved once against the contract of the interpreter that they
  call for nested statements, a locale, and \<open>interpret_one\<close> is shown to keep it at every depth.
\<close>

section \<open>What a good builder keeps\<close>

definition all_roots :: "builder \<Rightarrow> nat set" where
  "all_roots b = (\<Union>e \<in> set (modules_of b). set (root_nodes (snd e))) \<union> yang_data_root ` set (yang_data_of b)
     \<union> snd ` set (structures_of b)"

text \<open>
  The arena is good, roots are nodes, and a child knows its parent. The exception is the scratch
  node of a \<open>yang-data\<close>, which is above no root: its child has become a root and forgotten it.
\<close>

definition links_agree :: "builder \<Rightarrow> bool" where
  "links_agree b \<longleftrightarrow> (\<forall>i < length (arena b). \<forall>c \<in> set (children (node_at b i)).
     parent (node_at b c) = Some i \<or>
     parent (node_at b c) = None \<and> parent (node_at b i) = None \<and> i \<notin> all_roots b)"

definition builder_ok :: "builder \<Rightarrow> bool" where
  "builder_ok b \<longleftrightarrow> arena_ok (arena b) \<and> (\<forall>r \<in> all_roots b. r < length (arena b)) \<and> links_agree b"

text \<open>
  How the tree changes while statements are interpreted: old nodes keep their parents and get
  new children only, at the end, no node gets a SID, and every new root is a new node.
\<close>

definition grows :: "builder \<Rightarrow> builder \<Rightarrow> bool" where
  "grows b b' \<longleftrightarrow> length (arena b) \<le> length (arena b')
     \<and> (\<forall>i < length (arena b). parent (node_at b' i) = parent (node_at b i)
          \<and> (\<exists>new. children (node_at b' i) = children (node_at b i) @ new
               \<and> (\<forall>c \<in> set new. length (arena b) \<le> c \<and> c < length (arena b') \<and> parent (node_at b' c) = Some i)))
     \<and> (\<forall>i < length (arena b'). node_sid (node_at b' i) = (if i < length (arena b) then node_sid (node_at b i) else None))
     \<and> all_roots b' \<subseteq> all_roots b \<union> {i. length (arena b) \<le> i}"

lemma grows_refl [intro, simp]: "grows b b"
  by (simp add: grows_def)

lemma growsD:
  assumes "grows b b'"
  shows "length (arena b) \<le> length (arena b')" "i < length (arena b) \<Longrightarrow> parent (node_at b' i) = parent (node_at b i)"
    "i < length (arena b) \<Longrightarrow> \<exists>new. children (node_at b' i) = children (node_at b i) @ new
       \<and> (\<forall>c \<in> set new. length (arena b) \<le> c \<and> c < length (arena b') \<and> parent (node_at b' c) = Some i)"
    "all_roots b' \<subseteq> all_roots b \<union> {i. length (arena b) \<le> i}"
    "i < length (arena b') \<Longrightarrow> node_sid (node_at b' i) = (if i < length (arena b) then node_sid (node_at b i) else None)"
  using assms by (auto simp: grows_def)

lemma grows_trans [trans]:
  assumes g: "grows b b'" and h: "grows b' b''"
  shows "grows b b''"
proof -
  have "parent (node_at b'' i) = parent (node_at b i) \<and> (\<exists>new. children (node_at b'' i) = children (node_at b i) @ new
      \<and> (\<forall>c \<in> set new. length (arena b) \<le> c \<and> c < length (arena b'') \<and> parent (node_at b'' c) = Some i))"
    if i: "i < length (arena b)" for i
  proof -
    from i growsD(1) [OF g] have i': "i < length (arena b')" by simp
    obtain new where new: "children (node_at b' i) = children (node_at b i) @ new"
      "\<forall>c \<in> set new. length (arena b) \<le> c \<and> c < length (arena b') \<and> parent (node_at b' c) = Some i"
      using growsD(3) [OF g i] by blast
    obtain newer where newer: "children (node_at b'' i) = children (node_at b' i) @ newer"
      "\<forall>c \<in> set newer. length (arena b') \<le> c \<and> c < length (arena b'') \<and> parent (node_at b'' c) = Some i"
      using growsD(3) [OF h i'] by blast
    have "\<forall>c \<in> set (new @ newer). length (arena b) \<le> c \<and> c < length (arena b'') \<and> parent (node_at b'' c) = Some i"
      using new(2) newer(2) growsD(1) [OF g] growsD(1) [OF h] growsD(2) [OF h] by auto
    with new(1) newer(1) growsD(2) [OF g i] growsD(2) [OF h i'] show ?thesis by simp
  qed
  moreover have "all_roots b'' \<subseteq> all_roots b \<union> {i. length (arena b) \<le> i}"
    using growsD(1,4) [OF g] growsD(4) [OF h] by fastforce
  moreover have "node_sid (node_at b'' i) = (if i < length (arena b) then node_sid (node_at b i) else None)"
    if "i < length (arena b'')" for i
    using growsD(5) [OF h that] growsD(5) [OF g, of i] growsD(1) [OF g] by (simp split: if_splits)
  ultimately show ?thesis using growsD(1) [OF g] growsD(1) [OF h] by (simp add: grows_def)
qed

section \<open>The identities\<close>

text \<open>
  While statements are interpreted, identities are only looked up, or made when a reference
  comes before the definition.
\<close>

inductive ids_grow :: "builder \<Rightarrow> builder \<Rightarrow> bool" where
  ids_refl: "ids_grow b b"
| ids_other: "ids_grow b b' \<Longrightarrow> identity_arena b'' = identity_arena b' \<Longrightarrow>
    identity_by_module_name b'' = identity_by_module_name b' \<Longrightarrow> ids_grow b b''"
| ids_get: "ids_grow b b' \<Longrightarrow> ids_grow b (snd (get_identity m name b'))"

declare ids_refl [intro, simp]

lemma ids_same: "identity_arena b' = identity_arena b \<Longrightarrow>
    identity_by_module_name b' = identity_by_module_name b \<Longrightarrow> ids_grow b b'"
  by (rule ids_other [OF ids_refl])

lemma ids_trans [trans]: "ids_grow b b' \<Longrightarrow> ids_grow b' b'' \<Longrightarrow> ids_grow b b''"
  by (rotate_tac, induction rule: ids_grow.induct) (auto intro: ids_other ids_get)

text \<open>Derivation is recorded at both ends, and the index of names leads to every identity.\<close>

definition derivation_ok :: "identity list \<Rightarrow> bool" where
  "derivation_ok ids \<longleftrightarrow> (\<forall>i < length ids.
     (\<forall>j \<in> set (derived (ids ! i)). j < length ids \<and> i \<in> set (identity_base (ids ! j)))
   \<and> (\<forall>j \<in> set (identity_base (ids ! i)). j < length ids \<and> i \<in> set (derived (ids ! j))))"

definition ids_ok :: "builder \<Rightarrow> bool" where
  "ids_ok b \<longleftrightarrow> derivation_ok (identity_arena b)
     \<and> (\<forall>m name i. map_of (identity_by_module_name b) (m, name) = Some i \<longleftrightarrow>
          i < length (identity_arena b) \<and> identity_module (identity_arena b ! i) = m
          \<and> identity_name (identity_arena b ! i) = name)"

lemma derivation_ok_fresh:
  assumes ok: "derivation_ok ids"
  shows "derivation_ok (ids @ [fresh_identity m name])"
  unfolding derivation_ok_def
proof (intro allI impI)
  fix i assume i: "i < length (ids @ [fresh_identity m name])"
  let ?ids = "ids @ [fresh_identity m name]"
  show "(\<forall>j \<in> set (derived (?ids ! i)). j < length ?ids \<and> i \<in> set (identity_base (?ids ! j)))
      \<and> (\<forall>j \<in> set (identity_base (?ids ! i)). j < length ?ids \<and> i \<in> set (derived (?ids ! j)))"
  proof (cases "i < length ids")
    case True
    then have "(\<forall>j \<in> set (derived (ids ! i)). j < length ids \<and> i \<in> set (identity_base (ids ! j)))
      \<and> (\<forall>j \<in> set (identity_base (ids ! i)). j < length ids \<and> i \<in> set (derived (ids ! j)))"
      using ok unfolding derivation_ok_def by blast
    with True show ?thesis by (auto simp: nth_append)
  next
    case False
    with i have "?ids ! i = fresh_identity m name" by (simp add: nth_append)
    then show ?thesis by (simp add: fresh_identity_def)
  qed
qed

lemma ids_ok_index: "ids_ok b \<Longrightarrow> map_of (identity_by_module_name b) (m, name) = Some i \<longleftrightarrow>
    i < length (identity_arena b) \<and> identity_module (identity_arena b ! i) = m \<and> identity_name (identity_arena b ! i) = name"
  by (simp add: ids_ok_def)

lemma get_identity_ok:
  assumes ok: "ids_ok b"
  shows "ids_ok (snd (get_identity m name b)) \<and> fst (get_identity m name b) < length (identity_arena (snd (get_identity m name b)))"
proof (cases "map_of (identity_by_module_name b) (m, name)")
  case (Some i)
  then have "get_identity m name b = (i, b)" by (simp add: get_identity_def)
  moreover have "i < length (identity_arena b)" using ids_ok_index [OF ok] Some by blast
  ultimately show ?thesis using ok by simp
next
  case None
  let ?ids = "identity_arena b @ [fresh_identity m name]"
  let ?index = "assoc_put (m, name) (length (identity_arena b)) (identity_by_module_name b)"
  have get: "get_identity m name b
      = (length (identity_arena b), b\<lparr>identity_arena := ?ids, identity_by_module_name := ?index\<rparr>)"
    using None by (simp add: get_identity_def Let_def)
  have index: "map_of ?index (m', name') = Some i \<longleftrightarrow>
      i < length ?ids \<and> identity_module (?ids ! i) = m' \<and> identity_name (?ids ! i) = name'" for m' name' i
  proof (cases "i < length (identity_arena b)")
    case True
    with ids_ok_index [OF ok, of m' name' i] ids_ok_index [OF ok, of m name i] None show ?thesis
      by (auto simp: nth_append)
  next
    case False
    with ids_ok_index [OF ok, of m' name' i] show ?thesis
      by (auto simp: nth_append fresh_identity_def less_Suc_eq)
  qed
  have "derivation_ok ?ids" using ok derivation_ok_fresh by (simp add: ids_ok_def)
  with index show ?thesis unfolding get by (simp add: ids_ok_def)
qed

lemma ids_grow_ok: "ids_grow b b' \<Longrightarrow> ids_ok b \<Longrightarrow> ids_ok b'"
proof (induction rule: ids_grow.induct)
  case (ids_other b b' b'')
  then show ?case by (simp add: ids_ok_def)
next
  case (ids_get b b' m name)
  then show ?case using get_identity_ok by blast
qed

text \<open>All together, for a computation that starts with a good builder.\<close>

definition steps :: "builder \<Rightarrow> builder \<Rightarrow> bool" where
  "steps b b' \<longleftrightarrow> ids_grow b b' \<and> (builder_ok b \<longrightarrow> builder_ok b' \<and> grows b b')"

lemma steps_refl [intro, simp]: "steps b b"
  by (simp add: steps_def)

lemma steps_trans [trans]: "steps b b' \<Longrightarrow> steps b' b'' \<Longrightarrow> steps b b''"
  unfolding steps_def using grows_trans ids_trans by blast

section \<open>Single changes\<close>

text \<open>A change that leaves the tree alone and makes identities at most.\<close>

definition same_tree :: "builder \<Rightarrow> builder \<Rightarrow> bool" where
  "same_tree b b' \<longleftrightarrow> arena b' = arena b \<and> modules_of b' = modules_of b \<and> yang_data_of b' = yang_data_of b
     \<and> structures_of b' = structures_of b \<and> ids_grow b b'"

lemma same_tree_refl [intro, simp]: "same_tree b b"
  by (simp add: same_tree_def)

lemma same_tree_trans [trans]: "same_tree b b' \<Longrightarrow> same_tree b' b'' \<Longrightarrow> same_tree b b''"
  unfolding same_tree_def using ids_trans by metis

lemma same_tree_ok: "same_tree b b' \<Longrightarrow> builder_ok b' = builder_ok b"
  by (simp add: same_tree_def builder_ok_def links_agree_def all_roots_def)

lemma same_tree_grows: "same_tree b b' \<Longrightarrow> grows b b'"
  by (simp add: same_tree_def grows_def all_roots_def)

lemma same_tree_steps: "same_tree b b' \<Longrightarrow> steps b b'"
  using same_tree_ok same_tree_grows by (auto simp: steps_def) (simp add: same_tree_def)

lemma all_roots_arena [simp]: "all_roots (b\<lparr>arena := ns\<rparr>) = all_roots b"
  by (simp add: all_roots_def)

lemma arena_set_node [simp]: "arena (set_node i f b) = (arena b)[i := f (arena b ! i)]"
  by (simp add: set_node_def)

lemma set_node_other [simp]:
  "modules_of (set_node i f b) = modules_of b" "yang_data_of (set_node i f b) = yang_data_of b"
  "structures_of (set_node i f b) = structures_of b" "all_roots (set_node i f b) = all_roots b"
  "identity_arena (set_node i f b) = identity_arena b"
  "identity_by_module_name (set_node i f b) = identity_by_module_name b"
  by (simp_all add: set_node_def all_roots_def)

text \<open>A change of one node's fields, with its keys still nodes.\<close>

lemma set_node_steps:
  assumes "\<And>n. children (f n) = children n \<and> parent (f n) = parent n \<and> node_sid (f n) = node_sid n"
    and "\<And>k. k \<in> set (node_keys (f (node_at b i))) \<Longrightarrow> k \<in> set (node_keys (node_at b i)) \<or> k < length (arena b)"
  shows "steps b (set_node i f b)"
proof (cases "i < length (arena b)")
  case True
  have same: "children (node_at (set_node i f b) j) = children (node_at b j)"
    "parent (node_at (set_node i f b) j) = parent (node_at b j)"
    "node_sid (node_at (set_node i f b) j) = node_sid (node_at b j)" for j
    using assms(1) True by (auto simp: nth_list_update)
  show ?thesis unfolding steps_def
  proof (intro impI conjI)
    show "ids_grow b (set_node i f b)" by (rule ids_same) simp_all
  next
    assume ok: "builder_ok b"
    have "links_ok (length (arena b)) i (f (node_at b i))"
      using arena_okD [of "arena b" i] ok True assms by (fastforce simp: builder_ok_def links_ok_def)
    then have "arena_ok (arena (set_node i f b))"
      using ok by (simp add: arena_ok_update builder_ok_def)
    with ok show "builder_ok (set_node i f b)"
      using same unfolding builder_ok_def links_agree_def by (metis arena_set_node length_list_update set_node_other(4))
    show "grows b (set_node i f b)"
      using same unfolding grows_def by (metis append_Nil2 arena_set_node empty_iff length_list_update list.set(1) order_refl
        set_node_other(4) sup.cobounded1)
  qed
next
  case False
  then have "set_node i f b = b" by (simp add: set_node_def list_update_beyond not_less)
  then show ?thesis by simp
qed

lemma set_node_steps_simple:
  "(\<And>n. children (f n) = children n \<and> parent (f n) = parent n \<and> node_keys (f n) = node_keys n
       \<and> node_sid (f n) = node_sid n) \<Longrightarrow>
     steps b (set_node i f b)"
  by (rule set_node_steps) simp_all

section \<open>A new node\<close>

lemma push_root_roots:
  "push_root owner i ms = Some ms' \<Longrightarrow>
     (\<Union>e \<in> set ms'. set (root_nodes (snd e))) = insert i (\<Union>e \<in> set ms. set (root_nodes (snd e)))"
proof (induction ms arbitrary: ms')
  case (Cons e ms)
  obtain k m where e: "e = (k, m)" by fastforce
  show ?case
  proof (cases "k = owner")
    case True
    with Cons.prems e show ?thesis by force
  next
    case False
    with Cons.prems e obtain ms'' where "push_root owner i ms = Some ms''" "ms' = (k, m) # ms''" by auto
    with Cons.IH [of ms''] e show ?thesis by simp
  qed
qed simp

definition par_ok :: "nat option \<Rightarrow> builder \<Rightarrow> bool" where
  "par_ok par b \<longleftrightarrow> (case par of None \<Rightarrow> True | Some p \<Rightarrow> p < length (arena b))"

lemma par_ok_grows: "par_ok par b \<Longrightarrow> grows b b' \<Longrightarrow> par_ok par b'"
  by (auto simp: par_ok_def grows_def split: option.splits)

lemma par_ok_simps [simp]: "par_ok None b" "par_ok (Some p) b \<longleftrightarrow> p < length (arena b)"
  by (simp_all add: par_ok_def)

text \<open>What \<open>add_node\<close> does, in the three cases.\<close>

lemma add_nodeD:
  assumes "add_node k name owner par det syn b = Inr (i, b')" "par_ok par b"
  shows "i = length (arena b) \<and> yang_data_of b' = yang_data_of b \<and> structures_of b' = structures_of b
    \<and> (\<exists>conf. let ms = arena b @ [fresh_node k name owner par conf syn] in
        if det then arena b' = ms \<and> modules_of b' = modules_of b
        else case par of
           Some p \<Rightarrow> arena b' = ms[p := (ms ! p)\<lparr>children := children (ms ! p) @ [i]\<rparr>] \<and> modules_of b' = modules_of b
         | None \<Rightarrow> arena b' = ms \<and> push_root owner i (modules_of b) = Some (modules_of b'))"
  using assms by (auto simp: add_node_def new_node_def Let_def split: option.splits if_splits)

lemma fresh_node_links [simp]: "children (fresh_node k n ow p c s) = []" "parent (fresh_node k n ow p c s) = p"
  "node_keys (fresh_node k n ow p c s) = []" "node_sid (fresh_node k n ow p c s) = None"
  by (simp_all add: fresh_node_def)

lemma nth_append_fresh:
  "i \<le> length ns \<Longrightarrow> children ((ns @ [fresh_node k n ow p c s]) ! i) = (if i < length ns then children (ns ! i) else [])"
  "i \<le> length ns \<Longrightarrow> parent ((ns @ [fresh_node k n ow p c s]) ! i) = (if i < length ns then parent (ns ! i) else p)"
  "i \<le> length ns \<Longrightarrow> node_sid ((ns @ [fresh_node k n ow p c s]) ! i) = (if i < length ns then node_sid (ns ! i) else None)"
  by (auto simp: nth_append)

lemma add_node_arena_ok:
  assumes "add_node k name owner par det syn b = Inr (i, b')" "par_ok par b" "arena_ok (arena b)"
  shows "arena_ok (arena b') \<and> length (arena b') = Suc (length (arena b)) \<and> i = length (arena b)"
  using assms new_node_ok [OF assms(3), of par k name owner det syn "modules_of b" i "arena b'" "modules_of b'"]
  by (auto simp: add_node_def par_ok_def split: option.splits)

lemma add_node_nodes:
  assumes new: "add_node k name owner par det syn b = Inr (i, b')" and par: "par_ok par b"
    and j: "j \<le> length (arena b)"
  shows "parent (node_at b' j) = (if j < length (arena b) then parent (node_at b j) else par)"
    and "children (node_at b' j) = (if j < length (arena b) then children (node_at b j) else [])
           @ (if par = Some j \<and> \<not> det then [i] else [])"
    and "node_sid (node_at b' j) = (if j < length (arena b) then node_sid (node_at b j) else None)"
proof -
  obtain conf where "let ms = arena b @ [fresh_node k name owner par conf syn] in
        if det then arena b' = ms \<and> modules_of b' = modules_of b
        else case par of
           Some p \<Rightarrow> arena b' = ms[p := (ms ! p)\<lparr>children := children (ms ! p) @ [i]\<rparr>] \<and> modules_of b' = modules_of b
         | None \<Rightarrow> arena b' = ms \<and> push_root owner i (modules_of b) = Some (modules_of b')"
    using add_nodeD [OF new par] by blast
  then have "parent (node_at b' j) = (if j < length (arena b) then parent (node_at b j) else par) \<and>
    children (node_at b' j) = (if j < length (arena b) then children (node_at b j) else [])
           @ (if par = Some j \<and> \<not> det then [i] else []) \<and>
    node_sid (node_at b' j) = (if j < length (arena b) then node_sid (node_at b j) else None)"
    using par j by (cases det; cases par) (simp_all add: Let_def nth_list_update nth_append_fresh)
  then show "parent (node_at b' j) = (if j < length (arena b) then parent (node_at b j) else par)"
    and "children (node_at b' j) = (if j < length (arena b) then children (node_at b j) else [])
           @ (if par = Some j \<and> \<not> det then [i] else [])"
    and "node_sid (node_at b' j) = (if j < length (arena b) then node_sid (node_at b j) else None)" by simp_all
qed

lemma add_node_roots:
  assumes new: "add_node k name owner par det syn b = Inr (i, b')" and par: "par_ok par b"
  shows "all_roots b' = (if det \<or> par \<noteq> None then all_roots b else insert i (all_roots b))"
  using add_nodeD [OF new par] push_root_roots [of owner i "modules_of b" "modules_of b'"]
  by (auto simp: Let_def all_roots_def split: if_splits option.splits)

lemma add_node_grows:
  assumes new: "add_node k name owner par det syn b = Inr (i, b')" and par: "par_ok par b" and ok: "builder_ok b"
  shows "grows b b'"
proof -
  from add_node_arena_ok [OF new par] ok have i: "i = length (arena b)" "length (arena b') = Suc (length (arena b))"
    by (simp_all add: builder_ok_def)
  have "\<exists>new. children (node_at b' j) = children (node_at b j) @ new
       \<and> (\<forall>c \<in> set new. length (arena b) \<le> c \<and> c < length (arena b') \<and> parent (node_at b' c) = Some j)"
    if j: "j < length (arena b)" for j
    using add_node_nodes [OF new par, of j] add_node_nodes(1) [OF new par, of i] j i
    by (cases "par = Some j \<and> \<not> det") auto
  then show ?thesis
    using add_node_nodes(1,3) [OF new par] add_node_roots [OF new par] i by (auto simp: grows_def split: if_splits)
qed

lemma add_node_ok:
  assumes new: "add_node k name owner par det syn b = Inr (i, b')" and par: "par_ok par b" and ok: "builder_ok b"
  shows "builder_ok b'"
proof -
  from add_node_arena_ok [OF new par] ok have i: "i = length (arena b)" "length (arena b') = Suc (length (arena b))"
    and arena: "arena_ok (arena b')" by (simp_all add: builder_ok_def)
  have "links_agree b'" unfolding links_agree_def
  proof (intro allI impI ballI)
    fix j c assume j: "j < length (arena b')" and c: "c \<in> set (children (node_at b' j))"
    from j i have j': "j \<le> length (arena b)" by simp
    show "parent (node_at b' c) = Some j \<or>
        parent (node_at b' c) = None \<and> parent (node_at b' j) = None \<and> j \<notin> all_roots b'"
    proof (cases "j < length (arena b) \<and> c \<in> set (children (node_at b j))")
      case True
      then have "c < length (arena b)" using ok arena_ok_child by (auto simp: builder_ok_def)
      moreover have "parent (node_at b c) = Some j \<or>
          parent (node_at b c) = None \<and> parent (node_at b j) = None \<and> j \<notin> all_roots b"
        using ok True by (simp add: builder_ok_def links_agree_def)
      ultimately show ?thesis
        using True add_node_nodes(1) [OF new par, of c] add_node_nodes(1) [OF new par, of j] add_node_roots [OF new par] i
        by auto
    next
      case False
      with c add_node_nodes(2) [OF new par j'] have "c = i \<and> par = Some j"
        by (auto split: if_splits)
      then show ?thesis using add_node_nodes(1) [OF new par, of i] i by simp
    qed
  qed
  with arena show ?thesis
    using add_node_roots [OF new par] ok i by (auto simp: builder_ok_def less_Suc_eq split: if_splits)
qed

lemma add_node_steps: "add_node k name owner par det syn b = Inr (i, b') \<Longrightarrow> par_ok par b \<Longrightarrow> steps b b'"
  using add_node_grows add_node_ok
  by (auto simp: steps_def add_node_def intro!: ids_same split: option.splits)

section \<open>Types leave the tree alone\<close>

text \<open>
  The contract between the functions that read types and the one that they call for a type
  inside a type: it changes nothing but the typedefs and identities.
\<close>

lemma get_identity_keeps: "same_tree b (snd (get_identity m name b))"
proof -
  have "ids_grow b (snd (get_identity m name b))" by (rule ids_get) simp
  then show ?thesis by (auto simp: same_tree_def get_identity_def Let_def split: option.splits)
qed

lemma identity_keeps: "resolve_identity_ref m val b = Inr (i, b') \<Longrightarrow> same_tree b b'"
  using get_identity_keeps by (auto simp: resolve_identity_ref_def result_simps) (metis snd_conv)

lemma same_tree_typedefs [simp]: "same_tree b (c\<lparr>typedef_arena := tds\<rparr>) = same_tree b c"
proof -
  have "ids_grow b (c\<lparr>typedef_arena := tds\<rparr>) = ids_grow b c"
    by (rule iffI; erule ids_other) simp_all
  then show ?thesis by (simp add: same_tree_def)
qed

locale type_reading =
  fixes read_type :: type_reader
  assumes tree_kept: "read_type m sc t b = Inr (ty, b') \<Longrightarrow> same_tree b b'"
begin

lemma builtin_keeps: "interpret_builtin_type read_type m sc k t b = Inr (ty, b') \<Longrightarrow> same_tree b b'"
proof -
  have ident: "same_tree b b'" if "rfold (add_identity_base m) bases (ids, b) = Inr (ids', b')" for bases ids ids' b b'
  proof -
    have "same_tree b (snd (ids', b'))"
      by (rule rfold_invariant [OF that, of "\<lambda>s. same_tree b (snd s)"])
        (auto simp: add_identity_base_def result_simps, metis identity_keeps same_tree_trans)
    then show ?thesis by simp
  qed
  have member: "same_tree b b'" if "rfold (add_member read_type m sc) ts (tys, b) = Inr (tys', b')" for ts tys tys' b b'
  proof -
    have "same_tree b (snd (tys', b'))"
      by (rule rfold_invariant [OF that, of "\<lambda>s. same_tree b (snd s)"])
        (auto simp: add_member_def result_simps, metis tree_kept same_tree_trans)
    then show ?thesis by simp
  qed
  show "interpret_builtin_type read_type m sc k t b = Inr (ty, b') \<Longrightarrow> same_tree b b'"
    by (cases k) (auto simp: interpret_builtin_type_def Let_def result_simps dest: ident member)
qed

lemma ensure_keeps: "ensure_typedef_interpreted read_type key b = Inr b' \<Longrightarrow> same_tree b b'"
  by (auto simp: ensure_typedef_interpreted_def Let_def result_simps dest!: tree_kept split: option.splits if_splits)

lemma resolve_typedef_keeps: "resolve_typedef read_type m sc local b = Inr (i, b') \<Longrightarrow> same_tree b b'"
  by (auto simp: resolve_typedef_def Let_def result_simps dest: ensure_keeps)

lemma reference_keeps: "typedef_reference read_type m sc name b = Inr (ty, b') \<Longrightarrow> same_tree b b'"
  by (auto simp: typedef_reference_def result_simps dest: resolve_typedef_keeps)

lemma declare_keeps: "same_tree b (snd (fold (declare_typedef m label sc) tds (ks, b)))"
proof (induction tds arbitrary: ks b)
  case (Cons td tds)
  obtain ks' b' where d: "declare_typedef m label sc td (ks, b) = (ks', b')" by fastforce
  then have "same_tree b b'" by (auto simp: declare_typedef_def Let_def same_tree_def intro: ids_same split: if_splits)
  with Cons.IH [of b' ks'] d same_tree_trans show ?case by simp
qed simp

lemma scope_keeps: "interpret_scope_typedefs read_type m label sc stmts b = Inr b' \<Longrightarrow> same_tree b b'"
proof -
  obtain ks c where c: "fold (declare_typedef m label sc) (filter (\<lambda>s. keyword s = ''typedef'') stmts) ([], b) = (ks, c)"
    by fastforce
  have "same_tree b c" using declare_keeps [of b m label sc "filter (\<lambda>s. keyword s = ''typedef'') stmts" "[]"] c by simp
  moreover have "same_tree c b'" if "rfold (ensure_typedef_interpreted read_type) ks c = Inr b'"
    by (rule rfold_invariant [OF that, of "same_tree c"]) (auto dest: ensure_keeps intro: same_tree_trans)
  ultimately show "interpret_scope_typedefs read_type m label sc stmts b = Inr b' \<Longrightarrow> ?thesis"
    using same_tree_trans by (auto simp: interpret_scope_typedefs_def c)
qed

end

lemma interpret_type_keeps: "interpret_type d m sc t b = Inr (ty, b') \<Longrightarrow> same_tree b b'"
proof (induction d arbitrary: m sc t b ty b')
  case (Suc d)
  have rec: "type_reading (interpret_type d)" by unfold_locales (rule Suc.IH)
  from Suc.prems show ?case
    by (auto simp: result_simps split: option.splits
      dest: type_reading.builtin_keeps [OF rec] type_reading.reference_keeps [OF rec])
qed simp

interpretation typed: type_reading "interpret_type d" for d
  by unfold_locales (rule interpret_type_keeps)

section \<open>Statements\<close>

lemma stepsD: "steps b b' \<Longrightarrow> builder_ok b \<Longrightarrow> builder_ok b'" "steps b b' \<Longrightarrow> builder_ok b \<Longrightarrow> grows b b'"
  "steps b b' \<Longrightarrow> ids_grow b b'"
  by (auto simp: steps_def)

lemma steps_par: "steps b b' \<Longrightarrow> builder_ok b \<Longrightarrow> par_ok par b \<Longrightarrow> par_ok par b'"
  using par_ok_grows stepsD(2) by blast

lemma steps_length: "steps b b' \<Longrightarrow> builder_ok b \<Longrightarrow> i < length (arena b) \<Longrightarrow> i < length (arena b')"
  using growsD(1) stepsD(2) by fastforce

text \<open>A loop whose body is a step, from any state that the loop can reach.\<close>

lemma rfold_steps:
  assumes "rfold f xs b = Inr b'" "builder_ok b"
    and "\<And>x c c'. x \<in> set xs \<Longrightarrow> steps b c \<Longrightarrow> builder_ok c \<Longrightarrow> f x c = Inr c' \<Longrightarrow> steps c c'"
  shows "steps b b'"
proof (rule rfold_invariant [OF assms(1), of "steps b"])
  fix x c c' assume x: "x \<in> set xs" and c: "steps b c" and f: "f x c = Inr c'"
  from assms(3) [OF x c stepsD(1) [OF c assms(2)] f] c show "steps b c'" by (blast intro: steps_trans)
qed simp

lemma fold_steps:
  "(\<And>x c. x \<in> set xs \<Longrightarrow> steps c (f x c)) \<Longrightarrow> steps b (fold f xs b)"
proof (induction xs arbitrary: b)
  case (Cons x xs)
  then have "steps (f x b) (fold f xs (f x b))" "steps b (f x b)" by auto
  then show ?case using steps_trans by simp
qed simp

lemma add_reference_steps: "steps b (add_reference m i b)"
  unfolding add_reference_def by (rule set_node_steps_simple) simp

lemma note_reference_steps: "steps b (note_reference par ext b)"
  using add_reference_steps by (simp add: note_reference_def split: option.splits)

lemma defaults_steps: "steps b (resolve_effective_default_and_units i b)"
  unfolding resolve_effective_default_and_units_def by (rule set_node_steps_simple) simp

lemma same_tree_Inr_steps: "(r = Inr b' \<Longrightarrow> same_tree b b') \<Longrightarrow> r = Inr b' \<Longrightarrow> steps b b'"
  by (rule same_tree_steps)

lemma set_status_steps: "set_status i s b = Inr b' \<Longrightarrow> steps b b'"
  by (auto simp: set_status_def result_simps intro: set_node_steps_simple split: if_splits)

lemma choice_default_steps: "steps b (read_choice_default s i b)"
  by (auto simp: read_choice_default_def intro: set_node_steps_simple split: option.splits)

lemma find_by_local_range:
  "builder_ok b \<Longrightarrow> i < length (arena b) \<Longrightarrow> find_by_local b i local = Some c \<Longrightarrow> c < length (arena b)"
  by (auto simp: find_by_local_def builder_ok_def dest!: find_SomeD arena_ok_child)

lemma descend_named_range:
  "builder_ok b \<Longrightarrow> cur < length (arena b) \<Longrightarrow> descend_named b path segs cur = Inr i \<Longrightarrow> i < length (arena b)"
proof (induction segs arbitrary: cur)
  case (Cons seg segs)
  from Cons.prems(3) obtain c where c: "find_by_local b cur (local_part seg) = Some c"
    "descend_named b path segs c = Inr i" by (auto simp: result_simps)
  from Cons.IH [OF Cons.prems(1) find_by_local_range [OF Cons.prems(1,2) c(1)] c(2)] show ?case .
qed simp

lemma root_range: "builder_ok b \<Longrightarrow> map_of (modules_of b) m = Some md \<Longrightarrow> r \<in> set (root_nodes md) \<Longrightarrow> r < length (arena b)"
  by (fastforce simp: builder_ok_def all_roots_def dest: map_of_SomeD)

lemma absolute_range:
  "builder_ok b \<Longrightarrow> resolve_absolute_schema_node_id b m path = Inr i \<Longrightarrow> i < length (arena b)"
  by (auto simp: resolve_absolute_schema_node_id_def find_in_module_def result_simps split: list.splits
    dest!: find_SomeD dest: root_range descend_named_range)

lemma relative_range:
  "builder_ok b \<Longrightarrow> root < length (arena b) \<Longrightarrow> resolve_relative_path b root path = Inr i \<Longrightarrow> i < length (arena b)"
  unfolding resolve_relative_path_def by (rule descend_named_range)

lemma add_key_steps:
  assumes "add_key i local b = Inr b'" "builder_ok b" "i < length (arena b)"
  shows "steps b b'"
proof -
  from assms obtain k where k: "find_by_local b i local = Some k"
    and b': "b' = resolve_effective_default_and_units k (set_node k (\<lambda>n. n\<lparr>is_key := True\<rparr>)
         (set_node i (\<lambda>n. n\<lparr>node_keys := node_keys n @ [k]\<rparr>) b))"
    by (auto simp: add_key_def result_simps)
  have "steps b (set_node i (\<lambda>n. n\<lparr>node_keys := node_keys n @ [k]\<rparr>) b)"
    by (rule set_node_steps) (use find_by_local_range [OF assms(2,3) k] in auto)
  also have "steps \<dots> (set_node k (\<lambda>n. n\<lparr>is_key := True\<rparr>) \<dots>)" by (rule set_node_steps_simple) simp
  also have "steps \<dots> b'" unfolding b' by (rule defaults_steps)
  finally show ?thesis .
qed

lemma read_keys_steps:
  assumes "read_keys s i b = Inr b'" "builder_ok b" "i < length (arena b)"
  shows "steps b b'"
proof -
  have "steps b b'" if "rfold (add_key i) ks b = Inr b'" for ks
    by (rule rfold_steps [OF that assms(2)]) (use add_key_steps assms steps_length in blast)
  with assms show ?thesis by (auto simp: read_keys_def split: option.splits if_splits)
qed

lemma add_side_steps: "add_side side naming i s b = Inr b' \<Longrightarrow> i < length (arena b) \<Longrightarrow> steps b b'"
  by (auto simp: add_side_def result_simps intro: add_node_steps split: if_splits)

section \<open>New roots\<close>

lemma add_root_ok:
  assumes ok: "builder_ok b" and arena: "arena b' = arena b" and r: "r < length (arena b)"
    and roots: "all_roots b' \<subseteq> insert r (all_roots b)"
    and known: "\<forall>c \<in> set (children (node_at b r)). parent (node_at b c) = Some r"
  shows "builder_ok b'"
proof -
  have "links_agree b'" unfolding links_agree_def
  proof (intro allI impI ballI)
    fix i c assume i: "i < length (arena b')" "c \<in> set (children (node_at b' i))"
    with ok arena have "parent (node_at b c) = Some i \<or>
        parent (node_at b c) = None \<and> parent (node_at b i) = None \<and> i \<notin> all_roots b"
      by (simp add: builder_ok_def links_agree_def)
    with known i roots arena show "parent (node_at b' c) = Some i \<or>
        parent (node_at b' c) = None \<and> parent (node_at b' i) = None \<and> i \<notin> all_roots b'" by auto
  qed
  with ok arena r roots show ?thesis by (auto simp: builder_ok_def)
qed

text \<open>A child of the scratch node forgets its parent.\<close>

lemma forget_parent_ok:
  assumes ok: "builder_ok b" and s: "s < length (arena b)" "parent (node_at b s) = None" "s \<notin> all_roots b"
    and r: "r < length (arena b)" "parent (node_at b r) = Some s"
    and f: "\<And>n. children (f n) = children n \<and> node_keys (f n) = node_keys n \<and> parent (f n) = None"
  shows "builder_ok (set_node r f b)" "\<forall>c \<in> set (children (node_at (set_node r f b) r)).
    parent (node_at (set_node r f b) c) = Some r"
proof -
  have children: "children (node_at (set_node r f b) j) = children (node_at b j)" for j
    using f r(1) by (simp add: nth_list_update)
  have parent: "parent (node_at (set_node r f b) j) = (if j = r then None else parent (node_at b j))" for j
    using f r(1) by (simp add: nth_list_update)
  have old: "parent (node_at b c) = Some j \<or> parent (node_at b c) = None \<and> parent (node_at b j) = None \<and> j \<notin> all_roots b"
    if "j < length (arena b)" "c \<in> set (children (node_at b j))" for c j
    using ok that by (simp add: builder_ok_def links_agree_def)
  have above: "j < c" if "j < length (arena b)" "c \<in> set (children (node_at b j))" for c j
    using ok that arena_ok_child by (auto simp: builder_ok_def)
  show kids: "\<forall>c \<in> set (children (node_at (set_node r f b) r)). parent (node_at (set_node r f b) c) = Some r"
  proof
    fix c assume "c \<in> set (children (node_at (set_node r f b) r))"
    then have c: "c \<in> set (children (node_at b r))" by (simp only: children)
    from old [OF r(1) c] above [OF r(1) c] r(2) show "parent (node_at (set_node r f b) c) = Some r"
      by (simp only: parent) simp
  qed
  have "links_ok (length (arena b)) r (f (node_at b r))"
    using arena_okD [of "arena b" r] ok r(1) f by (auto simp: builder_ok_def links_ok_def)
  then have "arena_ok (arena (set_node r f b))" using ok by (simp add: arena_ok_update builder_ok_def)
  moreover have "links_agree (set_node r f b)" unfolding links_agree_def
  proof (intro allI impI ballI)
    fix i c assume i: "i < length (arena (set_node r f b))" "c \<in> set (children (node_at (set_node r f b) i))"
    from i(2) have "c \<in> set (children (node_at b i))" by (simp only: children)
    with i(1) have i': "i < length (arena b)" "c \<in> set (children (node_at b i))" by simp_all
    show "parent (node_at (set_node r f b) c) = Some i \<or> parent (node_at (set_node r f b) c) = None
        \<and> parent (node_at (set_node r f b) i) = None \<and> i \<notin> all_roots (set_node r f b)"
    proof (cases "c = r")
      case True
      with old [OF i'] r(2) have "i = s" by simp
      with s r(2) True show ?thesis by (simp only: parent set_node_other) simp
    next
      case False
      show ?thesis
      proof (cases "i = r")
        case True
        with kids i(2) show ?thesis by blast
      next
        case False
        with old [OF i'] \<open>c \<noteq> r\<close> show ?thesis by (simp only: parent set_node_other) simp
      qed
    qed
  qed
  ultimately show "builder_ok (set_node r f b)" using ok by (simp add: builder_ok_def)
qed

section \<open>The contract of a statement's interpreter\<close>

text \<open>
  Every handler is proved against the interpreter that it calls for a nested statement, and
  that interpreter keeps the same promise.
\<close>

locale interpreting =
  fixes one :: interpreter
  assumes one_steps: "one r n sc s par b = Inr b' \<Longrightarrow> builder_ok b \<Longrightarrow> par_ok par b \<Longrightarrow> steps b b'"
begin

lemma children_steps:
  assumes "interpret_children one r n sc stmts par b = Inr b'" "builder_ok b" "par_ok par b"
  shows "steps b b'"
  by (rule rfold_steps [OF assms(1) [unfolded interpret_children_def] assms(2)])
    (use one_steps steps_par [OF _ assms(2,3)] in blast)

lemma choice_member_steps:
  assumes one: "interpret_choice_member one r n sc i s b = Inr b'" and ok: "builder_ok b" and i: "i < length (arena b)"
  shows "steps b b'"
proof (cases "stmt_prefix s = None \<and> keyword s \<in> set implicit_case_keywords")
  case True
  with one obtain c b1 b2 where b1: "add_node ''case'' (arg_str s) n (Some i) False True b = Inr (c, b1)"
    and b2: "one r n sc s (Some c) b1 = Inr b2" and last: "(case children (node_at b2 c) of
         [] \<Rightarrow> Inl (Schema_panic ''implicit case must have a child'')
       | k # _ \<Rightarrow> Inr (set_node c (\<lambda>n. n\<lparr>node_status := node_status (node_at b2 k)\<rparr>) b2)) = Inr b'"
    unfolding interpret_choice_member_def if_P [OF True] by (auto simp: result_simps)
  then have b': "\<exists>f. b' = set_node c (\<lambda>n. n\<lparr>node_status := f\<rparr>) b2" by (auto split: list.splits)
  have s1: "steps b b1" using add_node_steps [OF b1] i by simp
  have "c < length (arena b1)" using add_node_arena_ok [OF b1] i ok by (simp add: builder_ok_def)
  then have "steps b1 b2" using one_steps [OF b2 stepsD(1) [OF s1 ok]] by simp
  also have "steps b2 b'" using b' by (auto intro: set_node_steps_simple)
  finally show ?thesis using s1 steps_trans by blast
next
  case False
  then have "interpret_choice_member one r n sc i s b = one r n sc s (Some i) b"
    by (auto simp: interpret_choice_member_def)
  with one ok i show ?thesis using one_steps [of r n sc s "Some i" b b'] by simp
qed

lemma choice_body_steps:
  assumes "interpret_choice_body one r n sc stmts i b = Inr b'" "builder_ok b" "i < length (arena b)"
  shows "steps b b'"
  by (rule rfold_steps [OF assms(1) [unfolded interpret_choice_body_def] assms(2)])
    (use choice_member_steps steps_length [OF _ assms(2,3)] in blast)

lemma augment_child_steps:
  assumes one: "augment_child one r n sc target owner s b = Inr b'" and ok: "builder_ok b"
    and target: "target < length (arena b)"
  shows "steps b b'"
proof (cases "stmt_prefix s = None \<and> keyword s \<notin> set schema_node_keywords \<and> keyword s \<noteq> ''uses''")
  case False
  then obtain c where c: "one r n sc s (Some target) b = Inr c" and b': "b' = (if n \<noteq> owner
      then fold (qualify_child n) (drop (length (children (node_at b target))) (children (node_at c target))) c else c)"
    using one unfolding augment_child_def Let_def by (auto simp: result_simps)
  have "steps b c" using one_steps [OF c ok] target by simp
  also have "steps c b'" unfolding b'
    by (auto intro!: fold_steps set_node_steps_simple simp: qualify_child_def)
  finally show ?thesis .
qed (use one in \<open>simp add: augment_child_def\<close>)

lemma augment_steps:
  assumes one: "interpret_augment one r n sc s par b = Inr b'" and ok: "builder_ok b" and par: "par_ok par b"
  shows "steps b b'"
proof -
  from one obtain target where t: "(case par of Some root \<Rightarrow> resolve_relative_path b root (arg_str s)
      | None \<Rightarrow> resolve_absolute_schema_node_id b r (arg_str s)) = Inr target"
    and body: "rfold (augment_child one r n sc target (owner_module (node_at b target))) (subs s) b = Inr b'"
    by (auto simp: interpret_augment_def result_simps)
  from t par have target: "target < length (arena b)"
    by (auto split: option.splits dest: absolute_range [OF ok] relative_range [OF ok])
  show ?thesis
    by (rule rfold_steps [OF body ok]) (use augment_child_steps steps_length [OF _ ok target] in blast)
qed

lemma splice_steps:
  assumes "splice_grouping one m n inner body par b = Inr b'" "builder_ok b" "par_ok par b"
  shows "steps b b'"
proof (cases par)
  case None
  with assms obtain md c new where c: "interpret_children one m n inner body par b = Inr c"
    and b': "b' = fold (add_reference m) new c"
    by (auto simp: splice_grouping_def result_simps)
  have "steps b c" by (rule children_steps [OF c assms(2,3)])
  also have "steps c b'" unfolding b' by (rule fold_steps) (rule add_reference_steps)
  finally show ?thesis .
next
  case (Some p)
  with assms obtain c where c: "interpret_children one m n inner body par b = Inr c" and b': "b' = add_reference m p c"
    by (auto simp: splice_grouping_def result_simps)
  have "steps b c" by (rule children_steps [OF c assms(2,3)])
  also have "steps c b'" unfolding b' by (rule add_reference_steps)
  finally show ?thesis .
qed

text \<open>A \<open>yang-data\<close>: the scratch node stays below nothing and above no root.\<close>

lemma yang_data_steps:
  assumes one: "interpret_yang_data one r n ext s b = Inr b'" and ok: "builder_ok b"
  shows "steps b b'"
proof -
  from one obtain i b1 b3 root name f where
    b1: "add_node ''container'' [] n None True True b = Inr (i, b1)"
    and b3: "interpret_children one r n [] (subs s) (Some i) (set_node i (\<lambda>n. n\<lparr>config := None\<rparr>) b1) = Inr b3"
    and root: "children (node_at b3 i) = [root]"
    and f: "\<And>n. children (f n) = children n \<and> node_keys (f n) = node_keys n \<and> parent (f n) = None"
    and sid: "\<And>n. node_sid (f n) = node_sid n"
    and b': "b' = (set_node root f b3)\<lparr>yang_data_of := yang_data_of b3 @
        [\<lparr>yang_data_module = n, yang_data_name = arg_str s, yang_data_root = root\<rparr>]\<rparr>"
  proof -
    from one obtain i b1 b3 where p: "add_node ''container'' [] n None True True b = Inr (i, b1)"
      "interpret_children one r n [] (subs s) (Some i) (set_node i (\<lambda>n. n\<lparr>config := None\<rparr>) b1) = Inr b3"
      and promote: "promote_container n ext s i b3 = Inr b'"
      by (auto simp: interpret_yang_data_def result_simps split: if_splits)
    from promote obtain root where root: "children (node_at b3 i) = [root]"
      by (auto simp: promote_container_def split: list.splits)
    from promote obtain name where b': "b' = (note_reference (Some root) ext
        (set_node root (\<lambda>n. n\<lparr>parent := None, node_name := name\<rparr>) b3))
        \<lparr>yang_data_of := yang_data_of b3 @
          [\<lparr>yang_data_module = n, yang_data_name = arg_str s, yang_data_root = root\<rparr>]\<rparr>"
      by (auto simp: promote_container_def root Let_def note_reference_def add_reference_def
        split: if_splits option.splits)
    define f :: "node \<Rightarrow> node" where "f = (case ext of None \<Rightarrow> (\<lambda>n. n\<lparr>parent := None, node_name := name\<rparr>)
      | Some m \<Rightarrow> (\<lambda>n. n\<lparr>parent := None, node_name := name, references_modules := references_modules n @ [m]\<rparr>))"
    have "note_reference (Some root) ext (set_node root (\<lambda>n. n\<lparr>parent := None, node_name := name\<rparr>) b3) = set_node root f b3"
      by (cases "root < length (arena b3)")
        (auto simp: note_reference_def add_reference_def f_def set_node_def list_update_beyond not_less split: option.splits)
    moreover have "children (f k) = children k \<and> node_keys (f k) = node_keys k \<and> parent (f k) = None" "node_sid (f k) = node_sid k" for k
      by (simp_all add: f_def split: option.splits)
    ultimately show thesis using that p root b' by metis
  qed
  let ?b2 = "set_node i (\<lambda>n. n\<lparr>config := None\<rparr>) b1"
  have par: "par_ok None b" by simp
  have i: "i = length (arena b)" "length (arena b1) = Suc i"
    using add_node_arena_ok [OF b1 par] ok by (simp_all add: builder_ok_def)
  have s1: "steps b b1" by (rule add_node_steps [OF b1 par])
  have "steps b1 ?b2" by (rule set_node_steps_simple) simp
  with s1 have s2: "steps b ?b2" by (rule steps_trans)
  have ok2: "builder_ok ?b2" by (rule stepsD(1) [OF s2 ok])
  have s3: "steps ?b2 b3" by (rule children_steps [OF b3 ok2]) (simp add: i)
  have ok3: "builder_ok b3" and g3: "grows ?b2 b3" by (rule stepsD(1,2) [OF s3 ok2])+
  have len: "i < length (arena ?b2)" by (simp add: i)
  have start: "children (node_at ?b2 i) = []" "parent (node_at ?b2 i) = None"
    using add_node_nodes [OF b1 par, of i] i by simp_all
  have scratch: "i < length (arena b3)" "parent (node_at b3 i) = None"
    using growsD(1) [OF g3] growsD(2) [OF g3 len] start len by simp_all
  have unrooted: "i \<notin> all_roots b3"
    using growsD(4) [OF g3] add_node_roots [OF b1 par] ok i by (auto simp: builder_ok_def)
  have r: "Suc i \<le> root" "root < length (arena b3)" "parent (node_at b3 root) = Some i"
    using growsD(3) [OF g3 len] start(1) root i by auto
  let ?b4 = "set_node root f b3"
  have ok4: "builder_ok ?b4" and kids: "\<forall>c \<in> set (children (node_at ?b4 root)). parent (node_at ?b4 c) = Some root"
    using forget_parent_ok [OF ok3 scratch unrooted r(2,3) f] by blast+
  have roots: "all_roots b' = insert root (all_roots b3)"
    unfolding b' by (auto simp: all_roots_def)
  have "builder_ok b'"
    by (rule add_root_ok [OF ok4 _ _ _ kids]) (use r(2) roots in \<open>simp_all add: b'\<close>)
  moreover have "grows b b'" unfolding grows_def
  proof (intro conjI allI impI)
    have g: "grows b b3" by (rule stepsD(2) [OF steps_trans [OF s2 s3] ok])
    have other: "node_at b' j = node_at b3 j" if "j \<noteq> root" for j using that by (simp add: b')
    show "length (arena b) \<le> length (arena b')" using growsD(1) [OF g] by (simp add: b')
    show "all_roots b' \<subseteq> all_roots b \<union> {j. length (arena b) \<le> j}"
      using growsD(4) [OF g] r(1) i roots by auto
    have "node_sid (node_at b' j) = node_sid (node_at b3 j)" for j
      using sid by (cases "root < length (arena b3)") (auto simp: b' nth_list_update list_update_beyond not_less)
    then show "node_sid (node_at b' j) = (if j < length (arena b) then node_sid (node_at b j) else None)"
      if "j < length (arena b')" for j
      using growsD(5) [OF g, of j] that by (simp add: b')
    fix j assume j: "j < length (arena b)"
    then have "j \<noteq> root" using r(1) i by simp
    then show "parent (node_at b' j) = parent (node_at b j)" using other growsD(2) [OF g j] by simp
    obtain new where new: "children (node_at b3 j) = children (node_at b j) @ new"
      "\<forall>c \<in> set new. length (arena b) \<le> c \<and> c < length (arena b3) \<and> parent (node_at b3 c) = Some j"
      using growsD(3) [OF g j] by blast
    have "root \<notin> set new" using new(2) r(3) j i by auto
    with new(2) have "\<forall>c \<in> set new. parent (node_at b' c) = Some j" using other by metis
    with new other [OF \<open>j \<noteq> root\<close>] show "\<exists>new. children (node_at b' j) = children (node_at b j) @ new
        \<and> (\<forall>c \<in> set new. length (arena b) \<le> c \<and> c < length (arena b') \<and> parent (node_at b' c) = Some j)"
      by (intro exI [of _ new]) (simp add: b')
  qed
  moreover have "ids_grow b b'"
    by (rule ids_other [OF stepsD(3) [OF steps_trans [OF s2 s3]]]) (simp_all add: b')
  ultimately show ?thesis by (simp add: steps_def)
qed

lemma structure_steps:
  assumes one: "interpret_structure one (interpret_type d) r n s par b = Inr b'" and ok: "builder_ok b"
  shows "steps b b'"
proof -
  define f :: "yang_status \<Rightarrow> node \<Rightarrow> node" where
    "f st = (\<lambda>n. n\<lparr>config := None, node_status := Some st, node_description := (case stmt_sub ''description'' s of
       Some d \<Rightarrow> Some (arg_str d) | None \<Rightarrow> node_description n)\<rparr>)" for st
  define name where "name = n @ '':'' @ arg_str s"
  from one obtain i b1 st b4 b5 where
    b1: "add_node ''container'' name n None True True b = Inr (i, b1)"
    and b4: "interpret_scope_typedefs (interpret_type d) r (schema_node_path_of (set_node i (f st) b1) i)
      [(s, schema_node_path_of (set_node i (f st) b1) i)] (subs s) (set_node i (f st) b1) = Inr b4"
    and b5: "interpret_children one r n [(s, schema_node_path_of (set_node i (f st) b1) i)] (subs s) (Some i) b4 = Inr b5"
    and b': "b' = b5\<lparr>structures_of := assoc_put name i (structures_of b5)\<rparr>"
    unfolding interpret_structure_def Let_def f_def [symmetric] name_def [symmetric]
    by (auto simp: result_simps split: if_splits)
  have f: "children (f st k) = children k \<and> parent (f st k) = parent k \<and> node_keys (f st k) = node_keys k
      \<and> node_sid (f st k) = node_sid k" for k
    by (simp add: f_def)
  have par: "par_ok None b" by simp
  have i: "i = length (arena b)" "length (arena b1) = Suc i"
    using add_node_arena_ok [OF b1 par] ok by (simp_all add: builder_ok_def)
  have s1: "steps b b1" by (rule add_node_steps [OF b1 par])
  have "steps b1 (set_node i (f st) b1)" by (rule set_node_steps_simple) (rule f)
  with s1 have s2: "steps b (set_node i (f st) b1)" by (rule steps_trans)
  have same: "same_tree (set_node i (f st) b1) b4" by (rule typed.scope_keeps [OF b4])
  have s4: "steps b b4" by (rule steps_trans [OF s2 same_tree_steps [OF same]])
  have ok4: "builder_ok b4" by (rule stepsD(1) [OF s4 ok])
  have arena4: "arena b4 = arena (set_node i (f st) b1)" using same by (simp add: same_tree_def)
  have len: "i < length (arena b4)" by (simp add: arena4 i)
  have s5: "steps b4 b5" by (rule children_steps [OF b5 ok4]) (simp add: len)
  have ok5: "builder_ok b5" and g5: "grows b4 b5" by (rule stepsD(1,2) [OF s5 ok4])+
  have "children (node_at b4 i) = []" using add_node_nodes [OF b1 par, of i] i f by (simp add: arena4)
  with growsD(3) [OF g5 len] have kids: "\<forall>c \<in> set (children (node_at b5 i)). parent (node_at b5 c) = Some i" by auto
  have roots: "all_roots b' \<subseteq> insert i (all_roots b5)"
    unfolding b' all_roots_def by (auto dest: assoc_put_set)
  have "builder_ok b'"
    by (rule add_root_ok [OF ok5 _ _ roots kids]) (use growsD(1) [OF g5] len in \<open>simp_all add: b'\<close>)
  moreover have "grows b b'"
  proof -
    have "grows b b5" by (rule stepsD(2) [OF steps_trans [OF s4 s5] ok])
    with roots i show ?thesis unfolding grows_def by (auto simp: b')
  qed
  moreover have "ids_grow b b'"
    by (rule ids_other [OF stepsD(3) [OF steps_trans [OF s4 s5]]]) (simp_all add: b')
  ultimately show ?thesis by (simp add: steps_def)
qed

lemma extension_steps:
  assumes one: "interpret_extension one (interpret_type d) r n s par b = Inr b'" and ok: "builder_ok b"
  shows "steps b b'"
proof -
  let ?b = "note_reference par (extension_module b r s) b"
  have s1: "steps b ?b" by (rule note_reference_steps)
  have ok1: "builder_ok ?b" by (rule stepsD(1) [OF s1 ok])
  have "steps ?b b'" using one yang_data_steps [OF _ ok1] structure_steps [OF _ ok1]
    unfolding interpret_extension_def Let_def by (metis steps_refl sum.inject(2))
  with s1 show ?thesis by (rule steps_trans)
qed

lemma read_leaf_steps:
  assumes "read_leaf (interpret_type d) r sc s i b = Inr b'"
  shows "steps b b'"
proof -
  define f :: "node \<Rightarrow> node" where
    "f = (\<lambda>n. n\<lparr>own_defaults := map arg_str (subs_of ''default'' s),
       own_units := map_option arg_str (stmt_sub ''units'' s),
       min_elements := (case Option.bind (stmt_sub ''min-elements'' s) (\<lambda>m. parse_u64 (arg_str m)) of
          Some v \<Rightarrow> word_of_int v | None \<Rightarrow> 0)\<rparr>)"
  from assms obtain b2 where b2: "(case stmt_sub ''type'' s of
      Some t \<Rightarrow> rbind (interpret_type d r sc t (set_node i f b)) (\<lambda>(ty, b).
        Inr (set_node i (\<lambda>n. n\<lparr>node_ty := Some ty\<rparr>) b))
    | None \<Rightarrow> Inr (set_node i f b)) = Inr b2" and b': "b' = resolve_effective_default_and_units i b2"
    unfolding read_leaf_def Let_def f_def [symmetric] by (auto simp: result_simps)
  have s1: "steps b (set_node i f b)" by (rule set_node_steps_simple) (simp add: f_def)
  have "steps (set_node i f b) b2"
  proof (cases "stmt_sub ''type'' s")
    case (Some t)
    with b2 obtain ty c where c: "interpret_type d r sc t (set_node i f b) = Inr (ty, c)"
      and b2: "b2 = set_node i (\<lambda>n. n\<lparr>node_ty := Some ty\<rparr>) c" by (auto simp: result_simps)
    have "steps (set_node i f b) c" by (rule same_tree_steps [OF typed.tree_kept [OF c]])
    also have "steps c b2" unfolding b2 by (rule set_node_steps_simple) simp
    finally show ?thesis .
  qed (use b2 in simp)
  with s1 have "steps b b2" by (rule steps_trans)
  also have "steps b2 b'" unfolding b' by (rule defaults_steps)
  finally show ?thesis .
qed

lemma read_kind_steps:
  assumes kind: "read_kind (interpret_type d) r n sc s i b = Inr b'" and ok: "builder_ok b" and i: "i < length (arena b)"
  shows "steps b b'"
proof -
  have "steps b b'" if "rbind (add_side ''input'' n i s b) (add_side ''output'' n i s) = Inr b'"
  proof -
    from that obtain c where c: "add_side ''input'' n i s b = Inr c" "add_side ''output'' n i s c = Inr b'"
      by (auto simp: result_simps)
    have s1: "steps b c" by (rule add_side_steps [OF c(1) i])
    have "steps c b'" by (rule add_side_steps [OF c(2) steps_length [OF s1 ok i]])
    with s1 show ?thesis by (rule steps_trans)
  qed
  with kind read_leaf_steps show ?thesis unfolding read_kind_def by (metis steps_refl sum.inject(2))
qed

lemma open_scope_steps: "open_scope (interpret_type d) r sc s i b = Inr (inner, b') \<Longrightarrow> steps b b'"
  by (auto simp: open_scope_def Let_def result_simps split: if_splits dest!: typed.scope_keeps intro: same_tree_steps)

lemma schema_node_steps:
  assumes one: "interpret_schema_node one (interpret_type d) r n sc s par b = Inr b'"
    and ok: "builder_ok b" and par: "par_ok par b"
  shows "steps b b'"
proof -
  from one obtain name i b1 b2 b3 inner b4 b5 where
    b1: "add_node (keyword s) name n par False False b = Inr (i, b1)"
    and b2: "set_status i s (set_node i (read_common s) b1) = Inr b2"
    and b3: "read_kind (interpret_type d) r n sc s i (read_choice_default s i b2) = Inr b3"
    and b4: "open_scope (interpret_type d) r sc s i b3 = Inr (inner, b4)"
    and b5: "(if keyword s = ''choice'' then interpret_choice_body one r n inner (subs s) i b4
       else interpret_children one r n inner (subs s) (Some i) b4) = Inr b5"
    and b': "read_keys s i b5 = Inr b'"
    unfolding interpret_schema_node_def Let_def by (auto simp: result_simps)
  have s1: "steps b b1" by (rule add_node_steps [OF b1 par])
  have ok1: "builder_ok b1" by (rule stepsD(1) [OF s1 ok])
  have i: "i < length (arena b1)" using add_node_arena_ok [OF b1 par] ok by (simp add: builder_ok_def)
  have "steps b1 (set_node i (read_common s) b1)" by (rule set_node_steps_simple) (simp add: read_common_def)
  also have "steps \<dots> b2" by (rule set_status_steps [OF b2])
  also have "steps b2 (read_choice_default s i b2)" by (rule choice_default_steps)
  finally have s2: "steps b1 (read_choice_default s i b2)" .
  have s3: "steps (read_choice_default s i b2) b3"
    by (rule read_kind_steps [OF b3 stepsD(1) [OF s2 ok1] steps_length [OF s2 ok1 i]])
  have s4: "steps b1 b4" using steps_trans [OF s2 steps_trans [OF s3 open_scope_steps [OF b4]]] .
  have ok4: "builder_ok b4" and i4: "i < length (arena b4)"
    using stepsD(1) [OF s4 ok1] steps_length [OF s4 ok1 i] by simp_all
  have s5: "steps b4 b5"
    using b5 choice_body_steps [OF _ ok4 i4] children_steps [OF _ ok4, of r n inner "subs s" "Some i"] i4
    by (simp split: if_splits)
  have "steps b5 b'" by (rule read_keys_steps [OF b' stepsD(1) [OF s5 ok4] steps_length [OF s5 ok4 i4]])
  with s1 s4 s5 show ?thesis by (blast intro: steps_trans)
qed

lemma uses_steps:
  assumes one: "interpret_uses one (interpret_type d) r n sc s par b = Inr b'"
    and ok: "builder_ok b" and par: "par_ok par b"
  shows "steps b b'"
proof -
  from one obtain m raw inner label b1 b2 where
    b1: "interpret_scope_typedefs (interpret_type d) m label inner (subs raw) b = Inr b1"
    and b2: "splice_grouping one m n inner (subs raw) par b1 = Inr b2"
    and b': "rfold (\<lambda>aug b. interpret_augment one r n sc aug par b) (subs_of ''augment'' s) b2 = Inr b'"
    by (auto simp: interpret_uses_def Let_def result_simps)
  have s1: "steps b b1" by (rule same_tree_steps [OF typed.scope_keeps [OF b1]])
  have ok1: "builder_ok b1" by (rule stepsD(1) [OF s1 ok])
  have s2: "steps b1 b2" by (rule splice_steps [OF b2 ok1 steps_par [OF s1 ok par]])
  have s12: "steps b b2" by (rule steps_trans [OF s1 s2])
  have "steps b2 b'"
    by (rule rfold_steps [OF b' stepsD(1) [OF s12 ok]])
      (use augment_steps steps_par stepsD(1) [OF s12 ok] steps_par [OF s12 ok par] in blast)
  with s12 show ?thesis by (rule steps_trans)
qed

end

lemma interpret_one_steps:
  "interpret_one d r n sc s par b = Inr b' \<Longrightarrow> builder_ok b \<Longrightarrow> par_ok par b \<Longrightarrow> steps b b'"
proof (induction d arbitrary: r n sc s par b b')
  case (Suc d)
  have rec: "interpreting (interpret_one d)" by unfold_locales (rule Suc.IH)
  note handlers = interpreting.extension_steps [OF rec _ Suc.prems(2)] interpreting.schema_node_steps [OF rec _ Suc.prems(2,3)]
    interpreting.uses_steps [OF rec _ Suc.prems(2,3)] interpreting.augment_steps [OF rec _ Suc.prems(2), of _ _ _ _ None]
  from Suc.prems(1) show ?case by (auto split: if_splits dest: handlers)
qed simp

interpretation statements: interpreting "interpret_one d" for d
  by unfold_locales (rule interpret_one_steps)

end
