(* ===== verification/Yang_Build_Passes.thy ===== *)
theory Yang_Build_Passes
  imports Yang_Build_Invariant
begin

text \<open>
  What holds after each pass of the builder: the modules leave a fresh tree, the SID files give
  every SID to one node, and the passes after them only change fields and drop nodes. So a
  built schema is a good one, as the codec needs it.
\<close>

section \<open>Modules\<close>

lemma ids_ok_same: "identity_arena b' = identity_arena b \<Longrightarrow> identity_by_module_name b' = identity_by_module_name b \<Longrightarrow>
    ids_ok b' = ids_ok b"
  unfolding ids_ok_def by (simp only:)

lemma ids_ok_fields [simp]: "ids_ok (b\<lparr>modules_of := ms\<rparr>) = ids_ok b" "ids_ok (b\<lparr>arena := ns\<rparr>) = ids_ok b"
  "ids_ok (b\<lparr>built := x\<rparr>) = ids_ok b" "ids_ok (b\<lparr>building := x\<rparr>) = ids_ok b"
  "ids_ok (set_node i f b) = ids_ok b"
  by (rule ids_ok_same; simp)+

definition fine :: "builder \<Rightarrow> bool" where
  "fine b \<longleftrightarrow> builder_ok b \<and> ids_ok b"

lemma steps_fine: "steps b b' \<Longrightarrow> fine b \<Longrightarrow> fine b'"
  using ids_grow_ok by (auto simp: steps_def fine_def)

lemma roots_subset_ok:
  "builder_ok b \<Longrightarrow> arena b' = arena b \<Longrightarrow> all_roots b' \<subseteq> all_roots b \<Longrightarrow> builder_ok b'"
  by (fastforce simp: builder_ok_def links_agree_def)

lemma put_module_roots:
  assumes "set (root_nodes m) \<subseteq> all_roots b"
  shows "all_roots (b\<lparr>modules_of := assoc_put k m (modules_of b)\<rparr>) \<subseteq> all_roots b"
proof -
  have "(\<Union>e \<in> set (assoc_put k m (modules_of b)). set (root_nodes (snd e))) \<subseteq> all_roots b"
    using assms by (auto simp: all_roots_def dest!: assoc_put_set)
  then show ?thesis by (auto simp: all_roots_def)
qed

lemma module_roots: "map_of (modules_of b) k = Some m \<Longrightarrow> set (root_nodes m) \<subseteq> all_roots b"
  by (fastforce simp: all_roots_def dest: map_of_SomeD)

text \<open>No node has a SID before the SID files are read.\<close>

definition no_sids :: "builder \<Rightarrow> bool" where
  "no_sids b \<longleftrightarrow> (\<forall>i < length (arena b). node_sid (node_at b i) = None)"

lemma steps_no_sids: "steps b b' \<Longrightarrow> builder_ok b \<Longrightarrow> no_sids b \<Longrightarrow> no_sids b'"
proof -
  assume s: "steps b b'" "builder_ok b" and none: "no_sids b"
  have "node_sid (node_at b' i) = None" if "i < length (arena b')" for i
    using growsD(5) [OF stepsD(2) [OF s] that] none by (simp add: no_sids_def)
  then show ?thesis by (simp add: no_sids_def)
qed

definition fresh_tree :: "builder \<Rightarrow> bool" where
  "fresh_tree b \<longleftrightarrow> fine b \<and> no_sids b"

lemma steps_fresh: "steps b b' \<Longrightarrow> fresh_tree b \<Longrightarrow> fresh_tree b'"
  using steps_fine steps_no_sids by (auto simp: fresh_tree_def fine_def)

lemma put_module_fresh:
  assumes "fresh_tree b" "set (root_nodes m) \<subseteq> all_roots b"
  shows "fresh_tree (b\<lparr>modules_of := assoc_put k m (modules_of b)\<rparr>)"
  using assms roots_subset_ok [OF _ _ put_module_roots]
  by (simp add: fresh_tree_def fine_def no_sids_def)

subsection \<open>Identities of a module\<close>

lemma set_identity_simps [simp]:
  "arena (set_identity i f b) = arena b" "all_roots (set_identity i f b) = all_roots b"
  "identity_by_module_name (set_identity i f b) = identity_by_module_name b"
  "identity_arena (set_identity i f b) = (identity_arena b)[i := f (identity_arena b ! i)]"
  by (simp_all add: set_identity_def all_roots_def)

lemma set_identity_ids:
  assumes "\<And>d. identity_name (f d) = identity_name d \<and> identity_module (f d) = identity_module d
      \<and> derived (f d) = derived d \<and> identity_base (f d) = identity_base d"
  shows "ids_ok (set_identity i f b) = ids_ok b"
proof (cases "i < length (identity_arena b)")
  case True
  have same: "identity_name ((identity_arena b)[i := f (identity_arena b ! i)] ! j) = identity_name (identity_arena b ! j)"
    "identity_module ((identity_arena b)[i := f (identity_arena b ! i)] ! j) = identity_module (identity_arena b ! j)"
    "derived ((identity_arena b)[i := f (identity_arena b ! i)] ! j) = derived (identity_arena b ! j)"
    "identity_base ((identity_arena b)[i := f (identity_arena b ! i)] ! j) = identity_base (identity_arena b ! j)" for j
    using assms True by (auto simp: nth_list_update)
  show ?thesis unfolding ids_ok_def derivation_ok_def set_identity_simps same length_list_update ..
next
  case False
  then have "set_identity i f b = b" by (simp add: set_identity_def list_update_beyond not_less)
  then show ?thesis by simp
qed

lemma set_identity_fresh:
  assumes "fresh_tree b" and "\<And>d. identity_name (f d) = identity_name d \<and> identity_module (f d) = identity_module d
      \<and> derived (f d) = derived d \<and> identity_base (f d) = identity_base d"
  shows "fresh_tree (set_identity i f b)"
  using assms(1) set_identity_ids [OF assms(2)]
  by (auto simp: fresh_tree_def fine_def no_sids_def intro: roots_subset_ok)

text \<open>A base and its derived identity learn of each other.\<close>

definition link_identities :: "nat \<Rightarrow> nat \<Rightarrow> identity list \<Rightarrow> identity list" where
  "link_identities i j ids =
    (let ids = ids[i := (ids ! i)\<lparr>identity_base := identity_base (ids ! i) @ [j]\<rparr>]
     in ids[j := (ids ! j)\<lparr>derived := derived (ids ! j) @ [i]\<rparr>])"

lemma link_identities_nth:
  assumes "i < length ids" "j < length ids" "k < length ids"
  shows "identity_base (link_identities i j ids ! k) = identity_base (ids ! k) @ (if k = i then [j] else [])"
    "derived (link_identities i j ids ! k) = derived (ids ! k) @ (if k = j then [i] else [])"
    "identity_name (link_identities i j ids ! k) = identity_name (ids ! k)"
    "identity_module (link_identities i j ids ! k) = identity_module (ids ! k)"
  using assms by (auto simp: link_identities_def Let_def nth_list_update)

lemma link_identities_ok:
  assumes ok: "derivation_ok ids" and i: "i < length ids" and j: "j < length ids"
  shows "derivation_ok (link_identities i j ids)"
  unfolding derivation_ok_def
proof (intro allI impI)
  have len: "length (link_identities i j ids) = length ids" by (simp add: link_identities_def Let_def)
  fix k assume "k < length (link_identities i j ids)"
  then have k: "k < length ids" by (simp add: len)
  have old: "(\<forall>l \<in> set (derived (ids ! k)). l < length ids \<and> k \<in> set (identity_base (ids ! l)))
      \<and> (\<forall>l \<in> set (identity_base (ids ! k)). l < length ids \<and> k \<in> set (derived (ids ! l)))"
    using ok k unfolding derivation_ok_def by blast
  show "(\<forall>l \<in> set (derived (link_identities i j ids ! k)). l < length (link_identities i j ids)
        \<and> k \<in> set (identity_base (link_identities i j ids ! l)))
      \<and> (\<forall>l \<in> set (identity_base (link_identities i j ids ! k)). l < length (link_identities i j ids)
        \<and> k \<in> set (derived (link_identities i j ids ! l)))"
  proof (rule conjI; rule ballI)
    fix l assume "l \<in> set (derived (link_identities i j ids ! k))"
    then have "l \<in> set (derived (ids ! k)) \<or> k = j \<and> l = i"
      by (auto simp: link_identities_nth(2) [OF i j k] split: if_splits)
    then have "l < length ids \<and> (k \<in> set (identity_base (ids ! l)) \<or> l = i \<and> k = j)" using old i by blast
    moreover from this have "identity_base (link_identities i j ids ! l) = identity_base (ids ! l) @ (if l = i then [j] else [])"
      by (intro link_identities_nth(1) i j) simp
    ultimately show "l < length (link_identities i j ids) \<and> k \<in> set (identity_base (link_identities i j ids ! l))"
      by (auto simp: len)
  next
    fix l assume "l \<in> set (identity_base (link_identities i j ids ! k))"
    then have "l \<in> set (identity_base (ids ! k)) \<or> k = i \<and> l = j"
      by (auto simp: link_identities_nth(1) [OF i j k] split: if_splits)
    then have "l < length ids \<and> (k \<in> set (derived (ids ! l)) \<or> l = j \<and> k = i)" using old j by blast
    moreover from this have "derived (link_identities i j ids ! l) = derived (ids ! l) @ (if l = j then [i] else [])"
      by (intro link_identities_nth(2) i j) simp
    ultimately show "l < length (link_identities i j ids) \<and> k \<in> set (derived (link_identities i j ids ! l))"
      by (auto simp: len)
  qed
qed

lemma identity_ref_fresh:
  assumes "resolve_identity_ref m val b = Inr (j, c)" "fresh_tree b"
  shows "fresh_tree c \<and> j < length (identity_arena c) \<and> length (identity_arena b) \<le> length (identity_arena c)"
proof -
  from assms(1) obtain m' local where g: "get_identity m' local b = (j, c)"
    by (auto simp: resolve_identity_ref_def result_simps)
  have "steps b c" using get_identity_keeps [of b m' local] g by (simp add: same_tree_steps)
  moreover have "j < length (identity_arena c)"
    using get_identity_ok [of b m' local] g assms(2) by (simp add: fresh_tree_def fine_def)
  moreover have "length (identity_arena b) \<le> length (identity_arena c)"
    using g by (auto simp: get_identity_def Let_def split: option.splits)
  ultimately show ?thesis using assms(2) steps_fresh by blast
qed

lemma add_base_fresh:
  assumes base: "add_base name i base b = Inr b'" and fresh: "fresh_tree b" and i: "i < length (identity_arena b)"
  shows "fresh_tree b' \<and> i < length (identity_arena b')"
proof -
  from base obtain j c where c: "resolve_identity_ref name (arg_str base) b = Inr (j, c)"
    and b': "b' = set_identity j (\<lambda>d. d\<lparr>derived := derived d @ [i]\<rparr>)
         (set_identity i (\<lambda>d. d\<lparr>identity_base := identity_base d @ [j]\<rparr>) c)"
    by (auto simp: add_base_def result_simps)
  from identity_ref_fresh [OF c fresh] i have j: "fresh_tree c" "j < length (identity_arena c)" "i < length (identity_arena c)"
    by auto
  have arena: "identity_arena b' = link_identities i j (identity_arena c)"
    by (simp add: b' link_identities_def Let_def)
  have ids: "ids_ok c" using j(1) by (simp add: fresh_tree_def fine_def)
  have len: "length (identity_arena b') = length (identity_arena c)" by (simp add: b')
  have "ids_ok b'" unfolding ids_ok_def
  proof (intro conjI allI)
    show "derivation_ok (identity_arena b')"
      using link_identities_ok [of "identity_arena c" i j] ids j by (simp add: arena ids_ok_def)
    fix m' name' k
    show "map_of (identity_by_module_name b') (m', name') = Some k \<longleftrightarrow> k < length (identity_arena b')
      \<and> identity_module (identity_arena b' ! k) = m' \<and> identity_name (identity_arena b' ! k) = name'"
      using ids_ok_index [OF ids, of m' name' k] link_identities_nth(3,4) [OF j(3,2), of k]
      unfolding len unfolding arena by (auto simp: b')
  qed
  with j show ?thesis by (auto simp: fresh_tree_def fine_def no_sids_def b' intro: roots_subset_ok)
qed

lemma register_identity_fresh:
  assumes reg: "register_identity name ident b = Inr b'" and fresh: "fresh_tree b"
  shows "fresh_tree b'"
proof -
  obtain i c where c: "get_identity name (arg_str ident) b = (i, c)" by fastforce
  let ?c = "set_identity i (\<lambda>d. d\<lparr>identity_description := map_option arg_str (stmt_sub ''description'' ident)\<rparr>) c"
  from reg c have loop: "rfold (add_base name i) (subs_of ''base'' ident) ?c = Inr b'"
    by (simp add: register_identity_def)
  have "steps b c" using get_identity_keeps [of b name "arg_str ident"] c by (simp add: same_tree_steps)
  then have "fresh_tree ?c" using fresh by (intro set_identity_fresh) (auto intro: steps_fresh)
  moreover have "i < length (identity_arena ?c)"
    using get_identity_ok [of b name "arg_str ident"] c fresh by (simp add: fresh_tree_def fine_def)
  ultimately have "fresh_tree b' \<and> i < length (identity_arena b')"
    by (intro rfold_invariant [OF loop, of "\<lambda>b. fresh_tree b \<and> i < length (identity_arena b)"]) (use add_base_fresh in auto)
  then show ?thesis by simp
qed

lemma check_documents_same: "check_documents name b = Inr b' \<Longrightarrow> b' = b"
  by (auto simp: check_documents_def split: option.splits prod.splits)

lemma fresh_tree_flags [simp]: "fresh_tree (b\<lparr>built := x\<rparr>) = fresh_tree b"
  "fresh_tree (b\<lparr>building := y\<rparr>) = fresh_tree b"
  by (simp_all add: fresh_tree_def fine_def builder_ok_def links_agree_def all_roots_def no_sids_def)

lemma interpret_module_fresh:
  assumes "interpret_module d name raw b = Inr b'" "fresh_tree b"
  shows "fresh_tree b'"
proof -
  from assms(1) obtain b1 ns b2 b3 where
    b1: "rfold (register_identity name) (subs_of ''identity'' raw) b = Inr b1"
    and b2: "interpret_scope_typedefs (interpret_type d) name name [] (subs raw)
              (b1\<lparr>modules_of := assoc_put name (fresh_module name raw ns) (modules_of b1)\<rparr>) = Inr b2"
    and b3: "interpret_children (interpret_one d) name name [] (subs raw) None b2 = Inr b3"
    and b': "b' = b3\<lparr>built := List.insert name (built b3), building := removeAll name (building b3)\<rparr>"
    by (auto simp: interpret_module_def result_simps dest!: check_documents_same)
  have "fresh_tree b1" 
    by (rule rfold_invariant [OF b1, of fresh_tree]) (use assms(2) register_identity_fresh in auto)
  then have "fresh_tree (b1\<lparr>modules_of := assoc_put name (fresh_module name raw ns) (modules_of b1)\<rparr>)"
    by (rule put_module_fresh) (simp add: fresh_module_def)
  then have f2: "fresh_tree b2" by (rule steps_fresh [OF same_tree_steps [OF typed.scope_keeps [OF b2]]])
  then have "fresh_tree b3" using statements.children_steps [OF b3] steps_fresh by (simp add: fresh_tree_def fine_def)
  then show ?thesis by (simp add: b')
qed

lemma ensure_module_fresh: "ensure_module k d name b = Inr b' \<Longrightarrow> fresh_tree b \<Longrightarrow> fresh_tree b'"
proof (induction k arbitrary: name b b')
  case (Suc k)
  show ?case
  proof (cases "name \<in> set (built b) \<or> name \<in> set (building b)")
    case False
    with Suc.prems(1) obtain raw c where
      c: "rfold (ensure_module k d) (map arg_str (subs_of ''import'' raw)) (b\<lparr>building := List.insert name (building b)\<rparr>) = Inr c"
      and b': "interpret_module d name raw c = Inr b'"
      by (auto simp: result_simps)
    have "fresh_tree c" by (rule rfold_invariant [OF c, of fresh_tree]) (use Suc in auto)
    with b' show ?thesis by (rule interpret_module_fresh)
  qed (use Suc.prems in auto)
qed (auto split: if_splits)

section \<open>SIDs\<close>

text \<open>
  Every SID in the arena comes from a data item read so far, and no two nodes have the same.
\<close>

definition sids_from :: "i64 set \<Rightarrow> builder \<Rightarrow> bool" where
  "sids_from used b \<longleftrightarrow>
     (\<forall>i < length (arena b). \<forall>s. node_sid (node_at b i) = Some s \<longrightarrow> s \<in> used
        \<and> (\<forall>j < length (arena b). node_sid (node_at b j) = Some s \<longrightarrow> j = i))"

definition data_sids :: "sid_item list \<Rightarrow> i64 list" where
  "data_sids items = map item_sid (filter (\<lambda>it. item_namespace it = NData) items)"

text \<open>The SIDs that the sources give to data nodes.\<close>

definition sources_sids :: "(string \<Rightarrow> string + raw_sid_file) \<Rightarrow> string list \<Rightarrow> i64 list" where
  "sources_sids from_str srcs =
     concat (map (\<lambda>src. case sid_parse from_str src of Inr f \<Rightarrow> data_sids (sid_file_items f) | Inl _ \<Rightarrow> []) srcs)"

lemma sids_from_mono: "sids_from used b \<Longrightarrow> used \<subseteq> used' \<Longrightarrow> sids_from used' b"
  unfolding sids_from_def by blast

lemma sids_from_set:
  assumes "sids_from used b" "s \<notin> used"
  shows "sids_from (insert s used) (set_node i (\<lambda>n. n\<lparr>node_sid := Some s\<rparr>) b)"
proof (cases "i < length (arena b)")
  case True
  have sid: "node_sid (node_at (set_node i (\<lambda>n. n\<lparr>node_sid := Some s\<rparr>) b) j) =
      (if j = i then Some s else node_sid (node_at b j))" for j
    using True by (simp add: nth_list_update)
  show ?thesis unfolding sids_from_def sid using assms
    by (auto simp: sids_from_def split: if_splits)
next
  case False
  then have "set_node i (\<lambda>n. n\<lparr>node_sid := Some s\<rparr>) b = b" by (simp add: set_node_def list_update_beyond not_less)
  with sids_from_mono [OF assms(1), of "insert s used"] show ?thesis by auto
qed

text \<open>A change of one node's fields that keeps the links.\<close>

lemma set_node_ok:
  assumes ok: "builder_ok b" and f: "\<And>n. children (f n) = children n \<and> parent (f n) = parent n \<and> node_keys (f n) = node_keys n"
  shows "builder_ok (set_node i f b)"
proof (cases "i < length (arena b)")
  case True
  have same: "children (node_at (set_node i f b) j) = children (node_at b j)"
    "parent (node_at (set_node i f b) j) = parent (node_at b j)" for j
    using f True by (auto simp: nth_list_update)
  have "links_ok (length (arena b)) i (f (node_at b i))"
    using arena_okD [of "arena b" i] ok True f by (auto simp: builder_ok_def links_ok_def)
  then have "arena_ok (arena (set_node i f b))" using ok by (simp add: arena_ok_update builder_ok_def)
  with ok show ?thesis
    using same unfolding builder_ok_def links_agree_def by (metis arena_set_node length_list_update set_node_other(4))
next
  case False
  then have "set_node i f b = b" by (simp add: set_node_def list_update_beyond not_less)
  with ok show ?thesis by simp
qed

lemma set_node_fine:
  "fine b \<Longrightarrow> (\<And>n. children (f n) = children n \<and> parent (f n) = parent n \<and> node_keys (f n) = node_keys n) \<Longrightarrow>
     fine (set_node i f b)"
  using set_node_ok [of b f i] by (simp add: fine_def)

lemma put_module_fine:
  "fine b \<Longrightarrow> set (root_nodes m) \<subseteq> all_roots b \<Longrightarrow> fine (b\<lparr>modules_of := assoc_put k m (modules_of b)\<rparr>)"
  using roots_subset_ok [OF _ _ put_module_roots] by (simp add: fine_def)

lemma attach_sid_fine:
  assumes at: "attach_sid m item b = Inr b'" and fine: "fine b" and sids: "sids_from used b"
    and new: "item_namespace item = NData \<Longrightarrow> item_sid item \<notin> used"
  shows "fine b' \<and> sids_from (if item_namespace item = NData then insert (item_sid item) used else used) b'"
proof (cases "item_namespace item")
  case NModule
  have "fine (b\<lparr>modules_of := assoc_put k (md\<lparr>module_sid := s\<rparr>) (modules_of b)\<rparr>)" if "map_of (modules_of b) k = Some md" for k md s
    using put_module_fine [OF fine, of "md\<lparr>module_sid := s\<rparr>" k] module_roots [OF that] by simp
  with NModule at fine sids show ?thesis
    by (auto simp: attach_sid_def sids_from_def split: option.splits)
next
  case NIdentity
  have "fine (set_identity i (\<lambda>d. d\<lparr>identity_sid := s\<rparr>) b)" for i s
    using fine set_identity_ids [of "\<lambda>d. d\<lparr>identity_sid := s\<rparr>" i b]
    by (auto simp: fine_def intro: roots_subset_ok)
  with NIdentity at fine sids show ?thesis
    by (auto simp: attach_sid_def sids_from_def split: option.splits)
next
  case NData
  with at obtain t where "b' = set_node t (\<lambda>n. n\<lparr>node_sid := Some (item_sid item)\<rparr>) b"
    by (auto simp: attach_sid_def result_simps)
  with NData fine sids_from_set [OF sids new] show ?thesis by (simp add: set_node_fine)
next
  case NFeature
  with at fine sids show ?thesis by (simp add: attach_sid_def)
qed

lemma attach_sids_fine:
  "rfold (attach_sid m) items b = Inr b' \<Longrightarrow> fine b \<Longrightarrow> sids_from used b \<Longrightarrow>
     distinct (data_sids items) \<Longrightarrow> used \<inter> set (data_sids items) = {} \<Longrightarrow>
     fine b' \<and> sids_from (used \<union> set (data_sids items)) b'"
proof (induction items arbitrary: b used)
  case Nil
  then show ?case by (simp add: data_sids_def)
next
  case (Cons item items)
  then obtain c where c: "attach_sid m item b = Inr c" "rfold (attach_sid m) items c = Inr b'"
    by (auto simp: result_simps)
  let ?used = "if item_namespace item = NData then insert (item_sid item) used else used"
  have "fine c \<and> sids_from ?used c"
    by (rule attach_sid_fine [OF c(1) Cons.prems(2,3)]) (use Cons.prems(5) in \<open>auto simp: data_sids_def\<close>)
  moreover have "distinct (data_sids items)" "?used \<inter> set (data_sids items) = {}"
    using Cons.prems(4,5) by (auto simp: data_sids_def split: if_splits)
  ultimately have "fine b' \<and> sids_from (?used \<union> set (data_sids items)) b'" using Cons.IH [OF c(2)] by blast
  then show ?case by (auto simp: data_sids_def split: if_splits)
qed

lemma read_sources_fine:
  "rfold (read_sid_source from_str) srcs b = Inr b' \<Longrightarrow> fine b \<Longrightarrow> sids_from used b \<Longrightarrow>
     distinct (sources_sids from_str srcs) \<Longrightarrow> used \<inter> set (sources_sids from_str srcs) = {} \<Longrightarrow>
     fine b' \<and> sids_from (used \<union> set (sources_sids from_str srcs)) b'"
proof (induction srcs arbitrary: b used)
  case Nil
  then show ?case by (simp add: sources_sids_def)
next
  case (Cons src srcs)
  then obtain c where r: "read_sid_source from_str src b = Inr c"
    and c: "rfold (read_sid_source from_str) srcs c = Inr b'" by (auto simp: result_simps)
  from r obtain f where f: "sid_parse from_str src = Inr f" "attach_sids f b = Inr c"
    by (auto simp: read_sid_source_def split: sum.splits)
  have sids: "sources_sids from_str (src # srcs) = data_sids (sid_file_items f) @ sources_sids from_str srcs"
    by (simp add: sources_sids_def f(1))
  have "fine c \<and> sids_from (used \<union> set (data_sids (sid_file_items f))) c"
    by (rule attach_sids_fine [OF f(2) [unfolded attach_sids_def] Cons.prems(2,3)])
      (use Cons.prems(4,5) in \<open>auto simp: sids\<close>)
  then have "fine b' \<and> sids_from ((used \<union> set (data_sids (sid_file_items f))) \<union> set (sources_sids from_str srcs)) b'"
    by (intro Cons.IH [OF c]) (use Cons.prems(4,5) in \<open>auto simp: sids\<close>)
  then show ?case by (simp add: sids Un_assoc)
qed

section \<open>After the SIDs\<close>

text \<open>The passes that follow change fields, take nodes out of the tree, and drop roots.\<close>

definition trims :: "builder \<Rightarrow> builder \<Rightarrow> bool" where
  "trims b b' \<longleftrightarrow> length (arena b') = length (arena b)
     \<and> (\<forall>i < length (arena b). node_sid (node_at b' i) = node_sid (node_at b i))
     \<and> (fine b \<longrightarrow> fine b')"

lemma trims_refl [intro, simp]: "trims b b"
  by (simp add: trims_def)

lemma trims_trans [trans]: "trims b b' \<Longrightarrow> trims b' b'' \<Longrightarrow> trims b b''"
  by (simp add: trims_def)

lemma trims_sids: "trims b b' \<Longrightarrow> sids_from used b \<Longrightarrow> sids_from used b'"
  by (simp add: trims_def sids_from_def)

lemma rfold_trims: "rfold f xs b = Inr b' \<Longrightarrow> (\<And>x c c'. x \<in> set xs \<Longrightarrow> f x c = Inr c' \<Longrightarrow> trims c c') \<Longrightarrow> trims b b'"
  by (rule rfold_invariant [of f xs b b' "trims b"]) (auto intro: trims_trans)

lemma set_node_trims:
  assumes "\<And>n. children (f n) = children n \<and> parent (f n) = parent n \<and> node_keys (f n) = node_keys n \<and> node_sid (f n) = node_sid n"
  shows "trims b (set_node i f b)"
  using set_node_fine [of b f i] assms by (cases "i < length (arena b)") (auto simp: trims_def nth_list_update)

lemma same_tree_trims: "same_tree b b' \<Longrightarrow> trims b b'"
  using steps_fine [OF same_tree_steps] by (auto simp: trims_def same_tree_def)

lemma module_trims: "set (root_nodes m) \<subseteq> all_roots b \<Longrightarrow> trims b (b\<lparr>modules_of := assoc_put k m (modules_of b)\<rparr>)"
  using put_module_fine by (auto simp: trims_def)

lemma roots_trims: "arena b' = arena b \<Longrightarrow> identity_arena b' = identity_arena b \<Longrightarrow>
    identity_by_module_name b' = identity_by_module_name b \<Longrightarrow> all_roots b' \<subseteq> all_roots b \<Longrightarrow> trims b b'"
  using roots_subset_ok [of b b'] ids_ok_same [of b' b] by (simp add: trims_def fine_def)

lemma remove_node_trims: "trims b (remove_node t b)"
proof (cases "parent (node_at b t)")
  case None
  have "trims b (b\<lparr>modules_of := assoc_put k (m\<lparr>root_nodes := removeAll t (root_nodes m)\<rparr>) (modules_of b)\<rparr>)"
    if "map_of (modules_of b) k = Some m" for k m
    by (rule module_trims) (use module_roots [OF that] in auto)
  with None show ?thesis by (auto simp: remove_node_def Let_def split: option.splits)
next
  case (Some p)
  let ?f = "\<lambda>n. n\<lparr>children := removeAll t (children n)\<rparr>"
  have "builder_ok (set_node p ?f b)" if ok: "builder_ok b"
  proof (cases "p < length (arena b)")
    case True
    have same: "parent (node_at (set_node p ?f b) j) = parent (node_at b j)"
      "set (children (node_at (set_node p ?f b) j)) \<subseteq> set (children (node_at b j))" for j
      using True by (auto simp: nth_list_update)
    have "links_ok (length (arena b)) p (?f (node_at b p))"
      using arena_okD [of "arena b" p] ok True by (auto simp: builder_ok_def links_ok_def)
    then have "arena_ok (arena (set_node p ?f b))" using ok by (simp add: arena_ok_update builder_ok_def)
    moreover have "links_agree (set_node p ?f b)" unfolding links_agree_def
    proof (intro allI impI ballI)
      fix i c assume i: "i < length (arena (set_node p ?f b))" "c \<in> set (children (node_at (set_node p ?f b) i))"
      then have "i < length (arena b)" "c \<in> set (children (node_at b i))" using same(2) by auto
      with ok have "parent (node_at b c) = Some i \<or> parent (node_at b c) = None \<and> parent (node_at b i) = None \<and> i \<notin> all_roots b"
        by (simp add: builder_ok_def links_agree_def)
      then show "parent (node_at (set_node p ?f b) c) = Some i \<or> parent (node_at (set_node p ?f b) c) = None
          \<and> parent (node_at (set_node p ?f b) i) = None \<and> i \<notin> all_roots (set_node p ?f b)"
        by (simp only: same(1) set_node_other)
    qed
    ultimately show ?thesis using ok by (simp add: builder_ok_def)
  next
    case False
    then have "set_node p ?f b = b" by (simp add: set_node_def list_update_beyond not_less)
    with ok show ?thesis by simp
  qed
  moreover have "node_sid (node_at (set_node p ?f b) i) = node_sid (node_at b i)" if "i < length (arena b)" for i
    using that by (cases "p < length (arena b)") (auto simp: nth_list_update)
  ultimately show ?thesis using Some by (simp add: remove_node_def trims_def fine_def)
qed

lemma fold_related:
  assumes "\<And>s. R s s" "\<And>s t u. R s t \<Longrightarrow> R t u \<Longrightarrow> R s u" "\<And>x s. R s (f x s)"
  shows "R s (fold f xs s)"
proof (induction xs arbitrary: s)
  case (Cons x xs)
  from assms(2) [OF assms(3) Cons.IH] show ?case by simp
qed (simp add: assms(1))

text \<open>Two arenas that differ in \<open>config\<close> only.\<close>

definition config_differs :: "node list \<Rightarrow> node list \<Rightarrow> bool" where
  "config_differs ns ms \<longleftrightarrow> length ms = length ns \<and> (\<forall>j < length ns. \<exists>c. ms ! j = (ns ! j)\<lparr>config := c\<rparr>)"

lemma config_differs_refl: "config_differs ns ns"
proof -
  have "ns ! j = (ns ! j)\<lparr>config := config (ns ! j)\<rparr>" for j by simp
  then show ?thesis unfolding config_differs_def by blast
qed

lemma config_differs_trans: "config_differs ns ms \<Longrightarrow> config_differs ms ks \<Longrightarrow> config_differs ns ks"
proof -
  assume a: "config_differs ns ms" and b: "config_differs ms ks"
  have "\<exists>c. ks ! j = (ns ! j)\<lparr>config := c\<rparr>" if j: "j < length ns" for j
  proof -
    from a j obtain c where "ms ! j = (ns ! j)\<lparr>config := c\<rparr>" by (auto simp: config_differs_def)
    moreover from a b j obtain d where "ks ! j = (ms ! j)\<lparr>config := d\<rparr>" by (auto simp: config_differs_def)
    ultimately show ?thesis by auto
  qed
  with a b show ?thesis by (simp add: config_differs_def)
qed

lemma config_differs_update: "config_differs ns (ns[c := (ns ! c)\<lparr>config := v\<rparr>])"
  unfolding config_differs_def
proof (intro conjI allI impI)
  fix j assume "j < length ns"
  then show "\<exists>k. ns[c := (ns ! c)\<lparr>config := v\<rparr>] ! j = (ns ! j)\<lparr>config := k\<rparr>"
    using config_differs_refl [of ns] by (cases "j = c") (auto simp: config_differs_def)
qed simp

lemma propagate_config_fields: "config_differs ns (propagate_config_within d i ns)"
proof (induction d arbitrary: i ns)
  case 0
  show ?case by (simp add: config_differs_refl)
next
  case (Suc d)
  let ?step = "\<lambda>c ns. if config (ns ! c) \<noteq> None
    then propagate_config_within d c (ns[c := (ns ! c)\<lparr>config := Some False\<rparr>]) else ns"
  have "config_differs ns (?step c ns)" for c ns
    using config_differs_trans [OF config_differs_update Suc.IH] config_differs_refl by simp
  then have "config_differs ns (fold ?step cs ns)" for cs
    by (intro fold_related [of config_differs]) (auto intro: config_differs_refl config_differs_trans)
  then show ?case by simp
qed

lemma config_fields_trims:
  assumes "config_differs (arena b) ns"
  shows "trims b (b\<lparr>arena := ns\<rparr>)"
proof -
  have len: "length ns = length (arena b)" using assms by (simp add: config_differs_def)
  have same: "children (ns ! j) = children (node_at b j)" "parent (ns ! j) = parent (node_at b j)"
    "node_keys (ns ! j) = node_keys (node_at b j)" "node_sid (ns ! j) = node_sid (node_at b j)"
    if "j < length (arena b)" for j
  proof -
    from assms that obtain c where "ns ! j = (node_at b j)\<lparr>config := c\<rparr>" by (auto simp: config_differs_def)
    then show "children (ns ! j) = children (node_at b j)" "parent (ns ! j) = parent (node_at b j)"
      "node_keys (ns ! j) = node_keys (node_at b j)" "node_sid (ns ! j) = node_sid (node_at b j)" by simp_all
  qed
  have "arena_ok ns = arena_ok (arena b)" by (simp add: arena_ok_def links_ok_def same len)
  moreover have "links_agree (b\<lparr>arena := ns\<rparr>)" if ok: "builder_ok b"
    unfolding links_agree_def
  proof (intro allI impI ballI)
    fix i c assume i: "i < length (arena (b\<lparr>arena := ns\<rparr>))" "c \<in> set (children (node_at (b\<lparr>arena := ns\<rparr>) i))"
    then have i': "i < length (arena b)" "c \<in> set (children (node_at b i))" using same(1) len by auto
    then have "c < length (arena b)" using ok arena_ok_child by (auto simp: builder_ok_def)
    moreover have "parent (node_at b c) = Some i \<or> parent (node_at b c) = None \<and> parent (node_at b i) = None \<and> i \<notin> all_roots b"
      using ok i' by (simp add: builder_ok_def links_agree_def)
    ultimately show "parent (node_at (b\<lparr>arena := ns\<rparr>) c) = Some i \<or> parent (node_at (b\<lparr>arena := ns\<rparr>) c) = None
        \<and> parent (node_at (b\<lparr>arena := ns\<rparr>) i) = None \<and> i \<notin> all_roots (b\<lparr>arena := ns\<rparr>)"
      using same(2) i'(1) by simp
  qed
  ultimately show ?thesis using len same(4) by (auto simp: trims_def fine_def builder_ok_def)
qed

lemma replace_config_trims: "trims b (replace_config t d b)"
proof -
  have "trims c (propagate_config_false t c)" for c
    unfolding propagate_config_false_def by (rule config_fields_trims) (rule propagate_config_fields)
  moreover have "trims b (set_node t (\<lambda>n. n\<lparr>config := v\<rparr>) b)" for v by (rule set_node_trims) simp
  ultimately show ?thesis unfolding replace_config_def Let_def
    by (auto split: option.splits intro: trims_trans)
qed

lemma replace_type_trims: "replace_type k m t d b = Inr b' \<Longrightarrow> trims b b'"
proof -
  assume r: "replace_type k m t d b = Inr b'"
  show ?thesis
  proof (cases "stmt_sub ''type'' d")
    case (Some ts)
    with r obtain ty c where c: "interpret_type k m [] ts b = Inr (ty, c)"
      and b': "b' = resolve_effective_default_and_units t (set_node t (\<lambda>n. n\<lparr>node_ty := Some ty\<rparr>) c)"
      by (auto simp: replace_type_def result_simps)
    have "trims b c" by (rule same_tree_trims [OF typed.tree_kept [OF c]])
    also have "trims c (set_node t (\<lambda>n. n\<lparr>node_ty := Some ty\<rparr>) c)" by (rule set_node_trims) simp
    also have "trims \<dots> b'" unfolding b' resolve_effective_default_and_units_def by (rule set_node_trims) simp
    finally show ?thesis .
  qed (use r in \<open>simp add: replace_type_def\<close>)
qed

lemma apply_deviate_trims: "apply_deviate k m t d b = Inr b' \<Longrightarrow> trims b b'"
  using trims_trans [OF replace_config_trims replace_type_trims] remove_node_trims
  by (auto simp: apply_deviate_def split: if_splits)

lemma note_deviation_trims: "note_deviation m tm b = Inr b' \<Longrightarrow> trims b b'"
proof -
  have "trims b (b\<lparr>modules_of := assoc_put tm (t\<lparr>deviated_by := x\<rparr>) (modules_of b)\<rparr>)"
    if "map_of (modules_of b) tm = Some t" for t x
    by (rule module_trims) (use module_roots [OF that] in simp)
  then show "note_deviation m tm b = Inr b' \<Longrightarrow> ?thesis"
    by (auto simp: note_deviation_def result_simps split: if_splits)
qed

lemma apply_deviations_trims: "apply_deviations k ms b = Inr b' \<Longrightarrow> trims b b'"
proof -
  have one: "trims b b'" if dev: "apply_deviation k m dev b = Inr b'" for m dev b b'
  proof -
    from dev obtain t c where c: "note_deviation m (owner_module (node_at b t)) b = Inr c"
      and b': "rfold (apply_deviate k m t) (subs_of ''deviate'' dev) c = Inr b'"
      by (auto simp: apply_deviation_def result_simps)
    have "trims c b'" by (rule rfold_trims [OF b']) (rule apply_deviate_trims)
    with note_deviation_trims [OF c] show ?thesis by (rule trims_trans)
  qed
  show "apply_deviations k ms b = Inr b' \<Longrightarrow> ?thesis"
    unfolding apply_deviations_def by (erule rfold_trims) (erule rfold_trims, erule one)
qed

lemma compute_reachable_trims: "compute_reachable_typedefs b = Inr b' \<Longrightarrow> trims b b'"
proof -
  assume r: "compute_reachable_typedefs b = Inr b'"
  have check: "rfold check_implemented names b = Inr c \<Longrightarrow> c = b" for names b c
    by (erule rfold_invariant [of _ _ _ _ "\<lambda>c. c = b"]) (auto simp: check_implemented_def split: if_splits)
  have assign: "trims (fst s) (fst (fold (assign_node by_leaf by_base) is s))" for by_leaf by_base "is" and s :: "builder \<times> nat list"
  proof (rule fold_related [where R = "\<lambda>s t. trims (fst s) (fst t)"])
    fix i and s :: "builder \<times> nat list"
    show "trims (fst s) (fst (assign_node by_leaf by_base i s))"
      by (cases s) (auto simp: assign_node_def Let_def split: option.splits intro: set_node_trims)
  qed (auto intro: trims_trans)
  let ?b = "b\<lparr>yang_data_of := filter (\<lambda>y. qualified_name y \<in> set (implemented_yang_data b)) (yang_data_of b)\<rparr>"
  from r obtain by_leaf by_base where b': "b' = note_live by_leaf by_base ?b"
    by (auto simp: compute_reachable_typedefs_def Let_def result_simps dest!: check)
  have fields: "trims c (c\<lparr>live_typedefs := a, live_identities := f, live_implemented := e, referenced_modules := d\<rparr>)"
    for c a d e f
    by (rule roots_trims) (auto simp: all_roots_def)
  have "trims b ?b"
    by (rule roots_trims) (auto simp: all_roots_def)
  also have "trims ?b (fst (fold (assign_node by_leaf by_base) (live_nodes ?b) (?b, [])))"
    using assign [of "(?b, [])"] by simp
  also have "trims \<dots> b'" unfolding b' note_live_def Let_def by (rule fields)
  finally show ?thesis .
qed

lemma resolve_leafrefs_trims: "resolve_leafrefs b = Inr b' \<Longrightarrow> trims b b'"
  unfolding resolve_leafrefs_def Let_def
  by (erule rfold_trims)
    (auto simp: resolve_leafref_of_node_def result_simps split: option.splits intro: set_node_trims)

end
