(* ===== verification/Yang_Build_Sample.thy ===== *)
theory Yang_Build_Sample
  imports Yang_Build Yang_Print
begin

text \<open>
  A small module for the examples, and how the simplifier evaluates the builder on it.
\<close>

section \<open>Evaluating the builder\<close>

text \<open>
  The simplifier evaluates a sequence of steps if it does not go into a step before the ones
  before it are done: weak congruences of the sequencing functions see to that.
\<close>

lemma rbind_weak: "x = y \<Longrightarrow> rbind x f = rbind y f"
  by simp

lemma rfold_weak: "xs = ys \<Longrightarrow> s = t \<Longrightarrow> rfold f xs s = rfold f ys t"
  by simp

lemma fold_weak: "xs = ys \<Longrightarrow> s = t \<Longrightarrow> fold f xs s = fold f ys t"
  by simp

lemma bind_weak: "x = y \<Longrightarrow> Option.bind x f = Option.bind y f"
  by simp

lemma list_update_numeral: "(x # xs)[numeral k := y] = x # xs[pred_numeral k := y]"
  by (simp add: numeral_eq_Suc)

lemmas build_defs = schema_node_keywords_def read_status_def set_node_def set_identity_def add_node_def 
  split_qualified_def fresh_identity_def get_identity_def resolve_identity_ref_def 
  add_base_def register_identity_def find_in_module_def find_by_local_def 
  resolve_relative_path_def resolve_absolute_schema_node_id_def 
  resolve_sid_data_identifier_def schema_node_path_of_def find_grouping_stmt_def 
  set_info_def parse_u32_def parse_u8_def add_identity_base_def add_member_def 
  interpret_builtin_type_def ensure_typedef_interpreted_def typedef_scope_of_def 
  resolve_typedef_def declare_typedef_def interpret_scope_typedefs_def 
  typedef_reference_def narrow_by_def read_pattern_def apply_restrictions_def 
  interpret_children_def add_reference_def extension_module_def note_reference_def 
  named_yang_data_def promote_container_def interpret_yang_data_def interpret_structure_def 
  interpret_extension_def type_default_applies_def effective_defaults_def 
  resolve_effective_default_and_units_def stmt_is_true_def read_common_def set_status_def 
  read_leaf_def add_side_def read_kind_def read_choice_default_def 
  scope_bearing_keywords_def open_scope_def implicit_case_keywords_def 
  interpret_choice_member_def interpret_choice_body_def add_key_def read_keys_def 
  interpret_schema_node_def qualify_child_def augment_child_def interpret_augment_def 
  splice_grouping_def interpret_uses_def document_collision_def check_documents_def 
  fresh_module_def interpret_module_def attach_sid_def attach_sids_def remove_node_def 
  propagate_config_false_def replace_config_def replace_type_def apply_deviate_def 
  note_deviation_def apply_deviation_def apply_deviations_def subtree_def tree_roots_def 
  live_nodes_def resolve_relative_leafref_def leafref_target_of_def resolve_own_leafref_def 
  resolve_leafref_of_node_def resolve_leafrefs_def identity_by_qualified_name_def 
  accept_identity_def accepted_identities_def accept_base_def accept_lists_by_base_def 
  accept_leaf_def accept_lists_by_leaf_def values_for_base_def values_of_bases_def 
  mark_node_def assign_node_def check_implemented_def note_live_def 
  compute_reachable_typedefs_def has_surviving_augment_def module_implemented_def 
  implemented_names_def used_names_def import_dates_def import_only_of_def import_key_def 
  index_sids_def finish_def import_prefix_def module_context_def new_builder_def 
  read_sid_source_def parse_source_def build_modules_def build_schema_def
  stmt_sub_def subs_of_def arg_str_def new_node_def fresh_node_def default_ranges_def type_info_new_def
  builtin_from_name_def sid_parse_def namespace_of_def resolve_schema_path_def path_segments_def
  segment_matches_def node_namespace_module_def find_child_by_local_raw_def local_name_def
  local_part_def rsplit_once_def sort_key_def or_else_def resolve_yang_data_path_def subtree_def
  List.union_def List.insert_def list_update_numeral node_path_of_def node_chain_def no_error_info_def

section \<open>A module\<close>

text \<open>A container with a leaf, and their SIDs.\<close>

definition plain :: "string \<Rightarrow> string \<Rightarrow> stmt list \<Rightarrow> stmt" where
  "plain k a ss = Stmt None k (Some a) ss"

definition tiny_module :: stmt where
  "tiny_module = plain ''module'' ''m'' [plain ''namespace'' ''u'' [],
     plain ''container'' ''top''
       [plain ''leaf'' ''x'' [plain ''type'' ''int8'' []]]]"

definition tiny_sids :: raw_sid_file where
  "tiny_sids = \<lparr>raw_module_name = ''m'', raw_items =
     [\<lparr>raw_namespace = ''data'', raw_identifier = ''/m:top'', raw_sid = 1000\<rparr>,
      \<lparr>raw_namespace = ''data'', raw_identifier = ''/m:top/x'', raw_sid = 1001\<rparr>]\<rparr>"

abbreviation tiny_build :: "schema built" where
  "tiny_build \<equiv> build_schema (Suc (Suc (Suc (Suc 0)))) (\<lambda>_. Inr tiny_sids) [concat (print_stmt tiny_module)] [''''] [] [] []"

text \<open>What the module and its SIDs build.\<close>

definition tiny_schema :: schema where
  "tiny_schema =
    \<lparr>nodes =
      [(fresh_node ''container'' ''m:top'' ''m'' None (Some True) False)
         \<lparr>children := [1], node_sid := Some 1000, node_status := Some Current\<rparr>,
       (fresh_node ''leaf'' ''x'' ''m'' (Some 0) (Some True) False)
         \<lparr>node_ty := Some (Type_descriptor ((type_info_new Int8)\<lparr>ranges := [(-128, 127)]\<rparr>) []),
          node_sid := Some 1001, node_status := Some Current\<rparr>],
     typedefs = [], identities = [],
     module_root = [(''m'', \<lparr>yang_module_name = ''m'', module_namespace = ''u'', revision = None,
       module_sid = None, root_nodes = [0], deviated_by = []\<rparr>)],
     import_only_modules = [], yang_datas = [], structure_roots = [],
     sid_index = [(1000, 0), (1001, 1)],
     reachable_typedefs = [], reachable_identities = [], implemented_identities = []\<rparr>"

lemma tiny_modules_schema:
  "build_modules (Suc (Suc (Suc (Suc 0)))) (\<lambda>_. Inr tiny_sids) [tiny_module] [''''] [] [] [] = Inr tiny_schema"
  by (simp add: tiny_schema_def tiny_sids_def tiny_module_def plain_def build_defs Let_def cong: rbind_weak rfold_weak fold_weak bind_weak let_weak_cong)

lemma tiny_modules:
  "\<exists>S. build_modules (Suc (Suc (Suc (Suc 0)))) (\<lambda>_. Inr tiny_sids) [tiny_module] [''''] [] [] [] = Inr S
     \<and> sid_index S = [(1000, 0), (1001, 1)] \<and> map kw (nodes S) = [''container'', ''leaf'']
     \<and> map fst (module_root S) = [''m''] \<and> map (root_nodes \<circ> snd) (module_root S) = [[0]]"
  by (simp add: tiny_modules_schema tiny_schema_def fresh_node_def)

lemma tiny_parses: "parse_source (concat (print_stmt tiny_module)) = Inr tiny_module"
proof -
  have "parse_module (concat (print_stmt tiny_module)) = Inr tiny_module"
    by (rule parse_module_print)
      (simp_all add: tiny_module_def plain_def word_ok_def stmt_word_def bare_end_def is_whitespace_def utf8_len_def
        uchar_ok_def print_arg_def escape_char_def)
  then show ?thesis by (simp add: parse_source_def)
qed

lemma tiny_build_modules:
  "tiny_build = build_modules (Suc (Suc (Suc (Suc 0)))) (\<lambda>_. Inr tiny_sids) [tiny_module] [''''] [] [] []"
  by (simp add: build_schema_def tiny_parses)

end
