(* ===== verification/Yang_Built.thy ===== *)
theory Yang_Built
  imports Yang_Build_Passes Yang_Build_Sample
begin

text \<open>
  The finished schema: a walk of the tree meets every live node, the index of SIDs leads back
  to them, and so every schema that is built is a good one.
\<close>

section \<open>The finished schema\<close>

text \<open>The walk from a node meets the children of every node that it meets.\<close>

lemma subtree_within_range:
  "arena_ok ns \<Longrightarrow> r < length ns \<Longrightarrow> i \<in> set (subtree_within d ns r) \<Longrightarrow> r \<le> i \<and> i < length ns"
proof (induction d arbitrary: r)
  case (Suc d)
  then show ?case using arena_ok_child [OF Suc.prems(1,2)] by fastforce
qed simp

lemma subtree_within_closed:
  "arena_ok ns \<Longrightarrow> r < length ns \<Longrightarrow> length ns \<le> d + r \<Longrightarrow> i \<in> set (subtree_within d ns r) \<Longrightarrow>
     c \<in> set (children (ns ! i)) \<Longrightarrow> c \<in> set (subtree_within d ns r)"
proof (induction d arbitrary: r)
  case (Suc d)
  show ?case
  proof (cases "i = r")
    case True
    have "c \<in> set (subtree_within d ns c)" by (cases d) simp_all
    with True Suc.prems(5) show ?thesis by auto
  next
    case False
    with Suc.prems(4) obtain k where k: "k \<in> set (children (ns ! r))" "i \<in> set (subtree_within d ns k)" by auto
    from arena_ok_child [OF Suc.prems(1,2) k(1)] Suc.prems(3) have "k < length ns" "length ns \<le> d + k" by auto
    from Suc.IH [OF Suc.prems(1) this k(2) Suc.prems(5)] k(1) show ?thesis by auto
  qed
qed simp

lemma subtree_self: "i \<in> set (subtree ns i)"
  by (cases "length ns") (simp_all add: subtree_def)

lemma subtree_closed:
  "arena_ok ns \<Longrightarrow> r < length ns \<Longrightarrow> i \<in> set (subtree ns r) \<Longrightarrow> c \<in> set (children (ns ! i)) \<Longrightarrow> c \<in> set (subtree ns r)"
  unfolding subtree_def by (rule subtree_within_closed) simp_all

text \<open>The index of the nodes met, when no two of them have the same SID.\<close>

definition put_sid :: "node list \<Rightarrow> nat \<Rightarrow> (i64 \<times> nat) list \<Rightarrow> (i64 \<times> nat) list" where
  "put_sid ns i out = (case node_sid (ns ! i) of Some sid \<Rightarrow> assoc_put sid i out | None \<Rightarrow> out)"

lemma put_sids:
  assumes "\<forall>j \<in> set L. node_sid (ns ! j) = Some s \<longrightarrow> j = i" "node_sid (ns ! i) = Some s"
  shows "map_of (fold (put_sid ns) L out) s = (if i \<in> set L then Some i else map_of out s)"
  using assms(1)
proof (induction L arbitrary: out)
  case (Cons j L)
  then have "\<forall>j \<in> set L. node_sid (ns ! j) = Some s \<longrightarrow> j = i" by simp
  then have "map_of (fold (put_sid ns) L (put_sid ns j out)) s
      = (if i \<in> set L then Some i else map_of (put_sid ns j out) s)" by (rule Cons.IH)
  moreover have "map_of (put_sid ns j out) s = (if j = i then Some i else map_of out s)"
  proof (cases "node_sid (ns ! j)")
    case (Some t)
    moreover have "t = s \<Longrightarrow> j = i" using Some Cons.prems by simp
    ultimately show ?thesis using assms(2) by (auto simp: put_sid_def)
  qed (use assms(2) in \<open>auto simp: put_sid_def\<close>)
  ultimately show ?case by auto
qed simp

lemma index_all: "fold (index_sids ns) roots out = fold (put_sid ns) (concat (map (subtree ns) roots)) out"
  by (induction roots arbitrary: out) (simp_all add: index_sids_def put_sid_def [abs_def])

lemma finish_schema:
  assumes "finish b = Inr S"
  obtains P where "nodes S = arena b" "module_root S = filter P (modules_of b)" "yang_datas S = yang_data_of b"
    "identities S = identity_arena b"
    "sid_index S = fold (put_sid (arena b)) (live_nodes (b\<lparr>modules_of := filter P (modules_of b)\<rparr>)) []"
proof -
  from assms obtain imp only where "S = (let b = b\<lparr>modules_of := filter (\<lambda>e. fst e \<in> set imp) (modules_of b)\<rparr>
       in \<lparr>nodes = arena b, typedefs = typedef_arena b, identities = identity_arena b,
            module_root = modules_of b, import_only_modules = sort_key import_key (concat only),
            yang_datas = yang_data_of b, structure_roots = structures_of b,
            sid_index = fold (index_sids (arena b)) (tree_roots b) [],
            reachable_typedefs = live_typedefs b, reachable_identities = live_identities b,
            implemented_identities = live_implemented b\<rparr>)"
    unfolding finish_def Let_def rbind_eq_Inr sum.inject(2) by blast
  then show thesis
    by (intro that [of "\<lambda>e. fst e \<in> set imp"]) (simp_all add: Let_def index_all live_nodes_def)
qed

lemma finish_ok:
  assumes fine: "fine b" and sids: "sids_from used b" and fin: "finish b = Inr S"
  shows "schema_ok S"
proof -
  obtain P where S: "nodes S = arena b" "module_root S = filter P (modules_of b)" "yang_datas S = yang_data_of b"
    and index: "sid_index S = fold (put_sid (arena b)) (live_nodes (b\<lparr>modules_of := filter P (modules_of b)\<rparr>)) []"
    by (rule finish_schema [OF fin])
  let ?b = "b\<lparr>modules_of := filter P (modules_of b)\<rparr>"
  have ok: "arena_ok (arena b)" and links: "links_agree b" and roots: "\<And>r. r \<in> all_roots b \<Longrightarrow> r < length (arena b)"
    using fine by (auto simp: fine_def builder_ok_def)
  have module: "r \<in> all_roots b \<and> r \<in> set (tree_roots ?b)"
    if "m \<in> set (module_root S)" "r \<in> set (root_nodes (snd m))" for m r
  proof -
    have m: "m \<in> set (modules_of b)" "P m" using that(1) by (simp_all add: S)
    obtain k md where "m = (k, md)" by fastforce
    with m that(2) show ?thesis unfolding all_roots_def tree_roots_def by force
  qed
  have tree_all: "r \<in> all_roots b" if "r \<in> set (tree_roots ?b)" for r
  proof -
    from that consider e where "e \<in> set (modules_of b)" "r \<in> set (root_nodes (snd e))"
      | "r \<in> yang_data_root ` set (yang_data_of b)" unfolding tree_roots_def by fastforce
    then show ?thesis unfolding all_roots_def by cases blast+
  qed
  have yd: "yang_data_root y \<in> all_roots b \<and> yang_data_root y \<in> set (tree_roots ?b)" if "y \<in> set (yang_datas S)" for y
    using that by (auto simp: S all_roots_def tree_roots_def)
  have live: "i < length (arena b) \<and> i \<in> set (live_nodes ?b) \<and> (i \<in> all_roots b \<or> parent (node_at b i) \<noteq> None)" if "live S i" for i
    using that
  proof (induction rule: live.induct)
    case (live_root m r)
    from module [OF this] roots show ?case by (auto simp: live_nodes_def intro: subtree_self)
  next
    case (live_yang_data y)
    from yd [OF this] roots show ?case by (auto simp: live_nodes_def intro: subtree_self)
  next
    case (live_child i c)
    then have i: "i < length (arena b)" "c \<in> set (children (node_at b i))" by (simp_all add: S)
    from live_child.IH obtain r where r: "r \<in> set (tree_roots ?b)" "i \<in> set (subtree (arena b) r)"
      by (auto simp: live_nodes_def)
    have "r \<in> all_roots b" using r(1) by (rule tree_all)
    then have "c \<in> set (subtree (arena b) r)" using subtree_closed [OF ok roots r(2) i(2)] by blast
    moreover have "parent (node_at b c) = Some i"
      using links i live_child.IH by (auto simp: links_agree_def)
    ultimately show ?case using r(1) arena_ok_child [OF ok i] by (auto simp: live_nodes_def)
  qed
  have "parent (nodes S ! c) = Some i" if "live S i" "c \<in> set (children (nodes S ! i))" for i c
    using live [OF that(1)] that(2) links by (auto simp: S links_agree_def)
  moreover have "node_by_sid S s = Some i" if i: "live S i" "node_sid (nodes S ! i) = Some s" for i s
  proof -
    have range: "j < length (arena b)" if j: "j \<in> set (live_nodes ?b)" for j
    proof -
      from j obtain r where "r \<in> set (tree_roots ?b)" and r: "j \<in> set (subtree (arena b) r)" by (auto simp: live_nodes_def)
      then have "r < length (arena b)" by (intro roots tree_all)
      from subtree_within_range [OF ok this r [unfolded subtree_def]] show ?thesis by simp
    qed
    have "\<forall>j \<in> set (live_nodes ?b). node_sid (node_at b j) = Some s \<longrightarrow> j = i"
      using sids live [OF i(1)] i(2) range unfolding sids_from_def S by blast
    from put_sids [OF this, of "[]"] live [OF i(1)] i(2) show ?thesis
      by (simp add: node_by_sid_def index S)
  qed
  ultimately show ?thesis
    using ok roots module yd by (auto simp: schema_ok_def S)
qed

section \<open>The whole build\<close>

lemma new_builder_fresh: "fresh_tree (new_builder parsed implemented by_base by_leaf)"
  by (simp add: fresh_tree_def fine_def builder_ok_def links_agree_def all_roots_def no_sids_def ids_ok_def
    derivation_ok_def arena_ok_def new_builder_def)

lemma build_modules_ok:
  assumes build: "build_modules d from_str parsed sid_sources implemented by_base by_leaf = Inr S"
    and sids: "distinct (sources_sids from_str sid_sources)"
  shows "schema_ok S \<and> derivation_ok (identities S)"
proof -
  from build obtain b1 b2 b3 b4 b5 where
    b1: "rfold (ensure_module (Suc (length parsed)) d) (sort_key (map of_char :: string \<Rightarrow> nat list) (map arg_str parsed))
      (new_builder parsed implemented by_base by_leaf) = Inr b1"
    and b2: "rfold (read_sid_source from_str) sid_sources b1 = Inr b2"
    and b3: "apply_deviations d parsed b2 = Inr b3" and b4: "compute_reachable_typedefs b3 = Inr b4"
    and b5: "resolve_leafrefs b4 = Inr b5" and S: "finish b5 = Inr S"
    by (auto simp: build_modules_def Let_def result_simps)
  have "fresh_tree b1"
    by (rule rfold_invariant [OF b1, of fresh_tree]) (use new_builder_fresh ensure_module_fresh in blast)+
  then have "fine b1" "sids_from {} b1" by (simp_all add: fresh_tree_def no_sids_def sids_from_def)
  with read_sources_fine [OF b2 _ _ sids, of "{}"]
  have b2': "fine b2" "sids_from (set (sources_sids from_str sid_sources)) b2" by simp_all
  have trims: "trims b2 b5"
    using apply_deviations_trims [OF b3] compute_reachable_trims [OF b4] resolve_leafrefs_trims [OF b5]
    by (blast intro: trims_trans)
  have b5': "fine b5" using trims b2'(1) by (simp add: trims_def)
  have "identities S = identity_arena b5" by (rule finish_schema [OF S])
  with b5' finish_ok [OF b5' trims_sids [OF trims b2'(2)] S] show ?thesis
    by (simp add: fine_def ids_ok_def)
qed

text \<open>
  C5: A built schema is a good schema: if the SID files give no SID to two data nodes, every
  schema that comes out of the sources, with any groupings, augments, deviations and
  yang-data templates, has a sound arena, children that know their parents, and an index that
  leads from the SID of each live node to that node; and every derivation between identities
  is recorded at both ends.
\<close>

theorem built_schema_ok:
  assumes "build_schema d from_str yang_sources sid_sources implemented by_base by_leaf = Inr S"
    and "distinct (sources_sids from_str sid_sources)"
  shows "schema_ok S \<and> derivation_ok (identities S)"
proof -
  from assms(1) obtain parsed where
    "build_modules d from_str parsed sid_sources implemented by_base by_leaf = Inr S"
    by (auto simp: build_schema_def result_simps)
  then show ?thesis using assms(2) by (rule build_modules_ok)
qed

theorem built_schema_ok_witness: "\<exists>S. tiny_build = Inr S \<and> schema_ok S \<and> sid_index S = [(1000, 0), (1001, 1)]"
proof -
  obtain S where S: "tiny_build = Inr S" "sid_index S = [(1000, 0), (1001, 1)]"
    using tiny_modules by (auto simp: tiny_build_modules)
  have "distinct (sources_sids (\<lambda>_. Inr tiny_sids) [''''])"
    by (simp add: sources_sids_def data_sids_def sid_parse_def namespace_of_def tiny_sids_def)
  with built_schema_ok [OF S(1)] S show ?thesis by blast
qed

end
