(* ===== verification/Mup1_Transport.thy ===== *)
theory Mup1_Transport
  imports Mup1_Client Yang_Json
begin

text \<open>
  The transports (\<open>src/mup1/src/transport.rs\<close>): how a device string is read, and what opening does
  to the bytes that wait, and what a read of the port or the socket means to \<open>poll\<close>. The calls
  themselves are those of the system and of the \<open>serialport\<close> crate.
\<close>

section \<open>Reading\<close>

text \<open>What one read of the port or the socket gives, with timeouts of 50 ms set.\<close>

datatype os_read = Os_data bytes | Os_timed_out | Os_would_block | Os_failed string

text \<open>A read that times out is one of no bytes; on a socket a read that would block too.\<close>

definition serial_read :: "os_read \<Rightarrow> string + bytes" where
  "serial_read r = (case r of
     Os_data bs \<Rightarrow> Inr bs
   | Os_timed_out \<Rightarrow> Inr []
   | Os_would_block \<Rightarrow> Inl ''would block''
   | Os_failed e \<Rightarrow> Inl e)"

definition tcp_read :: "os_read \<Rightarrow> string + bytes" where
  "tcp_read r = (case r of
     Os_data bs \<Rightarrow> Inr bs
   | Os_timed_out \<Rightarrow> Inr []
   | Os_would_block \<Rightarrow> Inr []
   | Os_failed e \<Rightarrow> Inl e)"

section \<open>Opening\<close>

text \<open>The line as the program sees it: the bytes that wait to be read, and those it has written.\<close>

record port =
  incoming :: bytes
  outgoing :: bytes

text \<open>What the serial port is opened with: eight data bits, no parity, one stop bit, no flow control.\<close>

record serial_settings =
  line_baud :: u32
  data_bits :: nat
  parity :: bool
  stop_bits :: nat
  flow_control :: bool
  read_timeout_ms :: nat

definition serial_settings_of :: "u32 \<Rightarrow> serial_settings" where
  "serial_settings_of baud_rate = \<lparr>line_baud = baud_rate, data_bits = 8, parity = False, stop_bits = 1,
     flow_control = False, read_timeout_ms = 50\<rparr>"

text \<open>
  \<open>SerialTransport::open\<close> throws away what waits; an error of \<open>clear\<close> is ignored, and then the
  bytes stay. The system's error of opening ends it before.
\<close>

definition serial_open :: "(string + port) \<Rightarrow> bool \<Rightarrow> string + port" where
  "serial_open opened cleared =
     rbind opened (\<lambda>p. Inr (if cleared then p\<lparr>incoming := []\<rparr> else p))"

text \<open>What \<open>connect_telnet\<close> writes first: WILL and DO suppress-go-ahead, DO echo.\<close>

definition telnet_greeting :: bytes where
  "telnet_greeting = [0xff, 0xfb, 0x03, 0xff, 0xfd, 0x03, 0xff, 0xfd, 0x01]"

text \<open>
  \<open>connect_telnet\<close>: the error of the write is reported; then one read into 1024 bytes is thrown
  away, \<open>n\<close> bytes of what waits, or none when it fails.
\<close>

definition connect_telnet :: "(string + port) \<Rightarrow> string option \<Rightarrow> nat \<Rightarrow> string + port" where
  "connect_telnet connected write_error n =
     rbind connected (\<lambda>p.
     case write_error of
       Some e \<Rightarrow> Inl e
     | None \<Rightarrow> Inr (p\<lparr>outgoing := outgoing p @ telnet_greeting, incoming := drop (min n 1024) (incoming p)\<rparr>))"

text \<open>One write takes the first \<open>n\<close> of the bytes.\<close>

definition port_write :: "nat \<Rightarrow> bytes \<Rightarrow> port \<Rightarrow> nat \<times> port" where
  "port_write n bs p = (length (take n bs), p\<lparr>outgoing := outgoing p @ take n bs\<rparr>)"

section \<open>Device strings\<close>

datatype device_error = Not_host_port string | Bad_port string

datatype device =
  Serial string u32
| Tcp string u16
| Telnet string u16

definition split_host_port :: "string \<Rightarrow> device_error + string \<times> u16" where
  "split_host_port s =
     rbind (ok_or (Not_host_port s) (rsplit_once (CHR '':'') s)) (\<lambda>(host, port_str).
     rbind (ok_or (Bad_port s) (parse_int 0 65535 port_str)) (\<lambda>port.
     Inr (host, word_of_int port)))"

definition open_device :: "string \<Rightarrow> u32 \<Rightarrow> device_error + device" where
  "open_device device baud_rate =
    (case strip_prefix ''termhub://'' device of
       Some rest \<Rightarrow> rbind (split_host_port rest) (\<lambda>(host, port). Inr (Tcp host port))
     | None \<Rightarrow>
       (case strip_prefix ''telnet://'' device of
          Some rest \<Rightarrow> rbind (split_host_port rest) (\<lambda>(host, port). Inr (Telnet host port))
        | None \<Rightarrow> Inr (Serial device baud_rate)))"

text \<open>The host is what stands before the last colon, so an address with colons is split there.\<close>

lemma split_host_port_text:
  "split_host_port (host @ CHR '':'' # nat_text (unat (port :: u16))) = Inr (host, port)"
proof -
  have "CHR '':'' \<notin> set (nat_text n)" for n
    using nat_text_digits [of n] by (auto simp: list_all_iff is_digit_def)
  then have "rsplit_once (CHR '':'') (host @ CHR '':'' # nat_text (unat port)) = Some (host, nat_text (unat port))"
    by (simp add: rsplit_once_Some)
  moreover have "uint port \<le> 65535" using unsigned_less [of port, where ?'a = int] by simp
  then have "parse_int 0 65535 (nat_text (unat port)) = Some (int (unat port))"
    using parse_int_text [of 0 "int (unat port)" 65535] by (simp add: int_text_def)
  ultimately show ?thesis by (simp add: split_host_port_def ok_or_def result_simps)
qed

lemma open_device_termhub:
  "open_device (''termhub://'' @ host @ CHR '':'' # nat_text (unat (port :: u16))) baud = Inr (Tcp host port)"
  using split_host_port_text [of host port] by (simp add: open_device_def result_simps)

end
