(* ===== verification/Yang_Catalog_Files.thy ===== *)
theory Yang_Catalog_Files
  imports Yang_Build
begin

text \<open>
  The acquisition of a catalog (\<open>src/yang/src/catalog.rs\<close>): the files of the workspace, of a
  directory or of a tarball, their tailoring, and the download into the cache directory. YAML,
  gunzip and tar are crates and commands are run by the system, so each is a parameter.
\<close>

section \<open>The files of a catalog\<close>

record catalog_files =
  yang_files :: "string list"
  sid_files :: "string list"
  tailoring_file :: "string option"

text \<open>The structures that \<open>serde\<close> fills from \<open>ui-tailoring.yaml\<close>.\<close>

record tailoring_identity =
  accepted_identity :: string

record accept_list_entry =
  entry_base :: string
  entry_accept_list :: "tailoring_identity list"

record identityref_accept_list_entry =
  entry_leaf :: string
  leaf_accept_list :: "tailoring_identity list"

record tailoring_yang_data =
  accepted_yang_data :: string

record ui_tailoring_file =
  identity_accept_list :: "accept_list_entry list"
  identityref_accept_list :: "identityref_accept_list_entry list"
  yang_data_accept_list :: "tailoring_yang_data list"

record ui_tailoring =
  identity_accept_lists :: "(string \<times> string list) list"
  identityref_accept_lists :: "(string \<times> string list) list"
  implemented_yang_data :: "string list"

definition no_tailoring :: ui_tailoring where
  "no_tailoring = \<lparr>identity_accept_lists = [], identityref_accept_lists = [], implemented_yang_data = []\<rparr>"

datatype catalog_error =
  Parsing string string
| Reading string string
| Schema_problem schema_error
| Bad_tarball string
| Bad_entry_path string
| Bad_entry_content string string
| Extracting string
| No_command string
| Command_failed string string
| Exit_status string string string
| Catalog_not_found string "catalog_error option"

definition accepted_names :: "tailoring_identity list \<Rightarrow> string list" where
  "accepted_names l = map accepted_identity l"

definition parse_ui_tailoring :: "(string \<Rightarrow> string + ui_tailoring_file) \<Rightarrow> string \<Rightarrow> catalog_error + ui_tailoring" where
  "parse_ui_tailoring from_yaml text =
    (case from_yaml text of
       Inl e \<Rightarrow> Inl (Parsing ''ui-tailoring.yaml'' e)
     | Inr file \<Rightarrow> Inr
        \<lparr>identity_accept_lists =
           map (\<lambda>e. (entry_base e, accepted_names (entry_accept_list e))) (identity_accept_list file),
         identityref_accept_lists =
           map (\<lambda>e. (entry_leaf e, accepted_names (leaf_accept_list e))) (identityref_accept_list file),
         implemented_yang_data = map accepted_yang_data (yang_data_accept_list file)\<rparr>)"

definition tailoring_of :: "(string \<Rightarrow> string + ui_tailoring_file) \<Rightarrow> catalog_files \<Rightarrow> catalog_error + ui_tailoring" where
  "tailoring_of from_yaml files =
    (case tailoring_file files of
       Some text \<Rightarrow> parse_ui_tailoring from_yaml text
     | None \<Rightarrow> Inr no_tailoring)"

text \<open>The accept lists are borrowed as slices; the keys and the lists are zipped again.\<close>

definition accepted_slices :: "(string \<times> string list) list \<Rightarrow> string list list" where
  "accepted_slices ls = map snd ls"

definition as_slices :: "(string \<times> string list) list \<Rightarrow> string list list \<Rightarrow> (string \<times> string list) list" where
  "as_slices ls slices = map (\<lambda>((key, _), accepted). (key, accepted)) (zip ls slices)"

lemma as_slices_same [simp]: "as_slices ls (accepted_slices ls) = ls"
  unfolding as_slices_def accepted_slices_def by (induction ls) auto

text \<open>
  \<open>d\<close> is the depth fuel of the builder; the readers of YAML and of SID files are the crates'.
\<close>

definition build_catalog_schema :: "nat \<Rightarrow> (string \<Rightarrow> string + raw_sid_file) \<Rightarrow> (string \<Rightarrow> string + ui_tailoring_file)
    \<Rightarrow> catalog_files \<Rightarrow> catalog_error + schema" where
  "build_catalog_schema d from_json from_yaml files =
     rbind (tailoring_of from_yaml files) (\<lambda>t.
     let by_base = as_slices (identity_accept_lists t) (accepted_slices (identity_accept_lists t));
         by_leaf = as_slices (identityref_accept_lists t) (accepted_slices (identityref_accept_lists t))
     in case build_schema d from_json (yang_files files) (sid_files files) (implemented_yang_data t) by_base by_leaf of
          Inl e \<Rightarrow> Inl (Schema_problem e)
        | Inr S \<Rightarrow> Inr S)"

text \<open>\<open>CatalogFiles::add\<close>\<close>

definition ends_with :: "string \<Rightarrow> string \<Rightarrow> bool" where
  "ends_with s suf \<longleftrightarrow> strip_suffix suf s \<noteq> None"

definition add_file :: "string \<Rightarrow> string \<Rightarrow> catalog_files \<Rightarrow> catalog_files" where
  "add_file name content files =
    (if name = ''ui-tailoring.yaml'' then files\<lparr>tailoring_file := Some content\<rparr>
     else if ends_with name ''.yang'' then files\<lparr>yang_files := yang_files files @ [content]\<rparr>
     else if ends_with name ''.sid'' then files\<lparr>sid_files := sid_files files @ [content]\<rparr>
     else files)"

definition no_files :: catalog_files where
  "no_files = \<lparr>yang_files = [], sid_files = [], tailoring_file = None\<rparr>"

section \<open>The workspace and the cache directory\<close>

text \<open>
  An absolute path is the list of its components. The file system is a parameter: whether a
  path is a regular file, its text, and the entries of a directory in the order they are read,
  each with an error of its own.
\<close>

type_synonym path = "string list"

record file_system =
  is_file :: "path \<Rightarrow> bool"
  read_text :: "path \<Rightarrow> string + string"
  read_dir :: "path \<Rightarrow> string + (string + path) list"

definition path_parts :: "string \<Rightarrow> path" where
  "path_parts s = filter (\<lambda>c. c \<noteq> [] \<and> c \<noteq> ''.'') (split_on (CHR ''/'') s)"

definition path_join :: "path \<Rightarrow> string \<Rightarrow> path" where
  "path_join dir s = (case s of CHR ''/'' # _ \<Rightarrow> path_parts s | _ \<Rightarrow> dir @ path_parts s)"

text \<open>\<open>Path::file_name\<close>\<close>

definition file_name :: "path \<Rightarrow> string option" where
  "file_name p = (if p = [] \<or> last p = ''..'' then None else Some (last p))"

function find_repo_root :: "file_system \<Rightarrow> path \<Rightarrow> path option" where
  "find_repo_root F dir =
    (if is_file F (path_join dir ''support/scripts/gen-cc-nodes.yaml'') then Some dir
     else if dir = [] then None
     else find_repo_root F (butlast dir))"
  by pat_completeness auto
termination by (relation "measure (\<lambda>(F, dir). length dir)") auto

declare find_repo_root.simps [simp del]

definition read_as :: "file_system \<Rightarrow> path \<Rightarrow> catalog_error + string" where
  "read_as F p = (case read_text F p of Inl e \<Rightarrow> Inl (Reading (str_join ''/'' p) e) | Inr t \<Rightarrow> Inr t)"

text \<open>Each SID file and the YANG file of the name before the \<open>@\<close>.\<close>

fun load_entries :: "file_system \<Rightarrow> path \<Rightarrow> string list \<Rightarrow> catalog_files \<Rightarrow> catalog_error + catalog_files" where
  "load_entries F yang_dir [] files = Inr files"
| "load_entries F yang_dir (entry # entries) files =
    (let sid_path = path_join yang_dir entry;
         yang_path = path_join yang_dir (hd (split_on (CHR ''@'') entry) @ ''.yang'')
     in rbind (read_as F sid_path) (\<lambda>sid.
        rbind (read_as F yang_path) (\<lambda>yang.
        load_entries F yang_dir entries
          (files\<lparr>sid_files := sid_files files @ [sid], yang_files := yang_files files @ [yang]\<rparr>))))"

definition load_workspace :: "(string \<Rightarrow> string + string list) \<Rightarrow> file_system \<Rightarrow> path \<Rightarrow> catalog_error + catalog_files" where
  "load_workspace from_yaml F repo_root =
    (let cfg_path = path_join repo_root ''support/scripts/gen-cc-nodes.yaml'';
         yang_dir = path_join repo_root ''docs/sw_refs/yang''
     in rbind (read_as F cfg_path) (\<lambda>text.
        rbind (case from_yaml text of Inl e \<Rightarrow> Inl (Parsing (str_join ''/'' cfg_path) e) | Inr l \<Rightarrow> Inr l) (\<lambda>entries.
        rbind (load_entries F yang_dir entries no_files) (\<lambda>files.
        Inr (files\<lparr>tailoring_file :=
          (case read_text F (path_join repo_root ''docs/sw_refs/yang/ui-tailoring.yaml'') of
             Inl _ \<Rightarrow> None | Inr t \<Rightarrow> Some t)\<rparr>)))))"

fun load_dir_entries :: "file_system \<Rightarrow> (string + path) list \<Rightarrow> catalog_files \<Rightarrow> catalog_error + catalog_files" where
  "load_dir_entries F [] files = Inr files"
| "load_dir_entries F (r # rs) files =
     rbind (case r of Inl e \<Rightarrow> Inl (Reading [] e) | Inr p \<Rightarrow> Inr p) (\<lambda>p.
     if is_file F p then
       rbind (case read_text F p of Inl e \<Rightarrow> Inl (Reading [] e) | Inr t \<Rightarrow> Inr t) (\<lambda>content.
       load_dir_entries F rs (add_file (case file_name p of Some n \<Rightarrow> n | None \<Rightarrow> []) content files))
     else load_dir_entries F rs files)"

definition load_from_dir :: "file_system \<Rightarrow> path \<Rightarrow> catalog_error + catalog_files" where
  "load_from_dir F dir =
     rbind (case read_dir F dir of Inl e \<Rightarrow> Inl (Reading [] e) | Inr ps \<Rightarrow> Inr ps) (\<lambda>ps.
     load_dir_entries F ps no_files)"

section \<open>The tarball\<close>

text \<open>
  The archive is a parameter: the error of opening it, or its entries, each with its own error.
  \<open>components().count()\<close> counts a leading \<open>/\<close> or \<open>.\<close> too.
\<close>

record tar_entry =
  entry_is_file :: bool
  entry_path :: "string + string"
  entry_text :: "string + string"

definition component_count :: "string \<Rightarrow> nat" where
  "component_count s =
    length (path_parts s) +
    (case s of CHR ''/'' # _ \<Rightarrow> 1 | _ \<Rightarrow> if hd (split_on (CHR ''/'') s) = ''.'' then 1 else 0)"

fun load_tar_entries :: "(string + tar_entry) list \<Rightarrow> catalog_files \<Rightarrow> catalog_error + catalog_files" where
  "load_tar_entries [] files = Inr files"
| "load_tar_entries (r # rs) files =
     rbind (case r of Inl e \<Rightarrow> Inl (Bad_tarball e) | Inr e \<Rightarrow> Inr e) (\<lambda>e.
     if \<not> entry_is_file e then load_tar_entries rs files
     else
       rbind (case entry_path e of Inl x \<Rightarrow> Inl (Bad_entry_path x) | Inr p \<Rightarrow> Inr p) (\<lambda>p.
       if component_count p \<noteq> 1 then load_tar_entries rs files
       else
         (let name = (if utf8_ok (as_bytes p) then p else []) in
          rbind (case entry_text e of Inl x \<Rightarrow> Inl (Bad_entry_content name x) | Inr t \<Rightarrow> Inr t) (\<lambda>content.
          load_tar_entries rs (add_file name content files)))))"

definition load_from_tarball :: "(bytes \<Rightarrow> string + (string + tar_entry) list) \<Rightarrow> bytes \<Rightarrow> catalog_error + catalog_files" where
  "load_from_tarball untar bs =
     rbind (case untar bs of Inl e \<Rightarrow> Inl (Bad_tarball e) | Inr es \<Rightarrow> Inr es) (\<lambda>es.
     load_tar_entries es no_files)"

section \<open>The download\<close>

text \<open>What running a command gives: not found, not runnable, or its end.\<close>

datatype command_output =
  Not_found
| Cannot_run string
| Exited (exit_ok: bool) (exit_text: string) (exit_stdout: bytes) (exit_stderr: string)

definition run_command_capturing_stdout ::
  "(string \<Rightarrow> string list \<Rightarrow> command_output) \<Rightarrow> string \<Rightarrow> string list \<Rightarrow> catalog_error + bytes" where
  "run_command_capturing_stdout run program args =
    (case run program args of
       Not_found \<Rightarrow> Inl (No_command program)
     | Cannot_run e \<Rightarrow> Inl (Command_failed program e)
     | Exited success code out err \<Rightarrow>
         if success then Inr out else Inl (Exit_status program code (str_trim err)))"

definition REMOTE_CATALOGS :: "string list" where
  "REMOTE_CATALOGS =
    [''http://mscc-ent-open-source.s3-website-eu-west-1.amazonaws.com/public_root/velocitydrivesp/yang-by-sha'',
     ''https://artifacts.microchip.com/artifactory/UNGE-generic-local/lmstax/yang-by-sha'']"

definition mirror_url :: "string \<Rightarrow> string \<Rightarrow> string" where
  "mirror_url mirror checksum = mirror @ ''/'' @ checksum @ ''.tar.gz''"

fun try_mirrors :: "(string \<Rightarrow> string list \<Rightarrow> command_output) \<Rightarrow> string \<Rightarrow> string list \<Rightarrow> catalog_error option
    \<Rightarrow> catalog_error + bytes" where
  "try_mirrors run checksum [] last_err = Inl (Catalog_not_found checksum last_err)"
| "try_mirrors run checksum (mirror # mirrors) last_err =
    (case run_command_capturing_stdout run ''curl'' [''-fsSL'', mirror_url mirror checksum] of
       Inr bs \<Rightarrow> Inr bs
     | Inl e \<Rightarrow> try_mirrors run checksum mirrors (Some e))"

definition fetch_with_curl :: "(string \<Rightarrow> string list \<Rightarrow> command_output) \<Rightarrow> string \<Rightarrow> catalog_error + bytes" where
  "fetch_with_curl run checksum = try_mirrors run checksum REMOTE_CATALOGS None"

definition run_external_fetcher ::
  "(string \<Rightarrow> string list \<Rightarrow> command_output) \<Rightarrow> string \<Rightarrow> string \<Rightarrow> catalog_error + bytes" where
  "run_external_fetcher run command checksum = run_command_capturing_stdout run command [checksum]"

text \<open>
  The cache directory of a checksum: its marker file, the files unpacked into it, and the errors
  of the system when the directory cannot be made or the marker not written. The crate's
  \<open>unpack\<close> leaves its files, and its error if it stops early.
\<close>

record cache_dir =
  complete :: bool
  unpacked :: "(string \<times> string) list"
  create_error :: "string option"
  marker_error :: "string option"

type_synonym unpacker = "bytes \<Rightarrow> (string \<times> string) list \<Rightarrow> string option \<times> (string \<times> string) list"

definition extract_tarball :: "unpacker \<Rightarrow> bytes \<Rightarrow> cache_dir \<Rightarrow> (catalog_error + unit) \<times> cache_dir" where
  "extract_tarball unpack tarball c =
    (case unpack tarball (unpacked c) of
       (Some e, fs) \<Rightarrow> (Inl (Extracting e), c\<lparr>unpacked := fs\<rparr>)
     | (None, fs) \<Rightarrow> (Inr (), c\<lparr>unpacked := fs\<rparr>))"

definition download_and_extract ::
  "(string \<Rightarrow> string list \<Rightarrow> command_output) \<Rightarrow> unpacker \<Rightarrow> string \<Rightarrow> string option \<Rightarrow> cache_dir
    \<Rightarrow> (catalog_error + unit) \<times> cache_dir" where
  "download_and_extract run unpack checksum fetcher c =
    (if complete c then (Inr (), c)
     else if create_error c \<noteq> None then (Inl (Reading [] (the (create_error c))), c)
     else
       (case (case fetcher of
                Some command \<Rightarrow> run_external_fetcher run command checksum
              | None \<Rightarrow> fetch_with_curl run checksum) of
          Inl e \<Rightarrow> (Inl e, c)
        | Inr tarball \<Rightarrow>
            (case extract_tarball unpack tarball c of
               (Inl e, c') \<Rightarrow> (Inl e, c')
             | (Inr _, c') \<Rightarrow>
                 (case marker_error c' of
                    Some e \<Rightarrow> (Inl (Reading [] e), c')
                  | None \<Rightarrow> (Inr (), c'\<lparr>complete := True\<rparr>)))))"

section \<open>What the acquisition guarantees\<close>

lemma find_repo_root_nearest:
  "find_repo_root F dir = Some r \<Longrightarrow>
     is_file F (path_join r ''support/scripts/gen-cc-nodes.yaml'') \<and> (\<exists>below. dir = r @ below \<and>
       (\<forall>p q. p \<noteq> [] \<and> below = p @ q \<longrightarrow> \<not> is_file F (path_join (r @ p) ''support/scripts/gen-cc-nodes.yaml'')))"
proof (induction F dir rule: find_repo_root.induct)
  case (1 F dir)
  show ?case
  proof (cases "is_file F (path_join dir ''support/scripts/gen-cc-nodes.yaml'')")
    case True
    with 1 show ?thesis by (simp add: find_repo_root.simps [of F dir])
  next
    case False
    with 1(2) have d: "dir \<noteq> []" and r: "find_repo_root F (butlast dir) = Some r"
      by (auto simp: find_repo_root.simps [of F dir] split: if_splits)
    obtain below where b: "butlast dir = r @ below"
      and *: "is_file F (path_join r ''support/scripts/gen-cc-nodes.yaml'')"
      and n: "\<And>p q. p \<noteq> [] \<Longrightarrow> below = p @ q \<Longrightarrow> \<not> is_file F (path_join (r @ p) ''support/scripts/gen-cc-nodes.yaml'')"
      using 1(1) [OF False d r] by blast
    have dir: "dir = r @ (below @ [last dir])" using d b by (metis append.assoc append_butlast_last_id)
    have "\<not> is_file F (path_join (r @ p) ''support/scripts/gen-cc-nodes.yaml'')"
      if "p \<noteq> []" "below @ [last dir] = p @ q" for p q
    proof (cases "q = []")
      case True
      with that have "r @ p = dir" using dir by simp
      then show ?thesis using False by simp
    next
      case q: False
      with that(2) have "below = p @ butlast q" by (metis butlast_append butlast_snoc)
      then show ?thesis using n [OF that(1)] by blast
    qed
    then show ?thesis using * dir by blast
  qed
qed

lemma try_mirrors_first:
  "try_mirrors run checksum mirrors e = Inr bs \<Longrightarrow>
     \<exists>pre m post. mirrors = pre @ m # post
       \<and> run_command_capturing_stdout run ''curl'' [''-fsSL'', mirror_url m checksum] = Inr bs
       \<and> (\<forall>n \<in> set pre. \<exists>e. run_command_capturing_stdout run ''curl'' [''-fsSL'', mirror_url n checksum] = Inl e)"
proof (induction mirrors arbitrary: e)
  case (Cons m ms)
  show ?case
  proof (cases "run_command_capturing_stdout run ''curl'' [''-fsSL'', mirror_url m checksum]")
    case (Inl x)
    with Cons.prems have "try_mirrors run checksum ms (Some x) = Inr bs" by simp
    from Cons.IH [OF this] obtain pre n post where *: "ms = pre @ n # post"
      "run_command_capturing_stdout run ''curl'' [''-fsSL'', mirror_url n checksum] = Inr bs"
      "\<forall>n \<in> set pre. \<exists>e. run_command_capturing_stdout run ''curl'' [''-fsSL'', mirror_url n checksum] = Inl e" by blast
    then have "m # ms = (m # pre) @ n # post" by simp
    with * Inl show ?thesis by (metis set_ConsD)
  next
    case (Inr y)
    with Cons.prems have "y = bs" by simp
    with Inr show ?thesis by (metis append_Nil empty_iff list.set(1))
  qed
qed simp

text \<open>A catalog is downloaded once; an interrupted download is not taken for a complete one.\<close>

lemma download_twice:
  "download_and_extract run unpack checksum fetcher c = (Inr (), c') \<Longrightarrow>
     complete c' \<and> download_and_extract run' unpack' checksum fetcher' c' = (Inr (), c')"
  by (auto simp: download_and_extract_def split: if_splits sum.splits prod.splits option.splits)

lemma download_failed:
  "download_and_extract run unpack checksum fetcher c = (Inl e, c') \<Longrightarrow> \<not> complete c'"
  by (auto simp: download_and_extract_def extract_tarball_def split: if_splits sum.splits prod.splits option.splits)

end
