(* ===== verification/Fercc_Options.thy ===== *)
theory Fercc_Options
  imports Yang_Codec Mup1_Transport Yang_Catalog_Files Coap_Client
begin

text \<open>
  The options of the command line and the files it reads and writes (\<open>src/fercc/src/opts.rs\<close>,
  \<open>src/fercc/src/io.rs\<close> and the helpers of \<open>src/fercc/src/lib.rs\<close>). The command line parser, the
  JSON and YAML crates and the files themselves are outside.
\<close>

section \<open>Errors\<close>

text \<open>The reasons for which a command ends with an error message.\<close>

datatype cli_error =
  Duplicate_query string
| Dtls_unsupported
| No_device
| No_method
| Bad_device string device_error
| Query_not_allowed string
| Json_parse string
| Yaml_parse string
| Json_encode string
| Yaml_encode string
| Reading_failed string string
| Not_a_list string
| Payload_not_a_list
| Needs_an_object string
| Method_not_implemented string
| Unsupported_conversion string string
| Codec codec_error
| Coap coap_error
| Catalog catalog_error
| No_workspace
| No_home
| Checksum_refused u8 u8
| Checksum_undecodable cbor_error
| Checksum_not_a_map
| Checksum_empty
| Checksum_not_bytes
| Too_many_data_files "string list"
| Only_one_kind
| No_data_file "string list"
| Sids_not_needed
| Unexpected_files "string list"
| No_yang_files
| Document_problem string

section \<open>Options\<close>

record cli_opts =
  opt_device :: "string option"
  opt_key :: "string option"
  opt_checksum_type :: string
  opt_baudrate :: u32
  opt_method :: "string option"
  opt_input :: "string option"
  opt_output :: "string option"
  opt_input_format :: "string option"
  opt_output_format :: "string option"
  opt_query :: "string list"
  opt_continue :: bool
  opt_workspace :: bool
  opt_no_workspace :: bool
  opt_catalog_fetcher :: "string option"

definition workspace_flag :: "bool \<Rightarrow> bool \<Rightarrow> bool option" where
  "workspace_flag ws no_ws = (if ws then Some True else if no_ws then Some False else None)"

text \<open>
  The first two bytes of a query parameter; the slice panics (here: nothing) when they end inside
  a character, which the parser of the command line rules out.
\<close>

definition query_group :: "string \<Rightarrow> string option" where
  "query_group q =
    (if length q \<le> 2 \<or> \<not> cont_byte (as_bytes q ! 2) then Some (take 2 q) else None)"

fun check_groups :: "string list \<Rightarrow> string list \<Rightarrow> (cli_error + unit) option" where
  "check_groups seen [] = Some (Inr ())"
| "check_groups seen (q # qs) =
    (case query_group q of
       None \<Rightarrow> None
     | Some g \<Rightarrow> if g \<in> set seen then Some (Inl (Duplicate_query q)) else check_groups (seen @ [g]) qs)"

definition validate_query :: "string list \<Rightarrow> (cli_error + unit) option" where
  "validate_query query = check_groups [] query"

definition QUERY_VALUES :: "string list" where
  "QUERY_VALUES = [''c=c'', ''c=n'', ''c=a'', ''d=a'', ''d=t'']"

lemma check_groups_accepts:
  "set qs \<subseteq> set QUERY_VALUES \<Longrightarrow>
     check_groups seen qs = Some (Inr ()) \<longleftrightarrow> distinct (map (take 2) qs) \<and> set (map (take 2) qs) \<inter> set seen = {}"
proof (induction qs arbitrary: seen)
  case (Cons q qs)
  then have "query_group q = Some (take 2 q)"
    by (auto simp: query_group_def QUERY_VALUES_def as_bytes_def cont_byte_def)
  with Cons show ?case by auto
qed simp

lemma check_groups_returns: "set qs \<subseteq> set QUERY_VALUES \<Longrightarrow> check_groups seen qs \<noteq> None"
  by (induction qs arbitrary: seen) (auto simp: query_group_def QUERY_VALUES_def as_bytes_def cont_byte_def)

definition url_with_query_params :: "string \<Rightarrow> string list \<Rightarrow> string \<Rightarrow> cli_error + string" where
  "url_with_query_params base query meth =
    (if query = [] then Inr base
     else if meth \<noteq> ''fetch'' \<and> meth \<noteq> ''get'' then Inl (Query_not_allowed meth)
     else Inr (base @ ''?'' @ str_join ''&'' query))"

section \<open>Formats of files\<close>

datatype format = Json | Yaml

definition from_flag :: "string option \<Rightarrow> format option" where
  "from_flag s =
    (if s = Some ''json'' then Some Json else if s = Some ''yaml'' then Some Yaml else None)"

definition from_extension :: "string \<Rightarrow> format option" where
  "from_extension p =
    (if ends_with p ''json'' then Some Json else if ends_with p ''yaml'' then Some Yaml else None)"

definition format_or_yaml :: "format option \<Rightarrow> format" where
  "format_or_yaml f = (case f of Some x \<Rightarrow> x | None \<Rightarrow> Yaml)"

text \<open>
  The outside: the readers and writers of the crates, the files and the standard input.
\<close>

record world =
  from_text :: "format \<Rightarrow> string \<Rightarrow> string + json"
  to_text :: "format \<Rightarrow> json \<Rightarrow> string + string"
  file_bytes :: "string \<Rightarrow> string + bytes"
  stdin_bytes :: "string + bytes"

definition parse_as :: "world \<Rightarrow> string \<Rightarrow> format \<Rightarrow> cli_error + json" where
  "parse_as W text f = (case from_text W f text of
     Inr v \<Rightarrow> Inr v
   | Inl e \<Rightarrow> Inl (case f of Json \<Rightarrow> Json_parse e | Yaml \<Rightarrow> Yaml_parse e))"

definition render :: "world \<Rightarrow> json \<Rightarrow> format \<Rightarrow> cli_error + string" where
  "render W v f = (case f of
     Json \<Rightarrow> (case to_text W Json v of Inl e \<Rightarrow> Inl (Json_encode e) | Inr s \<Rightarrow> Inr s)
   | Yaml \<Rightarrow> (case to_text W Yaml v of
        Inl e \<Rightarrow> Inl (Yaml_encode e)
      | Inr s \<Rightarrow> Inr (if ends_with s nl then s else s @ nl)))"

text \<open>\<open>read_to_string\<close> refuses bytes that are not UTF-8.\<close>

definition text_of :: "string \<Rightarrow> string + bytes \<Rightarrow> cli_error + string" where
  "text_of what r =
    (case r of
       Inl e \<Rightarrow> Inl (Reading_failed what e)
     | Inr bs \<Rightarrow> ok_or (Reading_failed what ''stream did not contain valid UTF-8'') (from_utf8 bs))"

definition bytes_of :: "string \<Rightarrow> string + bytes \<Rightarrow> cli_error + bytes" where
  "bytes_of what r = (case r of Inl e \<Rightarrow> Inl (Reading_failed what e) | Inr bs \<Rightarrow> Inr bs)"

definition read_input :: "world \<Rightarrow> string option \<Rightarrow> string option \<Rightarrow> cli_error + json \<times> format" where
  "read_input W input_file flag =
     rbind (case input_file of
        Some p \<Rightarrow>
          rbind (text_of p (file_bytes W p)) (\<lambda>text.
          Inr (text, format_or_yaml (or_else (from_flag flag) (from_extension p))))
      | None \<Rightarrow>
          rbind (text_of ''stdin'' (stdin_bytes W)) (\<lambda>text.
          Inr (text, format_or_yaml (from_flag flag)))) (\<lambda>(text, f).
     rbind (parse_as W text f) (\<lambda>v.
     Inr (v, f)))"

definition is_nonempty :: "json \<Rightarrow> bool" where
  "is_nonempty v = (case v of
     JNull \<Rightarrow> False | JArray a \<Rightarrow> a \<noteq> [] | JObject ob \<Rightarrow> ob \<noteq> [] | _ \<Rightarrow> True)"

text \<open>What is written: text on the standard output, or the contents of a file.\<close>

datatype cli_output = To_stdout bytes | To_file string bytes

definition trim_newlines :: "string \<Rightarrow> string" where
  "trim_newlines s = rev (dropWhile (\<lambda>c. [c] = nl) (rev s))"

definition print_normalized :: "string \<Rightarrow> cli_output" where
  "print_normalized s = To_stdout (as_bytes (trim_newlines s @ nl))"

definition write_output :: "world \<Rightarrow> json \<Rightarrow> string option \<Rightarrow> string option \<Rightarrow> cli_error + cli_output option" where
  "write_output W v output_file flag =
    (if \<not> is_nonempty v then Inr None
     else case output_file of
       None \<Rightarrow> rbind (render W v (format_or_yaml (from_flag flag))) (\<lambda>s. Inr (Some (print_normalized s)))
     | Some p \<Rightarrow>
         rbind (render W v (format_or_yaml (or_else (from_flag flag) (from_extension p)))) (\<lambda>s.
         Inr (Some (To_file p (as_bytes s)))))"

section \<open>The arguments of the offline commands\<close>

record catalog_args =
  arg_yangs :: "string list"
  arg_sids :: "string list"
  arg_tailoring :: "string option"
  arg_rest :: "string list"

definition add_argument :: "string \<Rightarrow> catalog_args \<Rightarrow> catalog_args" where
  "add_argument f a =
    (if file_name (path_parts f) = Some ''ui-tailoring.yaml'' then a\<lparr>arg_tailoring := Some f\<rparr>
     else if ends_with f ''.yang'' then a\<lparr>arg_yangs := arg_yangs a @ [f]\<rparr>
     else if ends_with f ''.sid'' then a\<lparr>arg_sids := arg_sids a @ [f]\<rparr>
     else a\<lparr>arg_rest := arg_rest a @ [f]\<rparr>)"

definition partition_catalog_files :: "string list \<Rightarrow> catalog_args" where
  "partition_catalog_files files =
     fold add_argument files \<lparr>arg_yangs = [], arg_sids = [], arg_tailoring = None, arg_rest = []\<rparr>"

definition is_tailoring :: "string \<Rightarrow> bool" where
  "is_tailoring f \<longleftrightarrow> file_name (path_parts f) = Some ''ui-tailoring.yaml''"

text \<open>The order on the command line only matters within a kind.\<close>

lemma partition_yangs: "arg_yangs (fold add_argument files a) =
    arg_yangs a @ filter (\<lambda>f. \<not> is_tailoring f \<and> ends_with f ''.yang'') files"
  by (induction files arbitrary: a) (simp_all add: add_argument_def is_tailoring_def)

lemma partition_sids: "arg_sids (fold add_argument files a) =
    arg_sids a @ filter (\<lambda>f. \<not> is_tailoring f \<and> \<not> ends_with f ''.yang'' \<and> ends_with f ''.sid'') files"
  by (induction files arbitrary: a) (simp_all add: add_argument_def is_tailoring_def)

lemma partition_rest: "arg_rest (fold add_argument files a) =
    arg_rest a @ filter (\<lambda>f. \<not> is_tailoring f \<and> \<not> ends_with f ''.yang'' \<and> \<not> ends_with f ''.sid'') files"
  by (induction files arbitrary: a) (simp_all add: add_argument_def is_tailoring_def)

end
