(* ===== verification/Fercc_Convert.thy ===== *)
theory Fercc_Convert
  imports Fercc_Options Yang_Tree Yang_Build_Sample
begin

text \<open>
  The command \<open>conv\<close> (\<open>src/fercc/src/lib.rs\<close>): the schema it loads, the conversion between the
  encodings, and the round trip of a data tree through it.
\<close>

section \<open>Schemas\<close>

text \<open>
  What the commands find outside beside \<open>world\<close>: the directory they run in, the file system,
  the readers of the YAML and SID files, the depth fuel of the builder, the regular expressions
  and texts of numbers of the codec, and the home directory with the caches below it.
\<close>

record site =
  outer :: world
  cwd :: "string + path"
  disk :: file_system
  read_sid_file :: "string \<Rightarrow> string + raw_sid_file"
  read_tailoring :: "string \<Rightarrow> string + ui_tailoring_file"
  read_nodes_cfg :: "string \<Rightarrow> string + string list"
  nesting :: nat
  codec_of :: "schema \<Rightarrow> codec_env"

definition build_schema_from_catalog_files :: "site \<Rightarrow> catalog_files \<Rightarrow> cli_error + schema" where
  "build_schema_from_catalog_files Q files =
    (case build_catalog_schema (nesting Q) (read_sid_file Q) (read_tailoring Q) files of
       Inl e \<Rightarrow> Inl (Catalog e) | Inr S \<Rightarrow> Inr S)"

definition load_workspace_schema :: "site \<Rightarrow> cli_error + schema" where
  "load_workspace_schema Q =
     rbind (case cwd Q of Inl e \<Rightarrow> Inl (Reading_failed [] e) | Inr d \<Rightarrow> Inr d) (\<lambda>dir.
     rbind (ok_or No_workspace (find_repo_root (disk Q) dir)) (\<lambda>root.
     rbind (case load_workspace (read_nodes_cfg Q) (disk Q) root of Inl e \<Rightarrow> Inl (Catalog e) | Inr f \<Rightarrow> Inr f) (\<lambda>files.
     build_schema_from_catalog_files Q files)))"

definition read_named :: "site \<Rightarrow> string \<Rightarrow> cli_error + string" where
  "read_named Q p = text_of p (file_bytes (outer Q) p)"

definition build_explicit_schema :: "site \<Rightarrow> string list \<Rightarrow> string list \<Rightarrow> string option \<Rightarrow> cli_error + schema" where
  "build_explicit_schema Q yangs sids tailoring =
     rbind (rmap (read_named Q) yangs) (\<lambda>ys.
     rbind (rmap (read_named Q) sids) (\<lambda>ss.
     rbind (case tailoring of None \<Rightarrow> Inr None | Some p \<Rightarrow> rbind (read_named Q p) (\<lambda>t. Inr (Some t))) (\<lambda>t.
     build_schema_from_catalog_files Q \<lparr>yang_files = ys, sid_files = ss, tailoring_file = t\<rparr>)))"

section \<open>Conversion\<close>

definition content_format_of :: "string \<Rightarrow> content_format" where
  "content_format_of s =
    (if s = ''fetch'' then Yang_Values.Fetch else if s = ''ipatch'' then Yang_Values.Ipatch
     else if s = ''post'' then Yang_Values.Post else if s = ''put'' then Yang_Values.Put
     else if s = ''get'' then Yang_Values.Get else Yang_Values.Yang)"

datatype conv_input = In_text string | In_bytes bytes
datatype conv_output = Out_text string | Out_bytes bytes

text \<open>The closures \<open>text\<close> and \<open>bytes\<close> panic on the other variant.\<close>

definition with_text :: "conv_input \<Rightarrow> (string \<Rightarrow> 'a) \<Rightarrow> 'a option" where
  "with_text input f = (case input of In_text t \<Rightarrow> Some (f t) | In_bytes _ \<Rightarrow> None)"

definition with_bytes :: "conv_input \<Rightarrow> (bytes \<Rightarrow> 'a) \<Rightarrow> 'a option" where
  "with_bytes input f = (case input of In_bytes b \<Rightarrow> Some (f b) | In_text _ \<Rightarrow> None)"

definition codec_result :: "'a codec \<Rightarrow> cli_error + 'a" where
  "codec_result r = (case r of Inl e \<Rightarrow> Inl (Codec e) | Inr v \<Rightarrow> Inr v)"

lemma codec_result_Inr [result_simps]: "codec_result r = Inr v \<longleftrightarrow> r = Inr v"
  by (simp add: codec_result_def split: sum.splits)

definition encode_payload :: "codec_env \<Rightarrow> json \<Rightarrow> content_format \<Rightarrow> bool \<Rightarrow> cli_error + bytes" where
  "encode_payload E v cf cont =
    (if is_sequence cf then
       rbind (ok_or Payload_not_a_list (as_json_array v)) (\<lambda>items.
       codec_result (json_seq_to_cbor E items cf cont))
     else codec_result (json_to_cbor E v cf cont))"

definition decode_payload :: "codec_env \<Rightarrow> bytes \<Rightarrow> content_format \<Rightarrow> cli_error + json" where
  "decode_payload E bs cf =
    (if is_sequence cf then rbind (codec_result (cbor_seq_to_json E bs cf)) (\<lambda>vs. Inr (JArray vs))
     else codec_result (cbor_to_json E bs cf))"

definition text_format :: "string \<Rightarrow> format" where
  "text_format s = (if s = ''json'' then Json else Yaml)"

definition convert :: "world \<Rightarrow> codec_env \<Rightarrow> string \<Rightarrow> string \<Rightarrow> content_format \<Rightarrow> bool \<Rightarrow> conv_input
    \<Rightarrow> (cli_error + conv_output) option" where
  "convert W E fro into cf cont input =
    (if fro \<in> {''json'', ''yaml''} \<and> into = ''cbor'' then
       with_text input (\<lambda>t.
         rbind (parse_as W t (text_format fro)) (\<lambda>v.
         rbind (encode_payload E v cf cont) (\<lambda>bs. Inr (Out_bytes bs))))
     else if fro = ''cbor'' \<and> into \<in> {''json'', ''yaml''} then
       with_bytes input (\<lambda>bs.
         rbind (decode_payload E bs cf) (\<lambda>v.
         rbind (render W v (text_format into)) (\<lambda>s. Inr (Out_text s))))
     else if fro \<in> {''json'', ''yaml''} \<and> into \<in> {''json'', ''yaml''} then
       with_text input (\<lambda>t.
         rbind (parse_as W t (text_format fro)) (\<lambda>v.
         rbind (render W v (text_format into)) (\<lambda>s. Inr (Out_text s))))
     else if fro = ''cbor'' \<and> into = ''cbor'' then
       with_bytes input (\<lambda>bs.
         rbind (codec_result (normalize_cbor_seq bs)) (\<lambda>out. Inr (Out_bytes out)))
     else Some (Inl (Unsupported_conversion fro into)))"

section \<open>The command conv\<close>

record conv_args =
  conv_input_format :: string
  conv_output_format :: string
  conv_content :: string
  conv_continue :: bool
  conv_files :: "string list"

definition data_source :: "world \<Rightarrow> string option \<Rightarrow> string \<times> (string + bytes)" where
  "data_source W data_file = (case data_file of Some p \<Rightarrow> (p, file_bytes W p) | None \<Rightarrow> (''stdin'', stdin_bytes W))"

definition read_data_file_or_stdin_text :: "world \<Rightarrow> string option \<Rightarrow> cli_error + string" where
  "read_data_file_or_stdin_text W data_file = (case data_source W data_file of (what, r) \<Rightarrow> text_of what r)"

definition read_data_file_or_stdin_bytes :: "world \<Rightarrow> string option \<Rightarrow> cli_error + bytes" where
  "read_data_file_or_stdin_bytes W data_file = (case data_source W data_file of (what, r) \<Rightarrow> bytes_of what r)"

definition conv_schema :: "site \<Rightarrow> catalog_args \<Rightarrow> cli_error + schema" where
  "conv_schema Q a =
    (if arg_yangs a = [] \<and> arg_sids a = [] \<and> arg_tailoring a = None then load_workspace_schema Q
     else if arg_yangs a \<noteq> [] \<and> arg_sids a \<noteq> [] then
       build_explicit_schema Q (arg_yangs a) (arg_sids a) (arg_tailoring a)
     else Inl Only_one_kind)"

definition emit :: "conv_output \<Rightarrow> cli_output" where
  "emit out = (case out of Out_bytes b \<Rightarrow> To_stdout b | Out_text s \<Rightarrow> print_normalized s)"

definition run_conv :: "site \<Rightarrow> conv_args \<Rightarrow> (cli_error + cli_output) option" where
  "run_conv Q args =
    (let a = partition_catalog_files (conv_files args);
         data_file = (case arg_rest a of [] \<Rightarrow> None | f # _ \<Rightarrow> Some f);
         prepared =
           (if 1 < length (arg_rest a) then Inl (Too_many_data_files (arg_rest a))
            else
              rbind (conv_schema Q a) (\<lambda>S.
              if conv_input_format args = ''cbor'' then
                rbind (read_data_file_or_stdin_bytes (outer Q) data_file) (\<lambda>b. Inr (S, In_bytes b))
              else
                rbind (read_data_file_or_stdin_text (outer Q) data_file) (\<lambda>t. Inr (S, In_text t))))
     in case prepared of
          Inl e \<Rightarrow> Some (Inl e)
        | Inr (S, input) \<Rightarrow>
            map_option (\<lambda>r. rbind r (\<lambda>out. Inr (emit out)))
              (convert (outer Q) (codec_of Q S) (conv_input_format args) (conv_output_format args)
                 (content_format_of (conv_content args)) (conv_continue args) input))"

text \<open>The input is always the variant that \<open>convert\<close> asks for.\<close>

lemma run_conv_no_panic: "run_conv Q args \<noteq> None"
proof -
  have "convert W E fro into cf cont input \<noteq> None"
    if "case input of In_bytes _ \<Rightarrow> fro = ''cbor'' | In_text _ \<Rightarrow> fro \<noteq> ''cbor''" for W E fro into cf cont input
    using that by (auto simp: convert_def with_text_def with_bytes_def split: conv_input.splits)
  then show ?thesis
    by (auto simp: run_conv_def Let_def result_simps split: sum.splits if_splits)
qed

section \<open>Text to CBOR and back\<close>

lemma convert_to_cbor:
  assumes "fro \<in> {''json'', ''yaml''}" "from_text W (text_format fro) t = Inr v" "\<not> is_sequence cf"
  shows "convert W E fro ''cbor'' cf cont (In_text t) = Some (Inr (Out_bytes bs)) \<longleftrightarrow> json_to_cbor E v cf cont = Inr bs"
  using assms
  by (auto simp: convert_def with_text_def parse_as_def encode_payload_def result_simps)

lemma convert_from_cbor:
  assumes "into \<in> {''json'', ''yaml''}" "\<not> is_sequence cf" "cbor_to_json E bs cf = Inr v"
    and "render W v (text_format into) = Inr s"
  shows "convert W E ''cbor'' into cf cont (In_bytes bs) = Some (Inr (Out_text s))"
  using assms
  by (auto simp: convert_def with_bytes_def decode_payload_def codec_result_def result_simps)

text \<open>Nothing but \<open>stdin\<close> differs for a second run of the command.\<close>

definition piped :: "site \<Rightarrow> bytes \<Rightarrow> site" where
  "piped Q bs = Q\<lparr>outer := (outer Q)\<lparr>stdin_bytes := Inr bs\<rparr>\<rparr>"

lemma piped_site [simp]:
  "read_named (piped Q bs) = read_named Q" "cwd (piped Q bs) = cwd Q" "disk (piped Q bs) = disk Q"
  "read_nodes_cfg (piped Q bs) = read_nodes_cfg Q" "nesting (piped Q bs) = nesting Q"
  "read_sid_file (piped Q bs) = read_sid_file Q" "read_tailoring (piped Q bs) = read_tailoring Q"
  "codec_of (piped Q bs) = codec_of Q" "stdin_bytes (outer (piped Q bs)) = Inr bs"
  "render (outer (piped Q bs)) = render (outer Q)"
  by (simp_all add: piped_def read_named_def [abs_def] render_def [abs_def])

lemma piped_schema [simp]: "conv_schema (piped Q bs) a = conv_schema Q a"
  by (cases "arg_tailoring a")
    (simp_all add: conv_schema_def load_workspace_schema_def build_explicit_schema_def build_schema_from_catalog_files_def)

lemma run_conv_to_cbor:
  assumes "run_conv Q args = Some (Inr (To_stdout bs))" "conv_input_format args \<in> {''json'', ''yaml''}"
    and "conv_output_format args = ''cbor''" "\<not> is_sequence (content_format_of (conv_content args))"
  obtains S t v where "conv_schema Q (partition_catalog_files (conv_files args)) = Inr S"
    "read_data_file_or_stdin_text (outer Q) (case arg_rest (partition_catalog_files (conv_files args)) of
       [] \<Rightarrow> None | f # _ \<Rightarrow> Some f) = Inr t"
    "from_text (outer Q) (text_format (conv_input_format args)) t = Inr v"
    "json_to_cbor (codec_of Q S) v (content_format_of (conv_content args)) (conv_continue args) = Inr bs"
  using assms
  by (auto simp: run_conv_def Let_def result_simps convert_def with_text_def parse_as_def encode_payload_def emit_def
      split: sum.splits if_splits)

lemma run_conv_from_cbor:
  assumes "conv_schema Q (partition_catalog_files (conv_files args)) = Inr S"
    and "arg_rest (partition_catalog_files (conv_files args)) = []" "stdin_bytes (outer Q) = Inr bs"
    and "conv_input_format args = ''cbor''" "conv_output_format args \<in> {''json'', ''yaml''}"
    and "\<not> is_sequence (content_format_of (conv_content args))"
    and "cbor_to_json (codec_of Q S) bs (content_format_of (conv_content args)) = Inr v"
    and "render (outer Q) v (text_format (conv_output_format args)) = Inr s"
  shows "run_conv Q args = Some (Inr (print_normalized s))"
  using assms convert_from_cbor [OF assms(5-8), of "conv_continue args"]
  by (simp add: run_conv_def Let_def read_data_file_or_stdin_bytes_def data_source_def bytes_of_def emit_def)

text \<open>
  C38: What conv has written as CBOR it reads back: run on JSON or YAML without \<open>--continue\<close>, and
  then on the bytes it printed, with the same catalog files and any settings for a lenient run, the
  command prints the tree it was given, as JSON or YAML. The leaves of the tree are canonical: in
  the decoder's form, and none of type decimal64 (whose text comes back as that of a float), union
  or instance-identifier.
\<close>

theorem conv_roundtrip:
  assumes "run_conv Q args = Some (Inr (To_stdout bs))" "length bs < usize_limit"
    and "conv_input_format args \<in> {''json'', ''yaml''}" "conv_output_format args = ''cbor''"
    and "\<not> conv_continue args" "\<not> is_sequence (content_format_of (conv_content args))"
    and "arg_rest (partition_catalog_files (conv_files args)) = []"
    and "read_data_file_or_stdin_text (outer Q) None = Inr t"
    and "from_text (outer Q) (text_format (conv_input_format args)) t = Inr (JObject obj)"
    and "json_ok (JObject obj)" "distinct (map fst obj)"
    and tidy: "\<forall>S. conv_schema Q (partition_catalog_files (conv_files args)) = Inr S \<longrightarrow> schema_ok (the_schema (codec_of Q S))
      \<and> (\<forall>e \<in> set obj. \<exists>c. root_data_node_by_name (the_schema (codec_of Q S)) (fst e) = Some c
        \<and> tidy (codec_of Q S) (content_format_of (conv_content args)) c (snd e))"
    and "into \<in> {''json'', ''yaml''}" "render (outer Q) (JObject obj) (text_format into) = Inr s"
  shows "run_conv (piped Q bs) (args\<lparr>conv_input_format := ''cbor'', conv_output_format := into, conv_continue := cont\<rparr>)
    = Some (Inr (print_normalized s))"
proof -
  obtain S t' v where S: "conv_schema Q (partition_catalog_files (conv_files args)) = Inr S"
    and t: "read_data_file_or_stdin_text (outer Q) (case arg_rest (partition_catalog_files (conv_files args)) of
       [] \<Rightarrow> None | f # _ \<Rightarrow> Some f) = Inr t'" "from_text (outer Q) (text_format (conv_input_format args)) t' = Inr v"
      "json_to_cbor (codec_of Q S) v (content_format_of (conv_content args)) (conv_continue args) = Inr bs"
    by (rule run_conv_to_cbor [OF assms(1,3,4,6)])
  have enc: "json_to_cbor (codec_of Q S) (JObject obj) (content_format_of (conv_content args)) False = Inr bs"
    using t assms(5,7-9) by simp
  from tidy S have "schema_ok (the_schema (codec_of Q S))" "\<forall>e \<in> set obj. \<exists>c.
      root_data_node_by_name (the_schema (codec_of Q S)) (fst e) = Some c
      \<and> tidy (codec_of Q S) (content_format_of (conv_content args)) c (snd e)" by blast+
  from tree_roundtrip [OF this(1) assms(10,11) this(2) enc assms(2)] show ?thesis
    using S assms(6,7,13,14) by (intro run_conv_from_cbor [where S = S and v = "JObject obj"]) simp_all
qed

text \<open>A site with the files of a small module, and the tree that is piped into the command.\<close>

definition tiny_tree :: "(string \<times> json) list" where
  "tiny_tree = [(''m:top'', JObject [(''x'', JNumber (NInt 5))])]"

definition tiny_bytes :: bytes where
  "tiny_bytes = to_vec (CMap [(CInteger 1000, CMap [(CInteger 1, CInteger 5)])])"

definition tiny_site :: site where
  "tiny_site =
    \<lparr>outer =
      \<lparr>from_text = (\<lambda>f s. if s = ''tree'' then Inr (JObject tiny_tree) else Inl ''unknown''),
       to_text = (\<lambda>f v. if v = JObject tiny_tree then Inr ''tree'' else Inl ''unknown''),
       file_bytes = (\<lambda>p. Inr (as_bytes (if p = ''m.yang'' then concat (print_stmt tiny_module) else []))),
       stdin_bytes = Inr (as_bytes ''tree'')\<rparr>,
     cwd = Inl ''unknown'', disk = \<lparr>is_file = (\<lambda>_. False), read_text = (\<lambda>_. Inl ''unknown''), read_dir = (\<lambda>_. Inl ''unknown'')\<rparr>,
     read_sid_file = (\<lambda>_. Inr tiny_sids),
     read_tailoring = (\<lambda>_. Inl ''unknown''), read_nodes_cfg = (\<lambda>_. Inl ''unknown''), nesting = Suc (Suc (Suc (Suc 0))),
     codec_of = (\<lambda>S. sample_env\<lparr>the_schema := S\<rparr>)\<rparr>"

definition tiny_args :: conv_args where
  "tiny_args = \<lparr>conv_input_format = ''json'', conv_output_format = ''cbor'', conv_content = ''put'',
     conv_continue = False, conv_files = [''m.yang'', ''m.sid'']\<rparr>"

lemma tiny_partition: "partition_catalog_files [''m.yang'', ''m.sid''] =
    \<lparr>arg_yangs = [''m.yang''], arg_sids = [''m.sid''], arg_tailoring = None, arg_rest = []\<rparr>"
  by code_simp

lemma tiny_printed: "utf8_ok (as_bytes (concat (print_stmt tiny_module)))"
  by code_simp

lemma tiny_conv_schema: "conv_schema tiny_site (partition_catalog_files (conv_files tiny_args)) = Inr tiny_schema"
proof -
  have "from_utf8 (as_bytes []) = Some []" by code_simp
  moreover have "build_schema_from_catalog_files tiny_site
      \<lparr>yang_files = [concat (print_stmt tiny_module)], sid_files = [[]], tailoring_file = None\<rparr> = Inr tiny_schema"
    using tiny_modules_schema tiny_build_modules
    by (simp add: build_schema_from_catalog_files_def build_catalog_schema_def tailoring_of_def no_tailoring_def
        as_slices_def accepted_slices_def tiny_site_def Let_def)
  ultimately show ?thesis
    using tiny_printed
    by (simp add: conv_schema_def tiny_args_def tiny_partition build_explicit_schema_def read_named_def text_of_def
        from_utf8_as_bytes, simp add: tiny_site_def from_utf8_as_bytes)
qed

lemma tiny_fits:
  "schema_ok (the_schema (codec_of tiny_site tiny_schema))
    \<and> (\<forall>e \<in> set tiny_tree. \<exists>c. root_data_node_by_name (the_schema (codec_of tiny_site tiny_schema)) (fst e) = Some c
      \<and> tidy (codec_of tiny_site tiny_schema) (content_format_of (conv_content tiny_args)) c (snd e))"
proof -
  let ?E = "sample_env\<lparr>the_schema := tiny_schema\<rparr>"
  have leaf: "tidy ?E Yang_Values.Put 1 (JNumber (NInt 5))"
    by (rule tidy_leaf [where ty = "the (node_ty (nodes tiny_schema ! 1))"]) (simp_all add: tiny_schema_def fresh_node_def, code_simp)
  have child: "find_data_child tiny_schema 0 ''x'' = Some 1" by code_simp
  have kind: "kw (nodes tiny_schema ! 0) = ''container''" by code_simp
  have "tidy ?E Yang_Values.Put 0 (JObject [(''x'', JNumber (NInt 5))])"
    by (intro tidy_container tidy_members) (use leaf child kind in simp_all)
  moreover have "root_data_node_by_name tiny_schema ''m:top'' = Some 0" by code_simp
  moreover have "schema_ok tiny_schema" by (rule schema_okI; code_simp)
  ultimately show ?thesis by (simp add: tiny_site_def tiny_args_def tiny_tree_def content_format_of_def)
qed

theorem conv_roundtrip_witness:
  "run_conv tiny_site tiny_args = Some (Inr (To_stdout tiny_bytes))
    \<and> run_conv (piped tiny_site tiny_bytes)
         (tiny_args\<lparr>conv_input_format := ''cbor'', conv_output_format := ''yaml'', conv_continue := True\<rparr>)
       = Some (Inr (print_normalized (''tree'' @ nl)))"
proof
  let ?E = "sample_env\<lparr>the_schema := tiny_schema\<rparr>"
  have enc: "json_to_cbor ?E (JObject tiny_tree) Yang_Values.Put False = Inr tiny_bytes" by code_simp
  have utf8: "utf8_ok (as_bytes ''tree'')" by code_simp
  show run: "run_conv tiny_site tiny_args = Some (Inr (To_stdout tiny_bytes))"
    using tiny_conv_schema enc utf8
    by (simp add: run_conv_def tiny_args_def tiny_partition Let_def read_data_file_or_stdin_text_def data_source_def text_of_def
        from_utf8_as_bytes convert_def with_text_def parse_as_def encode_payload_def content_format_of_def is_sequence_def
        codec_result_def emit_def tiny_site_def text_format_def result_simps)
  show "run_conv (piped tiny_site tiny_bytes)
      (tiny_args\<lparr>conv_input_format := ''cbor'', conv_output_format := ''yaml'', conv_continue := True\<rparr>)
    = Some (Inr (print_normalized (''tree'' @ nl)))"
  proof (rule conv_roundtrip [OF run, where t = "''tree''" and obj = tiny_tree])
    show "length tiny_bytes < usize_limit"
      by (simp add: tiny_bytes_def to_vec_def encode_head_def usize_limit_def)
    show "read_data_file_or_stdin_text (outer tiny_site) None = Inr ''tree''"
      using utf8 by (simp add: read_data_file_or_stdin_text_def data_source_def text_of_def from_utf8_as_bytes tiny_site_def)
    show "json_ok (JObject tiny_tree)" by (simp add: tiny_tree_def text_ok_def as_bytes_def usize_limit_def)
    show "\<forall>S. conv_schema tiny_site (partition_catalog_files (conv_files tiny_args)) = Inr S \<longrightarrow>
        schema_ok (the_schema (codec_of tiny_site S))
        \<and> (\<forall>e \<in> set tiny_tree. \<exists>c. root_data_node_by_name (the_schema (codec_of tiny_site S)) (fst e) = Some c
          \<and> tidy (codec_of tiny_site S) (content_format_of (conv_content tiny_args)) c (snd e))"
      unfolding tiny_conv_schema using tiny_fits by simp
    show "render (outer tiny_site) (JObject tiny_tree) (text_format ''yaml'') = Inr (''tree'' @ nl)"
      by (simp add: render_def tiny_site_def text_format_def tiny_tree_def ends_with_def strip_suffix_def)
  qed (simp_all add: tiny_args_def tiny_partition tiny_site_def tiny_tree_def content_format_of_def is_sequence_def text_format_def)
qed

end
