(* ===== verification/Fercc_Device.thy ===== *)
theory Fercc_Device
  imports Fercc_Convert Coap_Correct
begin

text \<open>
  The device commands (\<open>src/fercc/src/lib.rs\<close>): the request of each method, the run of the
  request loop, what a response becomes for the user, and the checksum of the device's catalog.
\<close>

section \<open>Requests\<close>

text \<open>\<open>{path: null}\<close> is sent as the bare path.\<close>

definition normalize_fetch_request_item :: "json \<Rightarrow> json" where
  "normalize_fetch_request_item item = (case item of
     JObject [(path, val)] \<Rightarrow> if val = JNull then JString path else item
   | _ \<Rightarrow> item)"

definition normalize_fetch_request_items :: "json list \<Rightarrow> json list" where
  "normalize_fetch_request_items items = map normalize_fetch_request_item items"

definition list_input :: "string \<Rightarrow> json option \<Rightarrow> cli_error + json list" where
  "list_input meth input = ok_or (Not_a_list meth) (Option.bind input as_json_array)"

text \<open>
  What a method sends: the start of the request for a URL, and the format its answer has
  when it succeeds.
\<close>

type_synonym request_call = "string \<Rightarrow> loop_input \<Rightarrow> client \<Rightarrow> (client \<times> request_ctx \<times> outcome) option"

definition prepare_request :: "codec_env \<Rightarrow> json option \<Rightarrow> string \<Rightarrow> bool \<Rightarrow> cli_error + request_call \<times> content_format" where
  "prepare_request E input meth cont =
    (if meth = ''fetch'' then
       rbind (list_input meth input) (\<lambda>items.
       rbind (codec_result (json_seq_to_cbor E (normalize_fetch_request_items items) Yang_Values.Fetch cont)) (\<lambda>req.
       Inr (\<lambda>url. coap_fetch url req, Yang_Values.Fetch)))
     else if meth = ''ipatch'' then
       rbind (list_input meth input) (\<lambda>items.
       rbind (codec_result (json_seq_to_cbor E items Yang_Values.Ipatch cont)) (\<lambda>req.
       Inr (\<lambda>url. coap_ipatch url req, Yang_Values.Ipatch)))
     else if meth = ''get'' then Inr (\<lambda>url. coap_get url, Yang_Values.Get)
     else if meth = ''put'' then
       rbind (ok_or (Needs_an_object meth) input) (\<lambda>v.
       rbind (codec_result (json_to_cbor E v Yang_Values.Put cont)) (\<lambda>req.
       Inr (\<lambda>url. coap_put url req, Yang_Values.Put)))
     else if meth = ''post'' then
       rbind (list_input meth input) (\<lambda>items.
       rbind (codec_result (json_seq_to_cbor E items Yang_Values.Post cont)) (\<lambda>req.
       Inr (\<lambda>url. coap_post url req, Yang_Values.Post)))
     else if meth = ''delete'' then Inr (\<lambda>url. coap_delete url, Yang_Values.Yang)
     else Inl (Method_not_implemented meth))"

section \<open>Running a request\<close>

text \<open>
  The request loop over the inputs of its iterations: it panics, waits for more of them, or
  returns with the client and the result.
\<close>

datatype 'a run = Panicked | Waiting | Returned 'a

fun run_map :: "('a \<Rightarrow> 'b) \<Rightarrow> 'a run \<Rightarrow> 'b run" where
  "run_map f Panicked = Panicked"
| "run_map f Waiting = Waiting"
| "run_map f (Returned x) = Returned (f x)"

definition request_result :: "(client \<times> request_ctx \<times> outcome) option \<Rightarrow> loop_input list
    \<Rightarrow> (client \<times> (coap_error + response)) run" where
  "request_result start inputs =
    (case start of
       None \<Rightarrow> Panicked
     | Some (c, x, out) \<Rightarrow>
        (case steps (loop_step x) inputs out of
           None \<Rightarrow> Panicked
         | Some (Running _) \<Rightarrow> Waiting
         | Some (Finished r m) \<Rightarrow>
             Returned (case m of Some mid \<Rightarrow> c\<lparr>c_msg_id := mid\<rparr> | None \<Rightarrow> c, r)))"

section \<open>Responses\<close>

text \<open>\<open>{:02}\<close>\<close>

definition two_digits :: "nat \<Rightarrow> string" where
  "two_digits n = (if n < 10 then ''0'' @ nat_text n else nat_text n)"

definition code_text :: "response \<Rightarrow> string" where
  "code_text r = nat_text (unat (r_code_class r)) @ ''.'' @ two_digits (unat (r_code_detail r))"

definition no_shape_text :: "response \<Rightarrow> string" where
  "no_shape_text r =
     ''<'' @ nat_text (length (r_payload r)) @ '' bytes, response code '' @ code_text r @ '' has no defined body shape>''"

text \<open>
  How a value is named that the device should not have sent; \<open>quoted\<close> is the standard library's
  \<open>{:?}\<close> of a text. The text of other codec errors (their \<open>Display\<close>) is a parameter.
\<close>

fun describe_cbor :: "(string \<Rightarrow> string) \<Rightarrow> cbor \<Rightarrow> string" where
  "describe_cbor quoted (CInteger i) = ''the number '' @ int_text i"
| "describe_cbor quoted (CText s) = ''the text '' @ quoted s"
| "describe_cbor quoted (CBytes b) = nat_text (length b) @ '' byte(s) of binary data''"
| "describe_cbor quoted (CBool b) = ''the boolean '' @ (if b then ''true'' else ''false'')"
| "describe_cbor quoted CNull = ''null''"
| "describe_cbor quoted (CArray items) = ''a list of '' @ nat_text (length items) @ '' item(s)''"
| "describe_cbor quoted (CMap entries) = ''a map of '' @ nat_text (length entries) @ '' entrie(s)''"
| "describe_cbor quoted (CTag t inner) =
     ''a tagged value (tag '' @ nat_text (unat t) @ '', containing '' @ describe_cbor quoted inner @ '')''"

definition unexpected_value :: "(string \<Rightarrow> string) \<Rightarrow> string \<Rightarrow> cbor \<Rightarrow> string" where
  "unexpected_value quoted expected v =
     ''expected '' @ expected @ '' in the device's response, but got '' @ describe_cbor quoted v @
     '' -- the loaded YANG catalog may not match this device's firmware''"

definition undecodable_text :: "(codec_error \<Rightarrow> string) \<Rightarrow> response \<Rightarrow> codec_error \<Rightarrow> string" where
  "undecodable_text show_error r e =
     ''<could not decode '' @ nat_text (length (r_payload r)) @ ''-byte response payload: '' @ show_error e @ ''>''"

definition response_format :: "response \<Rightarrow> content_format \<Rightarrow> content_format" where
  "response_format r success_format =
    (if r_content_format r = Some 140 then Yang_Values.Yang
     else if r_content_format r = Some 141 \<or> r_content_format r = Some 142 then Yang_Values.Fetch
     else success_format)"

definition has_no_shape :: "response \<Rightarrow> content_format \<Rightarrow> bool" where
  "has_no_shape r success_format \<longleftrightarrow>
     r_code_class r = 2 \<and> success_format \<in> {Yang_Values.Put, Yang_Values.Ipatch}
     \<or> r_code_class r \<noteq> 2 \<and> \<not> (r_code_class r = 4 \<and> r_code_detail r = 0)"

definition decode_response_payload :: "(codec_error \<Rightarrow> string) \<Rightarrow> codec_env \<Rightarrow> response \<Rightarrow> content_format
    \<Rightarrow> json option" where
  "decode_response_payload show_error E r success_format =
    (if r_payload r = [] then None
     else if has_no_shape r success_format then Some (JString (no_shape_text r))
     else
       (let f = response_format r success_format;
            decoded = (if is_sequence f then cbor_seq_to_json E (r_payload r) f
                       else rbind (cbor_to_json E (r_payload r) f) (\<lambda>v. Inr [v]))
        in case decoded of
             Inr [v] \<Rightarrow> Some v
           | Inr vs \<Rightarrow> Some (JArray vs)
           | Inl e \<Rightarrow> Some (JString (undecodable_text show_error r e))))"

text \<open>
  A whole method: what is returned is the value to write, with the client and the line that is
  printed when the response code is not one of success.
\<close>

definition error_line :: "response \<Rightarrow> string option" where
  "error_line r = (if r_code_class r \<noteq> 2 then Some (''ERROR: response code '' @ code_text r) else None)"

definition coap_method_run :: "(codec_error \<Rightarrow> string) \<Rightarrow> codec_env \<Rightarrow> json option \<Rightarrow> string \<Rightarrow> string \<Rightarrow> bool
    \<Rightarrow> loop_input \<Rightarrow> loop_input list \<Rightarrow> client \<Rightarrow> (client \<times> (cli_error + string option \<times> json option)) run" where
  "coap_method_run show_error E input url meth cont first_input inputs c =
    (case prepare_request E input meth cont of
       Inl e \<Rightarrow> Returned (c, Inl e)
     | Inr (start, success_format) \<Rightarrow>
         run_map (\<lambda>(c', r). (c', case r of
             Inl e \<Rightarrow> Inl (Coap e)
           | Inr resp \<Rightarrow> Inr (error_line resp, decode_response_payload show_error E resp success_format)))
           (request_result (start url first_input c) inputs))"

section \<open>Frames that are not CoAP\<close>

text \<open>
  What is printed for such a frame: the text of the console (when it is not blank), a trace or an
  announcement. \<open>from_utf8_lossy\<close> is a parameter.
\<close>

datatype frame_line = Console string | Trace_line string | Announce_line string

definition print_other_frame :: "(bytes \<Rightarrow> string) \<Rightarrow> frame \<Rightarrow> frame_line option" where
  "print_other_frame lossy f =
    (if type_byte f = TYPE_RAW then
       (let trimmed = str_trim (lossy (frame_data f)) in if trimmed \<noteq> [] then Some (Console trimmed) else None)
     else if type_byte f = FRAME_TRACE then Some (Trace_line (lossy (frame_data f)))
     else if type_byte f = FRAME_ANNOUNCE then Some (Announce_line (lossy (frame_data f)))
     else None)"

section \<open>The checksum of the catalog\<close>

definition SID_CHECKSUM :: int where
  "SID_CHECKSUM = 29304"

definition checksum_request :: bytes where
  "checksum_request = to_vec (CInteger SID_CHECKSUM)"

text \<open>\<open>{:02x}\<close> of each byte\<close>

definition hex_char :: "nat \<Rightarrow> char" where
  "hex_char n = (if n < 10 then char_of (48 + n) else char_of (87 + n))"

definition hex_byte :: "u8 \<Rightarrow> string" where
  "hex_byte b = [hex_char (unat b div 16), hex_char (unat b mod 16)]"

definition checksum_of_response :: "response \<Rightarrow> cli_error + string" where
  "checksum_of_response r =
    (if r_code_class r \<noteq> 2 \<or> r_code_detail r \<noteq> 5 then Inl (Checksum_refused (r_code_class r) (r_code_detail r))
     else
       rbind (case from_slice (r_payload r) 0 of Inl e \<Rightarrow> Inl (Checksum_undecodable e) | Inr (v, _) \<Rightarrow> Inr v) (\<lambda>value.
       rbind (ok_or Checksum_not_a_map (as_map value)) (\<lambda>m.
       rbind (ok_or Checksum_empty (case m of [] \<Rightarrow> None | e # _ \<Rightarrow> Some e)) (\<lambda>(_, val).
       rbind (ok_or Checksum_not_bytes (case val of CBytes bs \<Rightarrow> Some bs | _ \<Rightarrow> None)) (\<lambda>bs.
       Inr (concat (map hex_byte bs)))))))"

definition fetch_yang_lib_checksum :: "loop_input \<Rightarrow> loop_input list \<Rightarrow> client \<Rightarrow> (client \<times> (cli_error + string)) run" where
  "fetch_yang_lib_checksum first_input inputs c =
     run_map (\<lambda>(c', r). (c', case r of Inl e \<Rightarrow> Inl (Coap e) | Inr resp \<Rightarrow> checksum_of_response resp))
       (request_result (coap_fetch ''c'' checksum_request first_input c) inputs)"

section \<open>Getting a tree\<close>

lemma to_vec_not_Nil: "to_vec (CMap es) \<noteq> []"
  by (simp add: to_vec_def encode_head_def Let_def)

lemma json_to_cbor_not_Nil: "json_to_cbor E (JObject obj) cf False = Inr bs \<Longrightarrow> bs \<noteq> []"
  by (auto simp: json_to_cbor_def as_object_def encode_whole_tree_def cbor_to_bytes_def lenient_def
      result_simps to_vec_not_Nil split: sum.splits)

lemma decode_tree_payload:
  assumes "cbor_to_json E (r_payload r) Yang_Values.Yang = Inr v" "r_payload r \<noteq> []"
    and "r_content_format r = Some 140" "r_code_class r = 2" "success_format \<notin> {Yang_Values.Put, Yang_Values.Ipatch}"
  shows "decode_response_payload show_error E r success_format = Some v"
  using assms
  by (simp add: decode_response_payload_def response_format_def has_no_shape_def is_sequence_def result_simps Let_def)

text \<open>A request without a body is sent, and waits while nothing arrives and its deadline is ahead.\<close>

definition waiting_state :: "request_ctx \<Rightarrow> client \<Rightarrow> u8 \<Rightarrow> nat \<Rightarrow> bytes list \<Rightarrow> loop_state" where
  "waiting_state x c s deadline sent =
     \<lparr>l_session = session_new (c_msg_id c) s (x_payload x), l_deadline = deadline, l_count = 0,
      l_sent = sent, l_others = []\<rparr>"

lemma get_started:
  assumes "szx_for_size (c_block_size c) = Some s" "in_write_error first_input = None"
  shows "\<exists>c1 x sent. coap_get url first_input c = Some (c1, x, Running (waiting_state x c1 s (in_now_set first_input + RETRANSMIT_MS) sent))
    \<and> c_msg_id c1 = c_msg_id c + 1"
  using assms
  by (auto simp: coap_get_def request_start_def transmit_def send_frame_def body_block_def session_new_def
      waiting_state_def Let_def)

definition silent_until :: "nat \<Rightarrow> loop_input \<Rightarrow> bool" where
  "silent_until deadline i \<longleftrightarrow> in_poll i = Inr [] \<and> in_now i < deadline"

lemma wait_silent:
  assumes "silent_until deadline i"
  shows "loop_step x i (Running (waiting_state x c s deadline sent)) = Some (Running (waiting_state x c s deadline sent))"
  using assms
  by (simp add: silent_until_def loop_step_def loop_body_def waiting_state_def session_new_def Let_def)

lemma steps_silent:
  assumes "list_all (silent_until deadline) idle"
  shows "steps (loop_step x) (idle @ later) (Running (waiting_state x c s deadline sent)) =
    steps (loop_step x) later (Running (waiting_state x c s deadline sent))"
  using assms by (induction idle) (simp_all add: wait_silent)

lemma steps_finished: "steps (loop_step x) later (Finished r m) = Some (Finished r m)"
  by (induction later) (simp_all add: loop_step_def)

definition final_answer :: "parsed_message \<Rightarrow> u16 \<Rightarrow> bool" where
  "final_answer p mid \<longleftrightarrow> pm_type p = Ack \<and> pm_msg_id p = mid \<and> pm_block2 p = None \<and> pm_code p \<noteq> RESPONSE_CONTINUE"

definition response_of :: "parsed_message \<Rightarrow> response" where
  "response_of p = \<lparr>r_code_class = code_class (pm_code p), r_code_detail = code_detail (pm_code p),
     r_content_format = pm_content_format p, r_payload = pm_payload p\<rparr>"

lemma answer_finishes:
  assumes "in_poll i = Inr [f]" "is_coap_frame f" "parse (frame_data f) = Inr p" "final_answer p (c_msg_id c)"
  shows "loop_step x i (Running (waiting_state x c s deadline sent)) =
    Some (Finished (Inr (response_of p)) (Some (c_msg_id c)))"
  using assms
  by (simp add: final_answer_def loop_step_def loop_body_def waiting_state_def on_frame_def process_response_def
      process_continue_def session_new_def finish_request_def response_of_def Let_def)

lemma get_answered:
  assumes "szx_for_size (c_block_size c) \<noteq> None" "in_write_error first_input = None"
    and "list_all (silent_until (in_now_set first_input + RETRANSMIT_MS)) idle"
    and "in_poll i = Inr [f]" "is_coap_frame f" "parse (frame_data f) = Inr p" "final_answer p (c_msg_id c + 1)"
  shows "\<exists>c'. request_result (coap_get url first_input c) (idle @ i # later) = Returned (c', Inr (response_of p))"
proof -
  obtain s where "szx_for_size (c_block_size c) = Some s" using assms(1) by blast
  from get_started [OF this assms(2)] obtain c1 x sent where
    start: "coap_get url first_input c = Some (c1, x, Running (waiting_state x c1 s (in_now_set first_input + RETRANSMIT_MS) sent))"
    and mid: "c_msg_id c1 = c_msg_id c + 1" by blast
  with assms(7) have "final_answer p (c_msg_id c1)" by simp
  from answer_finishes [OF assms(4-6) this]
  show ?thesis
    by (simp add: request_result_def start steps_silent [OF assms(3)] steps_finished)
qed

text \<open>The request waits through any number of empty polls; the acknowledgement with the tree ends it.\<close>

lemma get_returns_tree:
  assumes "schema_ok (the_schema E)" "json_ok (JObject obj)" "distinct (map fst obj)"
    and "\<forall>e \<in> set obj. \<exists>c. root_data_node_by_name (the_schema E) (fst e) = Some c \<and> tidy E Yang_Values.Yang c (snd e)"
    and "json_to_cbor E (JObject obj) Yang_Values.Yang False = Inr bs" "length bs < usize_limit"
    and "szx_for_size (c_block_size c) \<noteq> None" "in_write_error first_input = None"
    and "list_all (silent_until (in_now_set first_input + RETRANSMIT_MS)) idle"
    and "in_poll i = Inr [f]" "is_coap_frame f" "parse (frame_data f) = Inr p" "final_answer p (c_msg_id c + 1)"
    and "code_class (pm_code p) = 2" "pm_content_format p = Some 140" "pm_payload p = bs"
  shows "\<exists>c'. coap_method_run show_error E input url ''get'' cont first_input (idle @ i # later) c
    = Returned (c', Inr (None, Some (JObject obj)))"
proof -
  from get_answered [OF assms(7-13)] obtain c' where
    "request_result (coap_get url first_input c) (idle @ i # later) = Returned (c', Inr (response_of p))" by blast
  moreover have "decode_response_payload show_error E (response_of p) Yang_Values.Get = Some (JObject obj)"
    by (rule decode_tree_payload)
      (use tree_roundtrip [OF assms(1-6)] json_to_cbor_not_Nil [OF assms(5)] assms(14-16) in \<open>simp_all add: response_of_def\<close>)
  moreover have "error_line (response_of p) = None" using assms(14) by (simp add: error_line_def response_of_def)
  ultimately show ?thesis
    by (simp add: coap_method_run_def prepare_request_def)
qed

end
