(* ===== verification/Yang_Json_Schema.thy ===== *)
theory Yang_Json_Schema
  imports Yang_Codec "HOL-Library.List_Lexorder"
begin

text \<open>
  The generator of JSON Schema documents (\<open>src/yang/src/json_schema.rs\<close>): types, nodes and the
  document of a whole catalog. An object lists its members in the order they are inserted.
\<close>

section \<open>The modules in order\<close>

text \<open>\<open>str::cmp\<close> compares bytes.\<close>

definition text_key :: "string \<Rightarrow> nat list" where
  "text_key s = map of_char s"

definition sorted_modules :: "schema \<Rightarrow> yang_module list" where
  "sorted_modules S = sort_key (\<lambda>m. text_key (yang_module_name m)) (map snd (module_root S))"

text \<open>\<open>Schema::structure_roots\<close> lists the roots of structures by name.\<close>

definition structure_root_list :: "schema \<Rightarrow> nat list" where
  "structure_root_list S = map snd (sort_key (\<lambda>e. text_key (fst e)) (structure_roots S))"

section \<open>Results\<close>

text \<open>
  The errors of the generator: a bound that is no JSON number, at the path of a leaf; and where
  the code panics or recurses without end.
\<close>

datatype json_schema_error =
  Bad_bound int
| At_path string json_schema_error
| Panic string
| Overflow

definition at_path :: "string \<Rightarrow> json_schema_error + 'a \<Rightarrow> json_schema_error + 'a" where
  "at_path p r = (case r of Inl (Bad_bound v) \<Rightarrow> Inl (At_path p (Bad_bound v)) | _ \<Rightarrow> r)"

text \<open>\<open>HashSet::insert\<close> in a filter keeps the first of equal texts.\<close>

fun dedup_preserve_order :: "string list \<Rightarrow> string list \<Rightarrow> string list" where
  "dedup_preserve_order seen [] = []"
| "dedup_preserve_order seen (s # ss) =
    (if s \<in> set seen then dedup_preserve_order seen ss else s # dedup_preserve_order (s # seen) ss)"

lemma set_dedup: "set (dedup_preserve_order seen ss) = set ss - set seen"
  by (induction seen ss rule: dedup_preserve_order.induct) auto

definition json_strings :: "string list \<Rightarrow> json" where
  "json_strings items = JArray (map JString items)"

section \<open>Bounds\<close>

definition json_num :: "int \<Rightarrow> json_schema_error + json" where
  "json_num v =
    (if - (2 ^ 63) \<le> v \<and> v < 2 ^ 63 then Inr (JNumber (NInt v))
     else if 0 \<le> v \<and> v < 2 ^ 64 then Inr (JNumber (NInt v))
     else Inl (Bad_bound v))"

text \<open>
  A bound equal to the built-in type's own is left out, at either end of the whole list.
\<close>

definition explicit_bound :: "int \<times> int \<Rightarrow> nat \<Rightarrow> nat \<times> (int \<times> int) \<Rightarrow> (int option \<times> int option) list" where
  "explicit_bound def last_index ir =
    (case ir of (i, lo, hi) \<Rightarrow>
       let lo' = (if i = 0 \<and> lo = fst def then None else Some lo);
           hi' = (if i = last_index \<and> hi = snd def then None else Some hi)
       in if lo' = None \<and> hi' = None then [] else [(lo', hi')])"

definition explicit_bounds :: "type_info \<Rightarrow> (int option \<times> int option) list" where
  "explicit_bounds t =
    (case default_ranges (builtin_of t) of
       [] \<Rightarrow> []
     | d # ds \<Rightarrow>
         concat (map (explicit_bound (fst d, snd (last (d # ds))) (length (ranges t) - 1))
           (enumerate 0 (ranges t))))"

text \<open>\<open>i128\<close> arithmetic that wraps, with a division that rounds toward zero.\<close>

definition wrap_i128 :: "int \<Rightarrow> int" where
  "wrap_i128 i = sint (word_of_int i :: 128 word)"

definition base64_chars :: "int \<Rightarrow> int" where
  "base64_chars n =
    (let m = wrap_i128 (n + 2) in wrap_i128 (4 * (if 0 \<le> m then m div 3 else - ((- m) div 3))))"

definition bound_member :: "string \<Rightarrow> int option \<Rightarrow> json_schema_error + (string \<times> json) list" where
  "bound_member key b = (case b of None \<Rightarrow> Inr [] | Some v \<Rightarrow> rbind (json_num v) (\<lambda>n. Inr [(key, n)]))"

definition bound_object :: "string \<Rightarrow> string \<Rightarrow> int option \<times> int option \<Rightarrow> json_schema_error + json" where
  "bound_object min_key max_key b =
     rbind (bound_member min_key (fst b)) (\<lambda>lo.
     rbind (bound_member max_key (snd b)) (\<lambda>hi.
     Inr (JObject (lo @ hi))))"

definition insert_bounds :: "(string \<times> json) list \<Rightarrow> (int option \<times> int option) list \<Rightarrow> string \<Rightarrow> string
    \<Rightarrow> json_schema_error + (string \<times> json) list" where
  "insert_bounds m bounds min_key max_key =
    (if bounds = [] then Inr m
     else rbind (rmap (bound_object min_key max_key) bounds) (\<lambda>parts.
       Inr (obj_insert ''anyOf'' (JArray parts) m)))"

section \<open>Types\<close>

definition typed :: "string \<Rightarrow> (string \<times> json) list" where
  "typed t = [(''type'', JString t)]"

text \<open>The pattern of a decimal with \<open>fd\<close> fraction digits.\<close>

definition decimal_pattern :: "u8 \<Rightarrow> string" where
  "decimal_pattern fd =
     ''^('' @ backslash @ ''+|-)?'' @ backslash @ ''d*('' @ backslash @ ''.'' @ backslash @ ''d{0,''
     @ nat_text (unat fd) @ ''})?$''"

definition bits_pattern :: "bit_def list \<Rightarrow> string" where
  "bits_pattern bs =
    (let words = ''('' @ str_join ''|'' (map bit_name bs) @ '')''
     in ''^'' @ words @ ''?('' @ backslash @ ''s'' @ words @ '')*$'')"

definition pattern_schema :: "pattern_def \<Rightarrow> json" where
  "pattern_schema p =
    (let r = JObject [(''pattern'', JString (regex p))]
     in if invert_match p then JObject [(''not'', r)] else r)"

definition qualified_identity :: "schema \<Rightarrow> nat \<Rightarrow> string" where
  "qualified_identity S i = identity_module (identities S ! i) @ '':'' @ identity_name (identities S ! i)"

definition identity_enums :: "schema \<Rightarrow> type_info \<Rightarrow> string list" where
  "identity_enums S t = sort_key text_key
    (concat (map (\<lambda>i. qualified_identity S i #
        (if Some (identity_module (identities S ! i)) = source_module t then [identity_name (identities S ! i)] else []))
      (case identity_values t of Some ids \<Rightarrow> ids | None \<Rightarrow> [])))"

text \<open>The first argument bounds the depth of leafrefs and unions.\<close>

fun type2schema :: "nat \<Rightarrow> schema \<Rightarrow> type_descriptor \<Rightarrow> json_schema_error + json" where
  "type2schema 0 S ty = Inl Overflow"
| "type2schema (Suc d) S ty =
    (let t = info ty; b = builtin_of t in
     if b \<in> {Int8, Int16, Int32, Uint8, Uint16, Uint32} then
       rbind (insert_bounds (typed ''integer'') (map (\<lambda>(lo, hi). (Some lo, Some hi)) (ranges t)) ''minimum'' ''maximum'')
         (\<lambda>m. Inr (JObject m))
     else if b \<in> {Int64, Uint64} then Inr (JObject (typed ''string''))
     else if b = Decimal64 then
       Inr (JObject (typed ''string'' @
         [(''pattern'', JString (decimal_pattern (case fraction_digits t of Some fd \<Rightarrow> fd | None \<Rightarrow> 0)))]))
     else if b = Boolean then Inr (JObject (typed ''boolean''))
     else if b = Union_type then
       rbind (rmap (type2schema d S) (union_members ty)) (\<lambda>ms. Inr (JObject [(''anyOf'', JArray ms)]))
     else if b = Enumeration then Inr (JObject [(''enum'', json_strings (map enum_name (type_enums t)))])
     else if b = Empty then
       Inr (JObject (typed ''array'' @ [(''items'', JObject (typed ''null'')),
         (''minItems'', JNumber (NInt 1)), (''maxItems'', JNumber (NInt 1))]))
     else if b = Binary then
       rbind (insert_bounds (typed ''string'' @ [(''contentEncoding'', JString ''base64'')])
           (map (\<lambda>(lo, hi). (map_option base64_chars lo, map_option base64_chars hi)) (explicit_bounds t))
           ''minLength'' ''maxLength'')
         (\<lambda>m. Inr (JObject m))
     else if b = Bits then
       Inr (JObject (typed ''string'' @ [(''pattern'', JString (bits_pattern (type_bits t)))]))
     else if b = Leafref then
       (case leafref_target t of
          None \<Rightarrow> Inl (Panic ''leafref with an unresolved target'')
        | Some i \<Rightarrow>
            (case node_ty (nodes S ! i) of
               None \<Rightarrow> Inl (Panic ''leafref target without a type'')
             | Some u \<Rightarrow> type2schema d S u))
     else if b = Identityref then Inr (JObject [(''enum'', json_strings (identity_enums S t))])
     else if b = String_type then
       rbind (insert_bounds (typed ''string'') (explicit_bounds t) ''minLength'' ''maxLength'') (\<lambda>m.
       Inr (JObject (if patterns t = [] then m
         else obj_insert ''allOf'' (JArray (map pattern_schema (patterns t))) m)))
     else Inr (JObject (typed ''string'')))"

section \<open>Nodes\<close>

text \<open>\<open>d\<close> is the depth fuel of types, \<open>n\<close> that of nodes.\<close>

definition skipped_child :: "schema \<Rightarrow> string \<Rightarrow> nat \<Rightarrow> bool" where
  "skipped_child S cf c \<longleftrightarrow>
     kw (nodes S ! c) \<in> {''rpc'', ''action''} \<or> cf \<in> {''ipatch'', ''put''} \<and> config (nodes S ! c) = Some False"

fun child_schemas :: "(nat \<Rightarrow> json_schema_error + json) \<Rightarrow> schema \<Rightarrow> string \<Rightarrow> nat list
    \<Rightarrow> (string \<times> json) list \<times> string list \<Rightarrow> json_schema_error + (string \<times> json) list \<times> string list" where
  "child_schemas sch S cf [] acc = Inr acc"
| "child_schemas sch S cf (c # cs) (properties, required) =
    (if skipped_child S cf c then child_schemas sch S cf cs (properties, required)
     else
       rbind (sch c) (\<lambda>j.
       child_schemas sch S cf cs (obj_insert (node_name (nodes S ! c)) j properties,
         required @ (if mandatory (nodes S ! c) then [node_name (nodes S ! c)] else []))))"

definition object_head :: "(string \<times> json) list" where
  "object_head = typed ''object'' @ [(''additionalProperties'', JBool False)]"

definition required_member :: "string list \<Rightarrow> (string \<times> json) list" where
  "required_member required = (if required = [] then [] else [(''required'', json_strings required)])"

definition container_schema :: "(string \<times> json) list \<Rightarrow> string list \<Rightarrow> json" where
  "container_schema properties required =
     JObject (object_head @ [(''properties'', JObject properties)] @ required_member required)"

definition entry_schema :: "(string \<times> json) list \<Rightarrow> string list \<Rightarrow> json" where
  "entry_schema properties required =
     JObject (object_head @ [(''required'', json_strings required), (''properties'', JObject properties)])"

definition list_schema :: "string \<Rightarrow> (string \<times> json) list \<Rightarrow> string list \<Rightarrow> json" where
  "list_schema cf properties keys_and_required =
    (let l = JObject (typed ''array'' @ [(''items'', entry_schema properties keys_and_required)])
     in if cf \<in> {''fetch'', ''ipatch''} then
          JObject [(''oneOf'', JArray [l, entry_schema properties keys_and_required])]
        else l)"

definition leaf_type :: "string \<Rightarrow> node \<Rightarrow> json_schema_error + type_descriptor" where
  "leaf_type what nd = ok_or (Panic (what @ '' without a type'')) (node_ty nd)"

definition kind_schema :: "nat \<Rightarrow> schema \<Rightarrow> string \<Rightarrow> nat \<Rightarrow> (string \<times> json) list \<Rightarrow> string list
    \<Rightarrow> json_schema_error + (string \<times> json) list" where
  "kind_schema d S cf i properties required =
    (let nd = nodes S ! i; k = kw nd; obj = (\<lambda>j. case j of JObject m \<Rightarrow> m | _ \<Rightarrow> []) in
     if k = ''container'' then Inr (obj (container_schema properties required))
     else if k = ''leaf'' then
       rbind (leaf_type k nd) (\<lambda>ty.
       rbind (at_path (node_path_of (nodes S) i) (type2schema d S ty)) (\<lambda>j. Inr (obj j)))
     else if k = ''leaf-list'' then
       rbind (leaf_type k nd) (\<lambda>ty.
       rbind (at_path (node_path_of (nodes S) i) (type2schema d S ty)) (\<lambda>j.
       Inr (typed ''array'' @ [(''items'', j)] @
         (if config nd = Some True then [(''uniqueItems'', JBool True)] else []))))
     else if k = ''list'' then
       Inr (obj (list_schema cf properties
         (dedup_preserve_order [] (map (\<lambda>c. node_name (nodes S ! c)) (node_keys nd) @ required))))
     else if k \<in> {''anydata'', ''anyxml''} then Inr []
     else if k \<in> {''input'', ''output''} then
       (if data_children S i = [] then Inr (typed ''null'')
        else Inr (obj (container_schema properties
          (map (\<lambda>c. node_name (nodes S ! c)) (filter (\<lambda>c. mandatory (nodes S ! c)) (data_children S i))))))
     else if k \<in> {''action'', ''rpc''} then
       rbind (ok_or (Panic ''no input node'') (find (\<lambda>c. kw (nodes S ! c) = ''input'') (data_children S i))) (\<lambda>inp.
       rbind (ok_or (Panic ''no output node'') (find (\<lambda>c. kw (nodes S ! c) = ''output'') (data_children S i))) (\<lambda>out.
       if data_children S inp = [] \<and> data_children S out = [] then Inr (typed ''null'')
       else Inr [(''oneOf'', JArray [JObject (typed ''null''),
         JObject (object_head @ [(''properties'', JObject properties)])])]))
     else Inl (Panic (''unexpected node keyword '' @ k)))"

fun node_schema :: "nat \<Rightarrow> nat \<Rightarrow> schema \<Rightarrow> string \<Rightarrow> nat \<Rightarrow> json_schema_error + json" where
  "node_schema 0 d S cf i = Inl Overflow"
| "node_schema (Suc n) d S cf i =
     rbind (child_schemas (node_schema n d S cf) S cf (data_children S i) ([], [])) (\<lambda>(properties, required).
     rbind (kind_schema d S cf i properties required) (\<lambda>m.
     Inr (JObject (case node_description (nodes S ! i) of
       Some desc \<Rightarrow> obj_insert ''description'' (JString desc) m | None \<Rightarrow> m))))"

definition to_json_schema :: "nat \<Rightarrow> schema \<Rightarrow> string \<Rightarrow> nat \<Rightarrow> json_schema_error + json" where
  "to_json_schema d S cf i = node_schema (length (nodes S)) d S cf i"

definition to_json_schema_for_catalog :: "nat \<Rightarrow> schema \<Rightarrow> string \<Rightarrow> json_schema_error + json" where
  "to_json_schema_for_catalog d S cf =
     rbind (child_schemas (to_json_schema d S cf) S cf
       (concat (map (root_data_nodes S) (sorted_modules S))) ([], [])) (\<lambda>(properties, required).
     Inr (JObject ([(''title'', JString ''data-tree-schema''),
         (''$schema'', JString ''http://json-schema.org/draft-07/schema#'')] @
       object_head @ [(''properties'', JObject properties)] @ required_member required)))"

end
