(* ===== verification/Yang_Catalog_Document.thy ===== *)
theory Yang_Catalog_Document
  imports Yang_Json_Schema "HOL-Library.List_Lexorder" Yang_Build
begin

text \<open>
  The catalog document of a schema (\<open>src/yang/src/yang_catalog.rs\<close>, up to \<open>to_yang_catalog\<close>): the
  entries of types, typedefs, identities, nodes and modules, and the index of SIDs.
\<close>

section \<open>Results\<close>

datatype document_error =
  No_sid_of string
| Number_too_large json_schema_error
| No_fraction_digits
| No_path
| Type_missing string string
| Unexpected_keyword string
| Typedef_without_type

definition numbers :: "json_schema_error + 'a \<Rightarrow> document_error + 'a" where
  "numbers r = (case r of Inl e \<Rightarrow> Inl (Number_too_large e) | Inr v \<Rightarrow> Inr v)"

section \<open>Small texts and objects\<close>

definition texts :: "string list \<Rightarrow> json" where
  "texts ss = JArray (map JString ss)"

definition sorted_texts :: "string list \<Rightarrow> json" where
  "sorted_texts ss = texts (sort_key text_key ss)"

type_synonym members = "(string \<times> json) list"

definition sorted_map :: "members \<Rightarrow> members" where
  "sorted_map m = sort_key (\<lambda>e. text_key (fst e)) m"

text \<open>The keys are SIDs in decimal.\<close>

definition sorted_map_numeric :: "members \<Rightarrow> members" where
  "sorted_map_numeric m = sort_key (\<lambda>e. case parse_i64 (fst e) of Some i \<Rightarrow> i | None \<Rightarrow> 0) m"

definition opt_insert :: "string \<Rightarrow> json option \<Rightarrow> members \<Rightarrow> members" where
  "opt_insert key v m = (case v of Some j \<Rightarrow> obj_insert key j m | None \<Rightarrow> m)"

definition status_str :: "yang_status \<Rightarrow> string" where
  "status_str st = (case st of Current \<Rightarrow> ''current'' | Deprecated \<Rightarrow> ''deprecated'' | Obsolete \<Rightarrow> ''obsolete'')"

definition colon_name :: "string \<Rightarrow> string \<Rightarrow> string" where
  "colon_name m name = m @ '':'' @ name"

definition typedef_key :: "string \<Rightarrow> string \<Rightarrow> string" where
  "typedef_key sc name =
    (case sc of CHR ''/'' # _ \<Rightarrow> sc @ '' '' @ name | _ \<Rightarrow> sc @ '':'' @ name)"

definition import_only_module_key :: "string \<Rightarrow> string option \<Rightarrow> string" where
  "import_only_module_key name date = (case date of Some d \<Rightarrow> name @ '' '' @ d | None \<Rightarrow> name)"

definition sid_text :: "i64 \<Rightarrow> string" where
  "sid_text sid = int_text (sint sid)"

definition sid_string :: "i64 option \<Rightarrow> string \<Rightarrow> document_error + string" where
  "sid_string sid what = (case sid of Some v \<Rightarrow> Inr (sid_text v) | None \<Rightarrow> Inl (No_sid_of what))"

section \<open>Types\<close>

definition range_bounds :: "(int \<times> int) list \<Rightarrow> document_error + json" where
  "range_bounds rs =
     rbind (rmap (\<lambda>(lo, hi).
       rbind (numbers (json_num lo)) (\<lambda>a. rbind (numbers (json_num hi)) (\<lambda>b. Inr (JArray [a, b])))) rs) (\<lambda>bs.
     Inr (JArray bs))"

definition range64_bounds :: "(int \<times> int) list \<Rightarrow> json" where
  "range64_bounds rs = JArray (map (\<lambda>(lo, hi). texts [int_text lo, int_text hi]) rs)"

definition with_error_info :: "members \<Rightarrow> error_info \<Rightarrow> json" where
  "with_error_info m e =
     JObject (opt_insert ''error-app-tag'' (map_option JString (error_app_tag e))
       (opt_insert ''error-message'' (map_option JString (error_message e)) m))"

definition range_object :: "type_info \<Rightarrow> document_error + json" where
  "range_object t =
     rbind (range_bounds (ranges t)) (\<lambda>b. Inr (with_error_info [(''bounds'', b)] (range_error t)))"

definition range64_object :: "type_info \<Rightarrow> json" where
  "range64_object t = with_error_info [(''bounds'', range64_bounds (ranges t))] (range_error t)"

definition is_explicitly_restricted :: "type_info \<Rightarrow> bool" where
  "is_explicitly_restricted t \<longleftrightarrow> ranges t \<noteq> default_ranges (builtin_of t)"

definition restriction :: "string \<Rightarrow> (document_error + json) \<Rightarrow> type_info \<Rightarrow> members \<Rightarrow> document_error + members" where
  "restriction key object t m =
    (if is_explicitly_restricted t then rbind object (\<lambda>r. Inr (obj_insert key r m)) else Inr m)"

definition pattern_object :: "pattern_def \<Rightarrow> json" where
  "pattern_object p =
     with_error_info [(''pattern'', JString (regex p)), (''invert-match'', JBool (invert_match p))] (pattern_error p)"

definition type_head :: "schema \<Rightarrow> type_info \<Rightarrow> members" where
  "type_head S t = opt_insert ''base-type''
     (map_option (\<lambda>b. JString (typedef_key (typedef_scope (typedefs S ! b)) (typedef_name (typedefs S ! b)))) (type_base t))
     [(''builtin'', JString (builtin_yang_name (builtin_of t)))]"

definition type_body :: "schema \<Rightarrow> type_info \<Rightarrow> members \<Rightarrow> document_error + members" where
  "type_body S t m =
    (case builtin_of t of
       Binary \<Rightarrow> restriction ''length'' (range_object t) t m
     | Bits \<Rightarrow> Inr (obj_insert ''bit'' (JArray (map (\<lambda>b. JObject [(''name'', JString (bit_name b)),
         (''position'', JNumber (NInt (uint (bit_pos b))))]) (type_bits t))) m)
     | Boolean \<Rightarrow> Inr m
     | Decimal64 \<Rightarrow>
         rbind (ok_or No_fraction_digits (fraction_digits t)) (\<lambda>fd.
         restriction ''range'' (Inr (range64_object t)) t (obj_insert ''fraction-digit'' (JNumber (NInt (uint fd))) m))
     | Empty \<Rightarrow> Inr m
     | Enumeration \<Rightarrow> Inr (obj_insert ''enum'' (JArray (map (\<lambda>e. JObject [(''name'', JString (enum_name e)),
         (''value'', JNumber (NInt (sint (enum_value e))))]) (type_enums t))) m)
     | Identityref \<Rightarrow> Inr (opt_insert ''values'' (map_option (\<lambda>ids. sorted_texts (map (qualified_identity S) ids)) (identity_values t))
         (obj_insert ''base'' (texts (map (qualified_identity S) (identity_bases t))) m))
     | InstanceIdentifier \<Rightarrow> Inr (obj_insert ''require-instance'' (JBool (require_instance t)) m)
     | Int64 \<Rightarrow> restriction ''range'' (Inr (range64_object t)) t m
     | Uint64 \<Rightarrow> restriction ''range'' (Inr (range64_object t)) t m
     | Leafref \<Rightarrow>
         rbind (ok_or No_path (leafref_path t)) (\<lambda>p.
         Inr (obj_insert ''require-instance'' (JBool (require_instance t))
           (opt_insert ''target'' (map_option (\<lambda>i. JString (node_path_of (nodes S) i)) (leafref_target t))
             (obj_insert ''path'' (JString p) m))))
     | String_type \<Rightarrow>
         rbind (restriction ''length'' (range_object t) t m) (\<lambda>m.
         Inr (if patterns t = [] then m else obj_insert ''pattern'' (JArray (map pattern_object (patterns t))) m))
     | Union_type \<Rightarrow> Inr m
     | _ \<Rightarrow> restriction ''range'' (range_object t) t m)"

text \<open>The members of a union come last.\<close>

fun type_document :: "schema \<Rightarrow> type_descriptor \<Rightarrow> document_error + json" where
  "type_document S (Type_descriptor t ms) =
     rbind (type_body S t (type_head S t)) (\<lambda>m.
     if builtin_of t = Union_type then
       rbind (rmap (type_document S) ms) (\<lambda>docs. Inr (JObject (obj_insert ''type'' (JArray docs) m)))
     else Inr (JObject m))"

section \<open>Entries\<close>

definition typedef_entry :: "schema \<Rightarrow> typedef_def \<Rightarrow> document_error + json" where
  "typedef_entry S td =
     rbind (ok_or Typedef_without_type (typedef_ty td)) (\<lambda>ty.
     rbind (type_document S ty) (\<lambda>doc.
     Inr (JObject (opt_insert ''units'' (map_option JString (typedef_units td))
       (opt_insert ''default'' (map_option JString (typedef_default td))
         (obj_insert ''type'' doc
           (opt_insert ''description'' (map_option JString (typedef_description td))
             [(''module'', JString (typedef_module td)), (''name'', JString (typedef_name td))])))))))"

definition identity_entry :: "schema \<Rightarrow> nat \<Rightarrow> document_error + json" where
  "identity_entry S i =
    (let d = identities S ! i in
     rbind (sid_string (identity_sid d) (''identity '' @ qualified_identity S i)) (\<lambda>sid.
     Inr (JObject (opt_insert ''description'' (map_option JString (identity_description d))
           [(''module'', JString (identity_module d)), (''name'', JString (identity_name d))]
         @ [(''sid'', JString sid), (''base'', texts (map (qualified_identity S) (identity_base d)))]))))"

text \<open>The fields that depend on the keyword.\<close>

definition config_member :: "node \<Rightarrow> members \<Rightarrow> members" where
  "config_member nd m = opt_insert ''config'' (map_option JBool (config nd)) m"

definition node_type_document :: "schema \<Rightarrow> nat \<Rightarrow> string \<Rightarrow> document_error + json" where
  "node_type_document S i what =
     rbind (ok_or (Type_missing what (node_path_of (nodes S) i)) (node_ty (nodes S ! i))) (type_document S)"

definition kind_members :: "schema \<Rightarrow> nat \<Rightarrow> members \<Rightarrow> document_error + members" where
  "kind_members S i m =
    (let nd = nodes S ! i; k = kw nd; path = node_path_of (nodes S) in
     if k = ''container'' then Inr (config_member nd m)
     else if k = ''leaf'' then
       rbind (node_type_document S i ''leaf'') (\<lambda>ty.
       Inr (opt_insert ''units'' (map_option JString (node_units nd))
         (opt_insert ''default'' (case node_defaults nd of [] \<Rightarrow> None | x # _ \<Rightarrow> Some (JString x))
           (config_member nd m @ [(''type'', ty), (''mandatory'', JBool (mandatory nd))]))))
     else if k = ''leaf-list'' then
       rbind (node_type_document S i ''leaf-list'') (\<lambda>ty.
       Inr (opt_insert ''units'' (map_option JString (node_units nd))
         (config_member nd m @ [(''type'', ty)] @
           (if node_defaults nd = [] then [] else [(''default'', texts (node_defaults nd))]))))
     else if k = ''list'' then Inr (config_member nd m @ [(''keys'', texts (map path (node_keys nd)))])
     else if k = ''choice'' then
       Inr (opt_insert ''default'' (map_option JString (node_default nd))
         (config_member nd m @ [(''mandatory'', JBool (mandatory nd))]))
     else if k \<in> {''case'', ''rpc'', ''action'', ''input'', ''output'', ''notification''} then Inr m
     else if k \<in> {''anydata'', ''anyxml''} then Inr (config_member nd m @ [(''mandatory'', JBool (mandatory nd))])
     else Inl (Unexpected_keyword k))"

definition node_sid_members :: "schema \<Rightarrow> nat \<Rightarrow> members \<Rightarrow> document_error + members" where
  "node_sid_members S i m =
    (let nd = nodes S ! i in
     if kw nd \<in> {''choice'', ''case''} then
       Inr (opt_insert ''sid'' (map_option (\<lambda>v. JString (sid_text v)) (node_sid nd)) m)
     else
       rbind (sid_string (node_sid nd) (''schema node '' @ node_path_of (nodes S) i)) (\<lambda>sid.
       Inr (obj_insert ''sid'' (JString sid) m)))"

definition schema_node_entry :: "schema \<Rightarrow> nat \<Rightarrow> document_error + json" where
  "schema_node_entry S i =
    (let nd = nodes S ! i; path = node_path_of (nodes S);
         m = opt_insert ''parent'' (map_option (\<lambda>p. JString (path p)) (parent nd))
           [(''keyword'', JString (kw nd)), (''name'', JString (local_name nd)), (''module'', JString (owner_module nd))];
         m = (if kw nd \<in> {''leaf'', ''leaf-list'', ''anydata'', ''anyxml''} then m
              else m @ [(''schema-children'', texts (map path (children nd))),
                        (''data-children'', texts (map path (data_children S i)))]);
         m = opt_insert ''status'' (map_option (\<lambda>st. JString (status_str st)) (node_status nd)) m;
         m = opt_insert ''description'' (map_option JString (node_description nd)) m
     in rbind (node_sid_members S i m) (\<lambda>m.
        rbind (kind_members S i (obj_insert ''implicit'' (JBool (synthetic nd)) m)) (\<lambda>m.
        Inr (JObject m))))"

text \<open>The names of the typedefs and identities of a module.\<close>

definition typedef_names :: "schema \<Rightarrow> string \<Rightarrow> string list" where
  "typedef_names S name =
     map (\<lambda>t. typedef_key (typedef_scope (typedefs S ! t)) (typedef_name (typedefs S ! t)))
       (filter (\<lambda>t. typedef_module (typedefs S ! t) = name) (visible_typedefs S))"

definition identity_names :: "schema \<Rightarrow> (nat \<Rightarrow> bool) \<Rightarrow> string \<Rightarrow> string list" where
  "identity_names S p name =
     map (qualified_identity S) (filter (\<lambda>i. identity_module (identities S ! i) = name \<and> p i) (visible_identities S))"

definition template_key :: "yang_data \<Rightarrow> string" where
  "template_key y = colon_name (yang_data_module y) (yang_data_name y)"

definition module_entry :: "schema \<Rightarrow> yang_module \<Rightarrow> document_error + json" where
  "module_entry S m =
    (let name = yang_module_name m; path = node_path_of (nodes S) in
     rbind (sid_string (module_sid m) (''module '' @ name)) (\<lambda>sid.
     Inr (JObject (opt_insert ''revision'' (map_option JString (revision m))
         [(''namespace'', JString (module_namespace m)), (''sid'', JString sid)] @
       [(''schema-root-nodes'', texts (map path (root_nodes m))),
        (''data-root-nodes'', texts (map path (root_data_nodes S m))),
        (''typedefs'', texts (typedef_names S name)),
        (''identities'', texts (identity_names S (is_implemented S) name)),
        (''yang-data'', texts (map template_key (filter (\<lambda>y. yang_data_module y = name) (yang_datas S)))),
        (''deviations'', sorted_texts (deviated_by m))]))))"

definition import_only_module_entry :: "schema \<Rightarrow> import_only_module \<Rightarrow> document_error + json" where
  "import_only_module_entry S m =
     rbind (sid_string (import_sid m) (''import-only module '' @ import_name m)) (\<lambda>sid.
     Inr (JObject (opt_insert ''revision'' (map_option JString (import_revision_date m))
         [(''name'', JString (import_name m)), (''namespace'', JString (import_namespace m)), (''sid'', JString sid)] @
       [(''typedefs'', texts (typedef_names S (import_name m))),
        (''identities'', texts (identity_names S (\<lambda>_. True) (import_name m)))])))"

text \<open>\<open>subtree\<close> is the order of the recursion over the children.\<close>

definition flatten_subtree :: "schema \<Rightarrow> nat \<Rightarrow> members \<Rightarrow> document_error + members" where
  "flatten_subtree S root out =
     rfold (\<lambda>i out. rbind (schema_node_entry S i) (\<lambda>e. Inr (obj_insert (node_path_of (nodes S) i) e out)))
       (subtree (nodes S) root) out"

definition sid_entry :: "string \<Rightarrow> string \<Rightarrow> json" where
  "sid_entry ns ident = JObject [(''namespace'', JString ns), (''identifier'', JString ident)]"

definition index_sid :: "string \<Rightarrow> string \<Rightarrow> i64 option \<Rightarrow> members \<Rightarrow> members" where
  "index_sid ns ident sid out = (case sid of Some v \<Rightarrow> obj_insert (sid_text v) (sid_entry ns ident) out | None \<Rightarrow> out)"

definition index_node_sids :: "schema \<Rightarrow> nat \<Rightarrow> members \<Rightarrow> members" where
  "index_node_sids S root out =
     fold (\<lambda>i out. index_sid ''data'' (node_path_of (nodes S) i) (node_sid (nodes S ! i)) out)
       (subtree (nodes S) root) out"

section \<open>The document\<close>

definition insert_entry :: "('a \<Rightarrow> string) \<Rightarrow> ('a \<Rightarrow> document_error + json) \<Rightarrow> 'a \<Rightarrow> members \<Rightarrow> document_error + members" where
  "insert_entry key entry x out = rbind (entry x) (\<lambda>e. Inr (obj_insert (key x) e out))"

definition template_entry :: "schema \<Rightarrow> yang_data \<Rightarrow> json" where
  "template_entry S y = JObject [(''module'', JString (yang_data_module y)), (''name'', JString (yang_data_name y)),
     (''root'', JString (node_path_of (nodes S) (yang_data_root y)))]"

definition sid_index_of :: "schema \<Rightarrow> members" where
  "sid_index_of S =
    (let roots = concat (map root_nodes (sorted_modules S)) in
     fold (index_node_sids S) (map yang_data_root (yang_datas S))
       (fold (index_node_sids S) roots
         (fold (\<lambda>i. index_sid ''identity'' (qualified_identity S i) (identity_sid (identities S ! i))) (visible_identities S)
           (fold (\<lambda>m. index_sid ''module'' (import_name m) (import_sid m)) (import_only_modules S)
             (fold (\<lambda>m. index_sid ''module'' (yang_module_name m) (module_sid m)) (sorted_modules S) [])))))"

definition catalog_document :: "schema \<Rightarrow> document_error + members" where
  "catalog_document S =
     rbind (rfold (insert_entry yang_module_name (module_entry S)) (sorted_modules S) []) (\<lambda>ms.
     rbind (rfold (insert_entry (\<lambda>m. import_only_module_key (import_name m) (import_revision_date m))
         (import_only_module_entry S)) (import_only_modules S) []) (\<lambda>imps.
     rbind (rfold (insert_entry (\<lambda>t. typedef_key (typedef_scope (typedefs S ! t)) (typedef_name (typedefs S ! t)))
         (\<lambda>t. typedef_entry S (typedefs S ! t))) (visible_typedefs S) []) (\<lambda>tds.
     rbind (rfold (insert_entry (qualified_identity S) (identity_entry S)) (visible_identities S) []) (\<lambda>ids.
     rbind (rfold (flatten_subtree S) (concat (map root_nodes (sorted_modules S))) []) (\<lambda>ns.
     rbind (rfold (\<lambda>y. flatten_subtree S (yang_data_root y)) (yang_datas S) ns) (\<lambda>ns.
     Inr
       [(''$schema'', JString ''urn:fercc:yang-catalog-schema:1.0.0''),
        (''modules'', JObject (sorted_map ms)),
        (''import-only-modules'', JObject (sorted_map imps)),
        (''typedefs'', JObject (sorted_map tds)),
        (''identities'', JObject (sorted_map ids)),
        (''schema-nodes'', JObject (sorted_map ns)),
        (''yang-data'', JObject (sorted_map (fold (\<lambda>y. obj_insert (template_key y) (template_entry S y)) (yang_datas S) []))),
        (''sid-index'', JObject (sorted_map_numeric (sid_index_of S)))]))))))"

end
