(* ===== verification/Yang_Catalog_Verify.thy ===== *)
theory Yang_Catalog_Verify
  imports Yang_Catalog_Document
begin

text \<open>
  The consistency check of a catalog document (\<open>verify_yang_catalog\<close> of
  \<open>src/yang/src/yang_catalog.rs\<close>), check by check in the order of the code. The texts of the
  messages are shortened; a hash map or set is visited in the order of insertion.
\<close>

section \<open>Reports\<close>

text \<open>
  A check gives the problems it finds, in order, or nothing where the code panics on a document
  of another shape (an \<open>unwrap\<close>, an index of a missing key) or does not end. The checks go on
  after a problem.
\<close>

datatype problem = Problem string string

type_synonym report = "problem list option"

definition both :: "report \<Rightarrow> report \<Rightarrow> report" where
  "both a b = (case a of None \<Rightarrow> None | Some ps \<Rightarrow> map_option (\<lambda>qs. ps @ qs) b)"

fun each :: "('a \<Rightarrow> report) \<Rightarrow> 'a list \<Rightarrow> report" where
  "each f [] = Some []"
| "each f (x # xs) = both (f x) (each f xs)"

definition expect :: "bool \<Rightarrow> string \<Rightarrow> string \<Rightarrow> report" where
  "expect ok pl w = Some (if ok then [] else [Problem pl w])"

definition reports :: "report list \<Rightarrow> report" where
  "reports rs = each id rs"

text \<open>\<open>unwrap\<close> before the rest of a check\<close>

definition unwrap :: "'a option \<Rightarrow> ('a \<Rightarrow> report) \<Rightarrow> report" where
  "unwrap x f = (case x of None \<Rightarrow> None | Some a \<Rightarrow> f a)"

named_theorems report_simps \<open>when a check passes\<close>

lemma both_passes [report_simps]: "both a b = Some [] \<longleftrightarrow> a = Some [] \<and> b = Some []"
  by (auto simp: both_def split: option.splits)

lemma each_passes [report_simps]: "each f xs = Some [] \<longleftrightarrow> (\<forall>x \<in> set xs. f x = Some [])"
  by (induction xs) (auto simp: both_passes)

lemma expect_passes [report_simps]: "expect ok p w = Some [] \<longleftrightarrow> ok"
  by (simp add: expect_def)

lemma reports_passes [report_simps]: "reports rs = Some [] \<longleftrightarrow> (\<forall>r \<in> set rs. r = Some [])"
  by (simp add: reports_def each_passes)

lemma unwrap_passes [report_simps]: "unwrap x f = Some [] \<longleftrightarrow> (\<exists>a. x = Some a \<and> f a = Some [])"
  by (auto simp: unwrap_def split: option.splits)

section \<open>Reading a document\<close>

text \<open>\<open>Value::get\<close>, the index of a value (\<open>Null\<close> where there is nothing), and \<open>unwrap\<close> of texts\<close>

definition get_field :: "json \<Rightarrow> string \<Rightarrow> json option" where
  "get_field j key = (case j of JObject es \<Rightarrow> map_of es key | _ \<Rightarrow> None)"

definition at_field :: "json \<Rightarrow> string \<Rightarrow> json" where
  "at_field j key = (case get_field j key of Some v \<Rightarrow> v | None \<Rightarrow> JNull)"

definition get_text :: "json \<Rightarrow> string \<Rightarrow> string option" where
  "get_text j key = Option.bind (get_field j key) as_str"

definition get_list :: "json \<Rightarrow> string \<Rightarrow> json list option" where
  "get_list j key = Option.bind (get_field j key) as_json_array"

definition text_list :: "json \<Rightarrow> string list option" where
  "text_list j = Option.bind (as_json_array j) (\<lambda>vs. option_all (map as_str vs))"

definition text_at :: "json \<Rightarrow> string \<Rightarrow> string option" where
  "text_at j key = as_str (at_field j key)"

definition texts_at :: "json \<Rightarrow> string \<Rightarrow> string list option" where
  "texts_at j key = text_list (at_field j key)"

text \<open>The texts of an optional list: none of it is read when there is no list.\<close>

definition texts_in :: "json \<Rightarrow> string \<Rightarrow> string list option" where
  "texts_in j key = (case get_list j key of None \<Rightarrow> Some [] | Some vs \<Rightarrow> option_all (map as_str vs))"

lemma get_list_size: "get_list j key = Some vs \<Longrightarrow> v \<in> set vs \<Longrightarrow> size v < size j"
proof -
  assume "get_list j key = Some vs" "v \<in> set vs"
  then obtain es where es: "j = JObject es" "map_of es key = Some (JArray vs)"
    by (auto simp: get_list_def get_field_def as_json_array_def split: json.splits bind_splits)
  then have "(key, JArray vs) \<in> set es" by (simp add: map_of_SomeD)
  from json_object_size [OF this] json_array_size [OF \<open>v \<in> set vs\<close>] show ?thesis by (simp add: es(1))
qed

text \<open>A type descriptor and those of its members, in the order in which they are visited.\<close>

function type_parts :: "json \<Rightarrow> json list" where
  "type_parts ty = ty # (case get_list ty ''type'' of Some ms \<Rightarrow> concat (map type_parts ms) | None \<Rightarrow> [])"
  by pat_completeness auto
termination by (relation "measure size") (auto dest: get_list_size)

declare type_parts.simps [simp del]

text \<open>Strict order of neighbours (\<open>windows(2)\<close>)\<close>

definition strictly_sorted :: "string list \<Rightarrow> bool" where
  "strictly_sorted ss \<longleftrightarrow> successively (\<lambda>a b. text_key a < text_key b) ss"

text \<open>The seven maps of a document; indexing it panics when one is missing.\<close>

record catalog_doc =
  schema_nodes :: members
  yang_data_map :: members
  typedef_map :: members
  identity_map :: members
  module_map :: members
  import_only_map :: members
  sid_index_map :: members

definition doc_map :: "members \<Rightarrow> string \<Rightarrow> members option" where
  "doc_map doc key = Option.bind (map_of doc key) as_object"

definition open_document :: "members \<Rightarrow> catalog_doc option" where
  "open_document doc =
    (case (doc_map doc ''schema-nodes'', doc_map doc ''yang-data'', doc_map doc ''typedefs'', doc_map doc ''identities'',
           doc_map doc ''modules'', doc_map doc ''import-only-modules'', doc_map doc ''sid-index'') of
       (Some ns, Some ys, Some ts, Some ids, Some ms, Some imps, Some sids) \<Rightarrow>
         Some \<lparr>schema_nodes = ns, yang_data_map = ys, typedef_map = ts, identity_map = ids, module_map = ms,
           import_only_map = imps, sid_index_map = sids\<rparr>
     | _ \<Rightarrow> None)"

definition has_key :: "members \<Rightarrow> string \<Rightarrow> bool" where
  "has_key m key \<longleftrightarrow> map_of m key \<noteq> None"

definition in_map :: "string \<Rightarrow> string \<Rightarrow> string" where
  "in_map what key = what @ ''['' @ key @ '']''"

section \<open>Types\<close>

definition collect_base_types :: "json \<Rightarrow> string list" where
  "collect_base_types ty = List.map_filter (\<lambda>t. get_text t ''base-type'') (type_parts ty)"

definition option_concat :: "'a list option list \<Rightarrow> 'a list option" where
  "option_concat xs = map_option concat (option_all xs)"

definition collect_identityref_bases :: "json \<Rightarrow> string list option" where
  "collect_identityref_bases ty = option_concat (map (\<lambda>t.
     if get_text t ''builtin'' = Some ''identityref'' then texts_in t ''base'' else Some []) (type_parts ty))"

definition collect_identityref_values :: "json \<Rightarrow> string list option" where
  "collect_identityref_values ty = option_concat (map (\<lambda>t. texts_in t ''values'') (type_parts ty))"

text \<open>
  \<open>derives_from\<close>: a stack of identities, and those already pushed; every base is compared with
  the one looked for. The seen names grow within the bases of the document.
\<close>

definition bases_of :: "members \<Rightarrow> string \<Rightarrow> string list option" where
  "bases_of ids i = (case map_of ids i of None \<Rightarrow> Some [] | Some entry \<Rightarrow> texts_at entry ''base'')"

definition base_names :: "members \<Rightarrow> string set" where
  "base_names ids = (\<Union>e \<in> set ids. case texts_at (snd e) ''base'' of Some bs \<Rightarrow> set bs | None \<Rightarrow> {})"

lemma finite_base_names [simp]: "finite (base_names ids)"
  by (auto simp: base_names_def split: option.splits)

lemma bases_of_names: "bases_of ids i = Some bs \<Longrightarrow> set bs \<subseteq> base_names ids"
  by (force simp: bases_of_def base_names_def split: option.splits dest: map_of_SomeD)

definition unseen :: "string list \<Rightarrow> string list \<Rightarrow> string list" where
  "unseen bs seen = filter (\<lambda>b. b \<notin> set seen) (remdups bs)"

lemma set_unseen [simp]: "set (unseen bs seen) = set bs - set seen"
  by (auto simp: unseen_def)

lemma unseen_shrinks:
  assumes "bases_of ids i = Some bs"
  shows "card (base_names ids - set (unseen bs seen @ seen)) < card (base_names ids - set seen)
    \<or> unseen bs seen = []"
proof (cases "unseen bs seen = []")
  case False
  then obtain b where "b \<in> set bs - set seen" using set_unseen [of bs seen] by (metis last_in_set)
  with bases_of_names [OF assms] have "base_names ids - set (unseen bs seen @ seen) \<subset> base_names ids - set seen" by auto
  then show ?thesis by (simp add: psubset_card_mono)
qed simp

function derives_loop :: "members \<Rightarrow> string \<Rightarrow> string list \<Rightarrow> string list \<Rightarrow> bool option" where
  "derives_loop ids base [] seen = Some False"
| "derives_loop ids base (i # stack) seen =
    (case bases_of ids i of
       None \<Rightarrow> None
     | Some bs \<Rightarrow>
         if base \<in> set bs then Some True
         else derives_loop ids base (rev (unseen bs seen) @ stack) (unseen bs seen @ seen))"
  by pat_completeness auto
termination
proof (relation "measures [\<lambda>(ids, base, stack, seen). card (base_names ids - set seen), \<lambda>(ids, base, stack, seen). length stack]")
  fix ids i bs seen and base :: string and stack :: "string list"
  assume "bases_of ids i = Some bs"
  from unseen_shrinks [OF this, of seen]
  show "((ids, base, rev (unseen bs seen) @ stack, unseen bs seen @ seen), ids, base, i # stack, seen) \<in>
      measures [\<lambda>(ids, base, stack, seen). card (base_names ids - set seen), \<lambda>(ids, base, stack, seen). length stack]"
    by (auto simp del: set_unseen)
qed simp

definition derives_from :: "members \<Rightarrow> string \<Rightarrow> string \<Rightarrow> bool option" where
  "derives_from ids i base = derives_loop ids base [i] []"

text \<open>\<open>bases.iter().all(derives_from)\<close> stops at the first base that is missed.\<close>

fun derives_from_all :: "members \<Rightarrow> string \<Rightarrow> string list \<Rightarrow> bool option" where
  "derives_from_all ids i [] = Some True"
| "derives_from_all ids i (b # bs) =
    (case derives_from ids i b of Some True \<Rightarrow> derives_from_all ids i bs | r \<Rightarrow> r)"

definition check_value :: "members \<Rightarrow> string \<Rightarrow> string list \<Rightarrow> string \<Rightarrow> report" where
  "check_value ids from_place bases name =
    (if \<not> has_key ids name then expect False from_place (''value not found in identities: '' @ name)
     else unwrap (derives_from_all ids name bases) (\<lambda>ok.
       expect ok from_place (''value is not derived from every base: '' @ name)))"

definition check_identityref_part :: "members \<Rightarrow> string \<Rightarrow> json \<Rightarrow> report" where
  "check_identityref_part ids from_place t =
    (if get_text t ''builtin'' \<noteq> Some ''identityref'' then Some []
     else
       (case get_list t ''values'' of
          None \<Rightarrow> expect False from_place ''an identityref has no values''
        | Some _ \<Rightarrow>
            unwrap (texts_in t ''values'') (\<lambda>names.
            both (expect (strictly_sorted names) from_place ''values are not sorted'')
              (unwrap (texts_at t ''base'') (\<lambda>bases. each (check_value ids from_place bases) names)))))"

definition check_identityref_values :: "members \<Rightarrow> string \<Rightarrow> json \<Rightarrow> report" where
  "check_identityref_values ids from_place ty = each (check_identityref_part ids from_place) (type_parts ty)"

definition expect_key :: "members \<Rightarrow> string \<Rightarrow> string \<Rightarrow> string \<Rightarrow> report" where
  "expect_key m key from_place what = expect (has_key m key) from_place (what @ '' not found: '' @ key)"

definition check_type_part :: "catalog_doc \<Rightarrow> string \<Rightarrow> json \<Rightarrow> report" where
  "check_type_part D from_place t = reports
    [case get_text t ''base-type'' of Some key \<Rightarrow> expect_key (typedef_map D) key from_place ''base-type'' | None \<Rightarrow> Some [],
     case get_text t ''target'' of Some key \<Rightarrow> expect_key (schema_nodes D) key from_place ''target'' | None \<Rightarrow> Some []]"

definition check_type_descriptor :: "catalog_doc \<Rightarrow> string \<Rightarrow> json \<Rightarrow> report" where
  "check_type_descriptor D from_place ty = each (check_type_part D from_place) (type_parts ty)"

section \<open>The checks in order\<close>

definition lists_back :: "json \<Rightarrow> string \<Rightarrow> bool" where
  "lists_back parent_node p =
    (case get_list parent_node ''schema-children'' of
       Some cs \<Rightarrow> list_ex (\<lambda>c. as_str c = Some p) cs | None \<Rightarrow> False)"

definition check_parent :: "catalog_doc \<Rightarrow> string \<times> json \<Rightarrow> report" where
  "check_parent D e =
    (case get_text (snd e) ''parent'' of
       None \<Rightarrow> Some []
     | Some p \<Rightarrow>
        (case map_of (schema_nodes D) p of
           None \<Rightarrow> expect False (in_map ''schema-nodes'' (fst e)) (''parent not found: '' @ p)
         | Some nd \<Rightarrow> expect (lists_back nd (fst e)) (in_map ''schema-nodes'' (fst e)) (''not listed by its parent '' @ p)))"

definition check_listed :: "catalog_doc \<Rightarrow> string \<times> json \<Rightarrow> string \<Rightarrow> report" where
  "check_listed D e field =
     unwrap (texts_in (snd e) field) (each (\<lambda>p.
       case map_of (schema_nodes D) p of
         None \<Rightarrow> expect False (in_map ''schema-nodes'' (fst e)) (field @ '' not found: '' @ p)
       | Some nd \<Rightarrow> expect (field = ''schema-children'' \<longrightarrow> get_text nd ''parent'' = Some (fst e))
           (in_map ''schema-nodes'' (fst e)) (''listed child has another parent: '' @ p)))"

definition check_schema_node :: "catalog_doc \<Rightarrow> string \<times> json \<Rightarrow> report" where
  "check_schema_node D e = reports
    [check_parent D e,
     each (check_listed D e) [''schema-children'', ''data-children'', ''keys''],
     case get_field (snd e) ''type'' of
       None \<Rightarrow> Some []
     | Some t \<Rightarrow> both (check_type_descriptor D (in_map ''schema-nodes'' (fst e)) t)
         (check_identityref_values (identity_map D) (in_map ''schema-nodes'' (fst e)) t)]"

definition check_typedef :: "catalog_doc \<Rightarrow> string \<times> json \<Rightarrow> report" where
  "check_typedef D e = check_type_descriptor D (in_map ''typedefs'' (fst e)) (at_field (snd e) ''type'')"

definition check_identity :: "catalog_doc \<Rightarrow> string \<times> json \<Rightarrow> report" where
  "check_identity D e =
     unwrap (texts_at (snd e) ''base'')
       (each (\<lambda>b. expect_key (identity_map D) b (in_map ''identities'' (fst e)) ''base''))"

definition check_template_key :: "catalog_doc \<Rightarrow> string \<Rightarrow> string \<Rightarrow> report" where
  "check_template_key D name key =
    (case map_of (yang_data_map D) key of
       None \<Rightarrow> expect False (in_map ''modules'' name) (''yang-data not found: '' @ key)
     | Some t \<Rightarrow> expect (at_field t ''module'' = JString name) (in_map ''modules'' name) (''yang-data of another module: '' @ key))"

definition check_module :: "catalog_doc \<Rightarrow> string \<times> json \<Rightarrow> report" where
  "check_module D e =
    (let name = fst e; m = snd e; pl = in_map ''modules'' (fst e) in reports
      [each (\<lambda>field. unwrap (texts_at m field) (each (\<lambda>p. expect_key (schema_nodes D) p pl field)))
         [''schema-root-nodes'', ''data-root-nodes''],
       unwrap (texts_at m ''typedefs'') (each (\<lambda>k. expect_key (typedef_map D) k pl ''typedef'')),
       unwrap (texts_at m ''identities'') (each (\<lambda>k. expect_key (identity_map D) k pl ''identity'')),
       unwrap (texts_at m ''deviations'') (\<lambda>ds.
         both (each (\<lambda>d. both (expect_key (module_map D) d pl ''deviation'') (expect (d \<noteq> name) pl ''deviates itself'')) ds)
           (expect (strictly_sorted ds) pl ''deviations are not sorted'')),
       unwrap (texts_at m ''yang-data'') (each (check_template_key D name))])"

definition check_template :: "catalog_doc \<Rightarrow> string \<times> json \<Rightarrow> report" where
  "check_template D e =
    (let t = snd e; pl = in_map ''yang-data'' (fst e) in
     unwrap (text_at t ''module'') (\<lambda>m.
     unwrap (text_at t ''name'') (\<lambda>name.
     reports
      [expect (fst e = colon_name m name) pl ''the key is not its module and name'',
       expect (case map_of (module_map D) m of
           None \<Rightarrow> False
         | Some md \<Rightarrow> (case as_json_array (at_field md ''yang-data'') of
             None \<Rightarrow> False | Some ks \<Rightarrow> list_ex (\<lambda>k. as_str k = Some (fst e)) ks))
         pl ''not listed by its module'',
       unwrap (text_at t ''root'') (\<lambda>root.
         case map_of (schema_nodes D) root of
           None \<Rightarrow> expect False pl (''root not found: '' @ root)
         | Some nd \<Rightarrow> both (expect (at_field nd ''keyword'' = JString ''container'') pl ''root is not a container'')
             (expect (at_field nd ''module'' = JString m) pl ''root is not defined in its module''))])))"

definition check_import_only :: "catalog_doc \<Rightarrow> string \<times> json \<Rightarrow> report" where
  "check_import_only D e =
    (let m = snd e; pl = in_map ''import-only-modules'' (fst e) in reports
      [unwrap (texts_at m ''typedefs'') (each (\<lambda>k. expect_key (typedef_map D) k pl ''typedef'')),
       unwrap (texts_at m ''identities'') (each (\<lambda>k. expect_key (identity_map D) k pl ''identity'')),
       unwrap (text_at m ''name'') (\<lambda>name.
         expect (hd (split_on (CHR '' '') (fst e)) = name) pl ''the key is not its name'')])"

text \<open>Which modules list an identity: every listing of a module, and the names of import-only ones.\<close>

datatype listing = In_module string | In_import string

definition module_listings :: "catalog_doc \<Rightarrow> string \<Rightarrow> listing list option" where
  "module_listings D key = option_concat (map (\<lambda>e.
     map_option (\<lambda>ks. map (\<lambda>_. In_module (fst e)) (filter (\<lambda>k. k = key) ks)) (texts_at (snd e) ''identities''))
     (module_map D))"

definition import_listings :: "catalog_doc \<Rightarrow> string \<Rightarrow> listing list option" where
  "import_listings D key = map_option (\<lambda>ns. map In_import (remdups ns)) (option_concat (map (\<lambda>e.
     case (text_at (snd e) ''name'', texts_at (snd e) ''identities'') of
       (Some name, Some ks) \<Rightarrow> Some (if key \<in> set ks then [name] else [])
     | _ \<Rightarrow> None) (import_only_map D)))"

definition check_identity_listing :: "catalog_doc \<Rightarrow> string \<times> json \<Rightarrow> report" where
  "check_identity_listing D e =
    (let pl = in_map ''identities'' (fst e) in
     unwrap (module_listings D (fst e)) (\<lambda>ms.
     unwrap (import_listings D (fst e)) (\<lambda>imps.
     unwrap (text_at (snd e) ''module'') (\<lambda>m.
     reports
      [expect (length (ms @ imps) \<le> 1) pl ''listed by more than one module'',
       each (\<lambda>l. expect (l = In_module m \<or> l = In_import m) pl ''listed by a module that does not declare it'') (ms @ imps),
       expect (ms @ imps \<noteq> [] \<or> has_key (module_map D) m) pl ''listed by no module'']))))"

definition sid_target_exists :: "catalog_doc \<Rightarrow> string \<Rightarrow> string \<Rightarrow> bool" where
  "sid_target_exists D ns ident =
    (if ns = ''module'' then
       has_key (module_map D) ident \<or> list_ex (\<lambda>e. at_field (snd e) ''name'' = JString ident) (import_only_map D)
     else if ns = ''identity'' then has_key (identity_map D) ident
     else has_key (schema_nodes D) ident)"

definition check_sid_entry :: "catalog_doc \<Rightarrow> string \<times> json \<Rightarrow> report" where
  "check_sid_entry D e =
    (let pl = in_map ''sid-index'' (fst e) in
     unwrap (text_at (snd e) ''namespace'') (\<lambda>ns.
     unwrap (text_at (snd e) ''identifier'') (\<lambda>ident.
     if ns \<notin> {''module'', ''identity'', ''data''} then expect False pl (''unknown namespace '' @ ns)
     else expect (sid_target_exists D ns ident) pl (''not found: '' @ ident))))"

text \<open>\<open>sid_index.get(sid)\<close> names the entity.\<close>

definition indexed :: "catalog_doc \<Rightarrow> string \<Rightarrow> string \<Rightarrow> bool" where
  "indexed D sid ident =
    (case map_of (sid_index_map D) sid of Some e \<Rightarrow> text_at e ''identifier'' = Some ident | None \<Rightarrow> False)"

definition check_indexed :: "catalog_doc \<Rightarrow> string option \<Rightarrow> string \<Rightarrow> report" where
  "check_indexed D sid ident = unwrap sid (\<lambda>v. expect (indexed D v ident) ident ''its sid is not reverse-indexed'')"

definition check_node_indexed :: "catalog_doc \<Rightarrow> string \<times> json \<Rightarrow> report" where
  "check_node_indexed D e = (case get_text (snd e) ''sid'' of None \<Rightarrow> Some [] | Some v \<Rightarrow> check_indexed D (Some v) (fst e))"

definition check_import_indexed :: "catalog_doc \<Rightarrow> string \<times> json \<Rightarrow> report" where
  "check_import_indexed D e = unwrap (text_at (snd e) ''name'') (check_indexed D (text_at (snd e) ''sid''))"

definition sid_bearing :: "catalog_doc \<Rightarrow> nat" where
  "sid_bearing D =
     length (filter (\<lambda>e. get_field (snd e) ''sid'' \<noteq> None) (schema_nodes D)) + length (identity_map D) +
     length (remdups (List.map_filter (\<lambda>e. get_text (snd e) ''sid'') (module_map D @ import_only_map D)))"

definition check_sid_count :: "catalog_doc \<Rightarrow> report" where
  "check_sid_count D = expect (length (sid_index_map D) = sid_bearing D) ''sid-index'' ''wrong number of entries''"

text \<open>
  The walk from the roots: a stack of paths and those visited; a child that is no node is an
  index of a missing key.
\<close>

function reach_loop :: "members \<Rightarrow> string list \<Rightarrow> string list \<Rightarrow> string list option" where
  "reach_loop ns [] visited = Some visited"
| "reach_loop ns (p # stack) visited =
    (if p \<in> set visited then reach_loop ns stack visited
     else
       (case map_of ns p of
          None \<Rightarrow> None
        | Some nd \<Rightarrow>
           (case texts_in nd ''schema-children'' of
              None \<Rightarrow> None
            | Some cs \<Rightarrow> reach_loop ns (rev cs @ stack) (p # visited))))"
  by pat_completeness auto
termination
proof (relation "measures [\<lambda>(ns, stack, visited). card (fst ` set ns - set visited), \<lambda>(ns, stack, visited). length stack]")
  fix ns :: members and p nd cs and stack visited :: "string list"
  assume "p \<notin> set visited" "map_of ns p = Some nd"
  then have "fst ` set ns - set (p # visited) \<subset> fst ` set ns - set visited" by (force dest: map_of_SomeD)
  then have "card (fst ` set ns - set (p # visited)) < card (fst ` set ns - set visited)"
    by (intro psubset_card_mono) auto
  then show "((ns, rev cs @ stack, p # visited), ns, p # stack, visited) \<in>
      measures [\<lambda>(ns, stack, visited). card (fst ` set ns - set visited), \<lambda>(ns, stack, visited). length stack]" by simp
qed auto

definition root_paths :: "members \<Rightarrow> string list" where
  "root_paths ns = map fst (filter (\<lambda>e. get_field (snd e) ''parent'' = None) ns)"

definition check_reachable :: "catalog_doc \<Rightarrow> report" where
  "check_reachable D =
     unwrap (reach_loop (schema_nodes D) (rev (root_paths (schema_nodes D))) []) (\<lambda>visited.
     each (\<lambda>e. expect (fst e \<in> set visited) (in_map ''schema-nodes'' (fst e)) ''unreachable'') (schema_nodes D))"

definition listed_roots :: "catalog_doc \<Rightarrow> string list option" where
  "listed_roots D =
    (case (option_concat (map (\<lambda>e. texts_at (snd e) ''schema-root-nodes'') (module_map D)),
           option_all (map (\<lambda>e. text_at (snd e) ''root'') (yang_data_map D))) of
       (Some ms, Some ys) \<Rightarrow> Some (ms @ ys) | _ \<Rightarrow> None)"

definition check_root_listing :: "catalog_doc \<Rightarrow> report" where
  "check_root_listing D =
     unwrap (listed_roots D) (\<lambda>rs.
     each (\<lambda>e. both
        (expect (get_field (snd e) ''parent'' \<noteq> None \<longrightarrow> count_list rs (fst e) = 0)
          (in_map ''schema-nodes'' (fst e)) ''has a parent and is listed as a root'')
        (expect (get_field (snd e) ''parent'' = None \<longrightarrow> count_list rs (fst e) = 1)
          (in_map ''schema-nodes'' (fst e)) ''has no parent and is not listed exactly once''))
       (schema_nodes D))"

text \<open>What is referred to.\<close>

definition node_types :: "catalog_doc \<Rightarrow> json list" where
  "node_types D = List.map_filter (\<lambda>e. get_field (snd e) ''type'') (schema_nodes D)"

definition check_typedefs_used :: "catalog_doc \<Rightarrow> report" where
  "check_typedefs_used D =
    (let refs = concat (map collect_base_types (node_types D @ map (\<lambda>e. at_field (snd e) ''type'') (typedef_map D))) in
     each (\<lambda>e. expect (fst e \<in> set refs) (in_map ''typedefs'' (fst e)) ''never named by any base-type'') (typedef_map D))"

definition identityref_bases_of :: "catalog_doc \<Rightarrow> string list option" where
  "identityref_bases_of D = option_concat (map collect_identityref_bases (node_types D))"

definition listed_identities :: "catalog_doc \<Rightarrow> string list option" where
  "listed_identities D = option_concat (map (\<lambda>e. texts_at (snd e) ''identities'') (module_map D))"

function close_loop :: "members \<Rightarrow> string list \<Rightarrow> string list \<Rightarrow> string list option" where
  "close_loop ids [] found = Some found"
| "close_loop ids (i # stack) found =
    (case bases_of ids i of
       None \<Rightarrow> None
     | Some bs \<Rightarrow> close_loop ids (rev (unseen bs found) @ stack) (unseen bs found @ found))"
  by pat_completeness auto
termination
proof (relation "measures [\<lambda>(ids, stack, found). card (base_names ids - set found), \<lambda>(ids, stack, found). length stack]")
  fix ids i bs and stack found :: "string list"
  assume "bases_of ids i = Some bs"
  from unseen_shrinks [OF this, of found]
  show "((ids, rev (unseen bs found) @ stack, unseen bs found @ found), ids, i # stack, found) \<in>
      measures [\<lambda>(ids, stack, found). card (base_names ids - set found), \<lambda>(ids, stack, found). length stack]"
    by (auto simp del: set_unseen)
qed simp

definition check_identities_used :: "catalog_doc \<Rightarrow> report" where
  "check_identities_used D =
     unwrap (listed_identities D) (\<lambda>impl.
     unwrap (identityref_bases_of D) (\<lambda>refs.
     unwrap (close_loop (identity_map D) (rev (remdups impl @ remdups refs)) []) (\<lambda>found.
     both
       (each (\<lambda>e. expect (fst e \<in> set impl \<or> fst e \<in> set found \<or> fst e \<in> set refs) (in_map ''identities'' (fst e))
          ''neither implemented nor a base of anything implemented'') (identity_map D))
       (each (\<lambda>e. unwrap (texts_at (snd e) ''identities'') (each (\<lambda>k.
          expect (k \<in> set found \<or> k \<in> set refs) (in_map ''import-only-modules'' (fst e)) (''lists an unused identity '' @ k))))
         (import_only_map D)))))"

definition check_disjoint :: "catalog_doc \<Rightarrow> report" where
  "check_disjoint D =
     unwrap (option_all (map (\<lambda>e. text_at (snd e) ''name'') (import_only_map D))) (\<lambda>names.
     each (\<lambda>n. expect (n \<notin> set names) n ''in both modules and import-only-modules'') (remdups (map fst (module_map D))))"

definition check_import_fields :: "catalog_doc \<Rightarrow> string \<times> json \<Rightarrow> report" where
  "check_import_fields D e = reports
    [expect (get_field (snd e) ''schema-root-nodes'' = None) (in_map ''import-only-modules'' (fst e)) ''has schema-root-nodes'',
     expect (get_field (snd e) ''data-root-nodes'' = None) (in_map ''import-only-modules'' (fst e)) ''has data-root-nodes'']"

text \<open>The owner of a namespace is the module inserted last, then the first import-only one.\<close>

fun check_namespaces :: "(string \<times> string) list \<Rightarrow> members \<Rightarrow> report" where
  "check_namespaces owners [] = Some []"
| "check_namespaces owners (e # es) =
     unwrap (text_at (snd e) ''name'') (\<lambda>name.
     unwrap (text_at (snd e) ''namespace'') (\<lambda>ns.
     case map_of owners ns of
       Some other \<Rightarrow> both (expect (other = name) (in_map ''import-only-modules'' (fst e)) (''namespace collides with '' @ other))
         (check_namespaces owners es)
     | None \<Rightarrow> check_namespaces ((ns, name) # owners) es))"

definition module_namespaces :: "catalog_doc \<Rightarrow> (string \<times> string) list option" where
  "module_namespaces D = map_option rev (option_all (map (\<lambda>e.
     map_option (\<lambda>ns. (ns, fst e)) (text_at (snd e) ''namespace'')) (module_map D)))"

text \<open>
  The walk up to an operation, a notification or the root of yang-data. A chain of parents longer
  than the number of nodes comes back to a node, and the loop of the code does not end.
\<close>

fun outside_datastore :: "nat \<Rightarrow> members \<Rightarrow> string list \<Rightarrow> string \<Rightarrow> bool option" where
  "outside_datastore 0 ns roots p = None"
| "outside_datastore (Suc n) ns roots p =
    (case map_of ns p of
       None \<Rightarrow> None
     | Some nd \<Rightarrow>
         if p \<in> set roots \<or> get_text nd ''keyword'' \<in> {Some ''rpc'', Some ''action'', Some ''notification''} then Some True
         else
           (case get_text nd ''parent'' of
              None \<Rightarrow> Some False
            | Some q \<Rightarrow> if has_key ns q then outside_datastore n ns roots q else Some False))"

definition carries_config :: "json \<Rightarrow> bool" where
  "carries_config nd \<longleftrightarrow> get_text nd ''keyword'' \<in> Some ` {''container'', ''leaf'', ''leaf-list'', ''list'', ''choice'', ''anydata'', ''anyxml''}"

definition check_config :: "catalog_doc \<Rightarrow> string list \<Rightarrow> string \<times> json \<Rightarrow> report" where
  "check_config D roots e =
    (let nd = snd e; pl = in_map ''schema-nodes'' (fst e); has = (get_field nd ''config'' \<noteq> None);
         terminal = get_text nd ''keyword'' \<in> Some ` {''leaf'', ''leaf-list'', ''anydata'', ''anyxml''}
     in unwrap (outside_datastore (Suc (length (schema_nodes D))) (schema_nodes D) roots (fst e)) (\<lambda>outside. reports
      [expect (carries_config nd \<and> \<not> outside \<longrightarrow> has) pl ''has no config'',
       expect (\<not> carries_config nd \<or> outside \<longrightarrow> \<not> has) pl ''has a config outside any datastore'',
       expect (terminal \<longrightarrow> get_field nd ''schema-children'' = None) pl ''carries schema-children'',
       expect (terminal \<longrightarrow> get_field nd ''data-children'' = None) pl ''carries data-children'']))"

definition check_typedef_plain :: "catalog_doc \<Rightarrow> string \<times> json \<Rightarrow> report" where
  "check_typedef_plain D e =
    (let ty = at_field (snd e) ''type''; pl = in_map ''typedefs'' (fst e) in
     both (expect (\<not> (get_text ty ''builtin'' = Some ''leafref'' \<and> get_field ty ''target'' \<noteq> None)) pl ''carries a target'')
       (unwrap (collect_identityref_values ty) (\<lambda>vs. expect (vs = []) pl ''carries identityref values'')))"

definition check_values_listed :: "catalog_doc \<Rightarrow> report" where
  "check_values_listed D =
     unwrap (option_concat (map collect_identityref_values (node_types D))) (\<lambda>vals.
     unwrap (listed_identities D) (\<lambda>impl.
     both (each (\<lambda>n. expect (n \<in> set impl) n ''a value that no module implements'') (remdups vals))
       (each (\<lambda>n. expect (n \<in> set vals) n ''implemented, and no value of any identityref'') (remdups impl))))"

definition verify_document :: "catalog_doc \<Rightarrow> report" where
  "verify_document D = reports
    [each (check_schema_node D) (schema_nodes D),
     each (check_typedef D) (typedef_map D),
     each (check_identity D) (identity_map D),
     each (check_module D) (module_map D),
     each (check_template D) (yang_data_map D),
     each (check_import_only D) (import_only_map D),
     each (check_identity_listing D) (identity_map D),
     each (check_sid_entry D) (sid_index_map D),
     each (\<lambda>e. check_indexed D (text_at (snd e) ''sid'') (fst e)) (module_map D),
     each (check_import_indexed D) (import_only_map D),
     each (\<lambda>e. check_indexed D (text_at (snd e) ''sid'') (fst e)) (identity_map D),
     each (check_node_indexed D) (schema_nodes D),
     check_sid_count D,
     check_reachable D,
     check_root_listing D,
     check_typedefs_used D,
     check_identities_used D,
     check_disjoint D,
     each (check_import_fields D) (import_only_map D),
     unwrap (module_namespaces D) (\<lambda>owners. check_namespaces owners (import_only_map D)),
     each (check_config D (List.map_filter (\<lambda>e. text_at (snd e) ''root'') (yang_data_map D))) (schema_nodes D),
     each (check_typedef_plain D) (typedef_map D),
     check_values_listed D]"

definition verify_yang_catalog :: "members \<Rightarrow> report" where
  "verify_yang_catalog doc = unwrap (open_document doc) verify_document"

section \<open>The whole generator\<close>

datatype catalog_failure = Document_error document_error | Inconsistent "problem list"

definition to_yang_catalog :: "schema \<Rightarrow> (catalog_failure + json) option" where
  "to_yang_catalog S =
    (case catalog_document S of
       Inl e \<Rightarrow> Some (Inl (Document_error e))
     | Inr doc \<Rightarrow>
        (case verify_yang_catalog doc of
           None \<Rightarrow> None
         | Some ps \<Rightarrow> Some (if ps = [] then Inr (JObject doc) else Inl (Inconsistent ps))))"

end
