(* ===== verification/Fercc_Commands.thy ===== *)
theory Fercc_Commands
  imports Fercc_Device Yang_Catalog_Verify
begin

text \<open>
  The commands of fercc (fercc/lib.rs: run, run_schema, run_catalog), the topology and the
  directories of the user (topology.rs, home.rs).
\<close>

section \<open>The offline commands\<close>

definition pretty_json :: "world \<Rightarrow> json \<Rightarrow> cli_error + string" where
  "pretty_json W v = (case to_text W Json v of Inl e \<Rightarrow> Inl (Document_problem e) | Inr s \<Rightarrow> Inr s)"

text \<open>The errors of the generator of JSON Schema; its panics are no result.\<close>

fun schema_error_text :: "json_schema_error \<Rightarrow> string option" where
  "schema_error_text (Bad_bound v) = Some (''the bound '' @ int_text v @ '' doesn't fit in a JSON number'')"
| "schema_error_text (At_path p e) = map_option (\<lambda>t. p @ '': '' @ t) (schema_error_text e)"
| "schema_error_text (Panic _) = None"
| "schema_error_text Overflow = None"

definition schema_args_ok :: "catalog_args \<Rightarrow> cli_error + unit" where
  "schema_args_ok a =
    (if arg_rest a \<noteq> [] then Inl (No_data_file (arg_rest a))
     else if arg_sids a \<noteq> [] then Inl Sids_not_needed
     else Inr ())"

definition run_schema :: "site \<Rightarrow> string list \<Rightarrow> (cli_error + cli_output) option" where
  "run_schema Q files =
    (let a = partition_catalog_files files in
     case rbind (schema_args_ok a) (\<lambda>_.
            if arg_yangs a = [] \<and> arg_tailoring a = None then load_workspace_schema Q
            else build_explicit_schema Q (arg_yangs a) [] (arg_tailoring a)) of
       Inl e \<Rightarrow> Some (Inl e)
     | Inr S \<Rightarrow>
        (case to_json_schema_for_catalog (nesting Q) S ''yang'' of
           Inl e \<Rightarrow> map_option (\<lambda>t. Inl (Document_problem t)) (schema_error_text e)
         | Inr v \<Rightarrow> Some (rbind (pretty_json (outer Q) v) (\<lambda>s. Inr (print_normalized s)))))"

definition catalog_args_ok :: "catalog_args \<Rightarrow> cli_error + unit" where
  "catalog_args_ok a =
    (if arg_rest a \<noteq> [] then Inl (Unexpected_files (arg_rest a))
     else if arg_yangs a = [] then Inl No_yang_files
     else Inr ())"

definition run_catalog :: "site \<Rightarrow> (catalog_failure \<Rightarrow> string) \<Rightarrow> string list \<Rightarrow> string option
    \<Rightarrow> (cli_error + cli_output) option" where
  "run_catalog Q show_failure files output_file =
    (let a = partition_catalog_files files in
     case rbind (catalog_args_ok a) (\<lambda>_.
            build_explicit_schema Q (arg_yangs a) (arg_sids a) (arg_tailoring a)) of
       Inl e \<Rightarrow> Some (Inl e)
     | Inr S \<Rightarrow>
         map_option (\<lambda>r. case r of
             Inl e \<Rightarrow> Inl (Document_problem (show_failure e))
           | Inr v \<Rightarrow> rbind (pretty_json (outer Q) v) (\<lambda>s. Inr (case output_file of
               Some p \<Rightarrow> To_file p (as_bytes (s @ nl))
             | None \<Rightarrow> print_normalized s)))
           (to_yang_catalog S))"

section \<open>The topology\<close>

text \<open>\<open>home_dir\<close> on systems other than Windows\<close>

definition home_dir :: "(string \<Rightarrow> string option) \<Rightarrow> string option" where
  "home_dir env = env ''HOME''"

text \<open>\<open>home_dir\<close> on Windows: the profile, or a drive with a path on it. \<open>push\<close> is the system's.\<close>

definition home_dir_windows :: "(string \<Rightarrow> string \<Rightarrow> string) \<Rightarrow> (string \<Rightarrow> string option) \<Rightarrow> string option" where
  "home_dir_windows push env =
    (case env ''USERPROFILE'' of
       Some profile \<Rightarrow> Some profile
     | None \<Rightarrow> Option.bind (env ''HOMEDRIVE'') (\<lambda>drive. map_option (push drive) (env ''HOMEPATH'')))"

text \<open>\<open>.mscc-libeasy-topology.yaml\<close> here or at home; the first one that can be read decides.\<close>

record topology =
  dut_terminal :: "string option"

definition candidate_paths :: "string option \<Rightarrow> string list" where
  "candidate_paths home =
     ''.mscc-libeasy-topology.yaml'' #
     (case home of Some h \<Rightarrow> [h @ ''/.mscc-libeasy-topology.yaml''] | None \<Rightarrow> [])"

fun load_topology :: "(string \<Rightarrow> string + string) \<Rightarrow> (string \<Rightarrow> string + topology) \<Rightarrow> string list \<Rightarrow> topology option" where
  "load_topology read from_yaml [] = None"
| "load_topology read from_yaml (p # ps) =
    (case read p of
       Inr text \<Rightarrow> (case from_yaml text of Inr t \<Rightarrow> Some t | Inl _ \<Rightarrow> None)
     | Inl _ \<Rightarrow> load_topology read from_yaml ps)"

definition device_from :: "topology option \<Rightarrow> string option" where
  "device_from t = Option.bind t dut_terminal"

section \<open>The device command\<close>

text \<open>
  What the command finds outside beside a \<open>site\<close>: the commands it runs, the crate that unpacks,
  the directory of the cache before and the disk after a download, and the texts of errors.
\<close>

record device_site =
  offline :: site
  run_command :: "string \<Rightarrow> string list \<Rightarrow> command_output"
  unpack_tar :: unpacker
  environment :: "string \<Rightarrow> string option"
  read_topology :: "string \<Rightarrow> string + topology"
  cache_of :: "string \<Rightarrow> cache_dir"
  disk_after :: "string \<Rightarrow> cache_dir \<Rightarrow> file_system"
  codec_message :: "codec_error \<Rightarrow> string"
  catalog_message :: "catalog_failure \<Rightarrow> string"

definition cache_base_dir :: "device_site \<Rightarrow> cli_error + path" where
  "cache_base_dir Q = rbind (ok_or No_home (home_dir (environment Q))) (\<lambda>h.
     Inr (path_join (path_parts h) ''.velocitydrive-yang-cache''))"

definition load_catalog_files_by_checksum :: "device_site \<Rightarrow> string \<Rightarrow> string option \<Rightarrow> cli_error + catalog_files" where
  "load_catalog_files_by_checksum Q checksum fetcher =
     rbind (cache_base_dir Q) (\<lambda>base.
     (case download_and_extract (run_command Q) (unpack_tar Q) checksum fetcher (cache_of Q checksum) of
        (Inl e, _) \<Rightarrow> Inl (Catalog e)
      | (Inr _, c) \<Rightarrow>
         (case load_from_dir (disk_after Q checksum c) (path_join (path_join base checksum) ''catalog'') of
            Inl e \<Rightarrow> Inl (Catalog e) | Inr files \<Rightarrow> Inr files)))"

definition load_schema_by_checksum :: "device_site \<Rightarrow> string \<Rightarrow> string option \<Rightarrow> cli_error + schema" where
  "load_schema_by_checksum Q checksum fetcher =
     rbind (load_catalog_files_by_checksum Q checksum fetcher) (build_schema_from_catalog_files (offline Q))"

text \<open>The inputs of one request loop: of its first transmission, and of its iterations.\<close>

type_synonym request_inputs = "loop_input \<times> loop_input list"

definition load_downloaded_schema :: "device_site \<Rightarrow> request_inputs \<Rightarrow> string option \<Rightarrow> client
    \<Rightarrow> (client \<times> (cli_error + schema)) run" where
  "load_downloaded_schema Q io fetcher c =
     run_map (\<lambda>(c', r). (c', rbind r (\<lambda>checksum. load_schema_by_checksum Q checksum fetcher)))
       (fetch_yang_lib_checksum (fst io) (snd io) c)"

text \<open>What is decided before anything is opened.\<close>

definition checksum_type_of :: "string \<Rightarrow> checksum_type" where
  "checksum_type_of s = (if s = ''crc32'' then Crc32 else Internet)"

definition start_device :: "cli_opts \<Rightarrow> topology option \<Rightarrow> (cli_error + device \<times> checksum_type \<times> string) option" where
  "start_device opts topo =
    (case validate_query (opt_query opts) of
       None \<Rightarrow> None
     | Some r \<Rightarrow> Some (
         rbind r (\<lambda>_.
         if opt_key opts \<noteq> None then Inl Dtls_unsupported
         else
           rbind (ok_or No_device (or_else (opt_device opts) (device_from topo))) (\<lambda>dev.
           rbind (ok_or No_method (opt_method opts)) (\<lambda>meth.
           (case open_device dev (opt_baudrate opts) of
              Inl e \<Rightarrow> Inl (Bad_device dev e)
            | Inr d \<Rightarrow> Inr (d, checksum_type_of (opt_checksum_type opts), meth)))))))"

definition uses_workspace :: "cli_opts \<Rightarrow> topology option \<Rightarrow> bool" where
  "uses_workspace opts topo =
    (case workspace_flag (opt_workspace opts) (opt_no_workspace opts) of Some v \<Rightarrow> v | None \<Rightarrow> topo \<noteq> None)"

definition device_schema :: "device_site \<Rightarrow> cli_opts \<Rightarrow> topology option \<Rightarrow> request_inputs \<Rightarrow> client
    \<Rightarrow> (client \<times> (cli_error + schema)) run" where
  "device_schema Q opts topo io c =
    (if uses_workspace opts topo then Returned (c, load_workspace_schema (offline Q))
     else load_downloaded_schema Q io (opt_catalog_fetcher opts) c)"

definition has_input :: "string \<Rightarrow> bool" where
  "has_input meth \<longleftrightarrow> meth \<in> {''fetch'', ''ipatch'', ''put'', ''post''}"

definition request_input :: "world \<Rightarrow> cli_opts \<Rightarrow> string \<Rightarrow> cli_error + json option" where
  "request_input W opts meth =
    (if has_input meth then
       rbind (read_input W (opt_input opts) (opt_input_format opts)) (\<lambda>(v, f). Inr (Some v))
     else Inr None)"

text \<open>What is shown: the line of an error response, and the value.\<close>

definition run_device :: "device_site \<Rightarrow> cli_opts \<Rightarrow> topology option \<Rightarrow> request_inputs \<Rightarrow> request_inputs \<Rightarrow> client
    \<Rightarrow> (string option \<times> (cli_error + cli_output option)) run" where
  "run_device Q opts topo io_schema io c =
    (case start_device opts topo of
       None \<Rightarrow> Panicked
     | Some (Inl e) \<Rightarrow> Returned (None, Inl e)
     | Some (Inr (_, _, meth)) \<Rightarrow>
        (case device_schema Q opts topo io_schema c of
           Panicked \<Rightarrow> Panicked
         | Waiting \<Rightarrow> Waiting
         | Returned (_, Inl e) \<Rightarrow> Returned (None, Inl e)
         | Returned (c, Inr S) \<Rightarrow>
             let W = outer (offline Q) in
             (case rbind (request_input W opts meth) (\<lambda>input.
                rbind (url_with_query_params ''c'' (opt_query opts) meth) (\<lambda>url. Inr (input, url))) of
                Inl e \<Rightarrow> Returned (None, Inl e)
              | Inr (input, url) \<Rightarrow>
                  run_map (\<lambda>(_, r). case r of
                      Inl e \<Rightarrow> (None, Inl e)
                    | Inr (printed, out) \<Rightarrow> (printed, case out of
                          None \<Rightarrow> Inr None
                        | Some v \<Rightarrow> write_output W v (opt_output opts) (opt_output_format opts)))
                    (coap_method_run (codec_message Q) (codec_of (offline Q) S) input url meth (opt_continue opts)
                       (fst io) (snd io) c))))"

section \<open>All commands\<close>

datatype cli_command =
  Command_conv conv_args
| Command_schema "string list"
| Command_catalog "string option" "string list"

definition finished :: "(cli_error + cli_output) option \<Rightarrow> (string option \<times> (cli_error + cli_output option)) run" where
  "finished r = (case r of None \<Rightarrow> Panicked | Some x \<Rightarrow> Returned (None, rbind x (\<lambda>out. Inr (Some out))))"

definition run :: "device_site \<Rightarrow> cli_command option \<Rightarrow> cli_opts \<Rightarrow> request_inputs \<Rightarrow> request_inputs \<Rightarrow> nat
    \<Rightarrow> (string option \<times> (cli_error + cli_output option)) run" where
  "run Q command opts io_schema io seed =
    (case command of
       Some (Command_conv args) \<Rightarrow> finished (run_conv (offline Q) args)
     | Some (Command_schema files) \<Rightarrow> finished (run_schema (offline Q) files)
     | Some (Command_catalog out files) \<Rightarrow> finished (run_catalog (offline Q) (catalog_message Q) files out)
     | None \<Rightarrow>
         run_device Q opts
           (load_topology (\<lambda>p. case read_named (offline Q) p of Inl _ \<Rightarrow> Inl [] | Inr t \<Rightarrow> Inr t) (read_topology Q)
              (candidate_paths (home_dir (environment Q))))
           io_schema io (client_new seed))"

text \<open>With the options that the command line parser lets through, no query panics.\<close>

lemma start_device_returns: "set (opt_query opts) \<subseteq> set QUERY_VALUES \<Longrightarrow> start_device opts topo \<noteq> None"
  using check_groups_returns [of "opt_query opts" "[]"]
  by (auto simp: start_device_def validate_query_def split: option.splits)

text \<open>A query is only sent with a method that takes one, and at most one parameter of each group.\<close>

lemma url_with_query_params_Inr:
  "url_with_query_params base q meth = Inr url \<Longrightarrow> q \<noteq> [] \<Longrightarrow> meth \<in> {''fetch'', ''get''}"
  by (auto simp: url_with_query_params_def split: if_splits)

end
