(* ===== verification/Mup1_Polls.thy ===== *)
theory Mup1_Polls
  imports Mup1_Client
begin

text \<open>
  Frames that arrive in pieces: a sequence of polls, and that however the reads of the transport
  cut the bytes of frames, the polls hand over these frames, as long as no read is so late that
  the decoder gives an open frame up.
\<close>

section \<open>A sequence of polls\<close>

text \<open>What each read of the transport returned, with the clock of its poll.\<close>

type_synonym reads = "(bytes \<times> u64) list"

fun poll_all :: "reads \<Rightarrow> mup1_client \<Rightarrow> (frame list list \<times> mup1_client) option" where
  "poll_all [] c = Some ([], c)"
| "poll_all ((bs, now) # rs) c =
    (case poll (Inr bs :: string + bytes) now c of
       Some (Inr (fs, _, c')) \<Rightarrow> map_option (\<lambda>(fss, c''). (fs # fss, c'')) (poll_all rs c')
     | _ \<Rightarrow> None)"

lemma poll_all_append:
  "poll_all (rs @ qs) c =
     (case poll_all rs c of None \<Rightarrow> None
      | Some (fss, c') \<Rightarrow>
          (case poll_all qs c' of None \<Rightarrow> None | Some (gss, c'') \<Rightarrow> Some (fss @ gss, c'')))"
  by (induction rs c rule: poll_all.induct) (auto split: option.splits sum.splits prod.splits)

section \<open>What a byte does not depend on\<close>

text \<open>
  The frames that wait and the two fields of the timeout are written by \<open>inject\<close> and read by
  none of its branches: another decoder that differs in them goes the same way.
\<close>

definition view :: "frame list \<Rightarrow> nat \<Rightarrow> u64 \<Rightarrow> decoder \<Rightarrow> decoder" where
  "view fs len t d = d\<lparr>frames := fs, open_len_at_last_tick := len, time_of_last_progress := t\<rparr>"

lemma view_sel [simp]:
  "ctype (view fs len t d) = ctype d" "dstate (view fs len t d) = dstate d" "raw (view fs len t d) = raw d"
  "raw_head (view fs len t d) = raw_head d" "data_end (view fs len t d) = data_end d"
  "data_len (view fs len t d) = data_len d" "chk_state (view fs len t d) = chk_state d"
  "checksum_len (view fs len t d) = checksum_len d" "checksum_bytes (view fs len t d) = checksum_bytes d"
  "drop_count (view fs len t d) = drop_count d" "timeout_ms (view fs len t d) = timeout_ms d"
  "frames (view fs len t d) = fs" "open_len_at_last_tick (view fs len t d) = len"
  "time_of_last_progress (view fs len t d) = t"
  by (simp_all add: view_def)

lemma view_view [simp]: "view fs len t (view gs len' t' d) = view fs len t d"
  by (simp add: view_def)

lemma view_upd:
  "(view fs len t d)\<lparr>raw := r\<rparr> = view fs len t (d\<lparr>raw := r\<rparr>)"
  "(view fs len t d)\<lparr>raw_head := n\<rparr> = view fs len t (d\<lparr>raw_head := n\<rparr>)"
  "(view fs len t d)\<lparr>dstate := st\<rparr> = view fs len t (d\<lparr>dstate := st\<rparr>)"
  "(view fs len t d)\<lparr>data_end := n\<rparr> = view fs len t (d\<lparr>data_end := n\<rparr>)"
  "(view fs len t d)\<lparr>data_len := n\<rparr> = view fs len t (d\<lparr>data_len := n\<rparr>)"
  "(view fs len t d)\<lparr>chk_state := k\<rparr> = view fs len t (d\<lparr>chk_state := k\<rparr>)"
  "(view fs len t d)\<lparr>checksum_len := n\<rparr> = view fs len t (d\<lparr>checksum_len := n\<rparr>)"
  "(view fs len t d)\<lparr>checksum_bytes := r\<rparr> = view fs len t (d\<lparr>checksum_bytes := r\<rparr>)"
  "(view fs len t d)\<lparr>drop_count := k'\<rparr> = view fs len t (d\<lparr>drop_count := k'\<rparr>)"
  by (simp_all add: view_def)

lemma inject_byte_view: "inject_byte ch (view fs len t d) = view fs len t (inject_byte ch d)"
  by (simp add: inject_byte_def inject_eof_def resolve_raw_def resolve_raw_before_last_def view_upd Let_def)

lemma resolve_success_view:
  "resolve_success d = Some d' \<Longrightarrow>
     \<exists>f. frames d' = frames d @ [f] \<and> resolve_success (view fs len t d) = Some (view (fs @ [f]) len t d')"
  by (auto simp: resolve_success_def view_def split: option.splits if_splits)

lemma inject_checksum_view:
  "inject_checksum ch d = Some (st, d') \<Longrightarrow>
     \<exists>gs st'. frames d' = frames d @ gs \<and> inject_checksum ch (view fs len t d) = Some (st', view (fs @ gs) len t d')"
proof -
  assume inj: "inject_checksum ch d = Some (st, d')"
  let ?d = "d\<lparr>checksum_bytes := checksum_bytes d @ [ch]\<rparr>"
  have ok: "checksum_ok (view fs len t ?d) = checksum_ok ?d" by (simp add: checksum_ok_def)
  consider "length (checksum_bytes ?d) < checksum_len d" "d' = ?d"
    | "\<not> length (checksum_bytes ?d) < checksum_len d" "checksum_ok ?d" "resolve_success ?d = Some d'"
    | "\<not> length (checksum_bytes ?d) < checksum_len d" "\<not> checksum_ok ?d" "d' = resolve_raw ?d"
    using inj by (auto simp: inject_checksum_def Let_def split: if_splits)
  then show ?thesis
  proof cases
    case 2
    with resolve_success_view [OF 2(3), of fs len t] ok show ?thesis
      by (auto simp: inject_checksum_def view_upd Let_def)
  next
    case 3
    with ok show ?thesis by (simp add: inject_checksum_def view_upd resolve_raw_def Let_def)
  qed (simp add: inject_checksum_def view_upd Let_def)
qed

lemma inject_view:
  assumes "inject ch d = Some (st, d')"
  shows "\<exists>gs st'. frames d' = frames d @ gs \<and> inject ch (view fs len t d) = Some (st', view (fs @ gs) len t d')"
proof (cases "length (raw d) < RAW_BUF_CAP")
  case False
  with assms show ?thesis
    by (auto simp: inject_def raw_append_def resolve_raw_def view_upd Let_def)
next
  case True
  then have room: "raw_append ch (view gs len t d) = Some (view gs len t (d\<lparr>raw := raw d @ [ch]\<rparr>))" for gs
    by (simp add: view_upd)
  consider "dstate d = PostFrame" "ch = CR" | "dstate d = PostFrameCr" "ch = LF"
    | "dstate d = PostFrame" "ch \<noteq> CR" | "dstate d = PostFrameCr" "ch \<noteq> LF"
    | "dstate d = Checksum" | "dstate d \<notin> {PostFrame, PostFrameCr, Checksum}" by blast
  then show ?thesis
  proof cases
    case 5
    with True assms have "inject_checksum ch (d\<lparr>raw := raw d @ [ch]\<rparr>) = Some (st, d')"
      by (simp add: inject_def)
    from inject_checksum_view [OF this, of fs len t] 5 room show ?thesis by (simp add: inject_def)
  next
    case 6
    with True assms have "d' = inject_byte ch (d\<lparr>raw := raw d @ [ch]\<rparr>)" by (simp add: inject_def Let_def)
    with 6 room [of fs] show ?thesis
      by (intro exI [of _ "[]"]) (simp add: inject_def inject_byte_view Let_def)
  qed (use True assms room in \<open>force simp: inject_def pop_raw_def view_upd inject_byte_view Let_def\<close>)+
qed

lemma inject_all_view:
  "inject_all bs d = Some d' \<Longrightarrow>
     \<exists>gs. frames d' = frames d @ gs \<and> inject_all bs (view fs len t d) = Some (view (fs @ gs) len t d')"
proof (induction bs arbitrary: d fs)
  case Nil
  then show ?case by simp
next
  case (Cons b bs)
  then obtain st d1 where 1: "inject b d = Some (st, d1)" "inject_all bs d1 = Some d'"
    by (auto split: option.splits)
  from inject_view [OF 1(1), of fs len t] obtain g st' where
    g: "frames d1 = frames d @ g" "inject b (view fs len t d) = Some (st', view (fs @ g) len t d1)" by blast
  from Cons.IH [OF 1(2), of "fs @ g"] obtain gs where
    "frames d' = frames d1 @ gs" "inject_all bs (view (fs @ g) len t d1) = Some (view (fs @ g @ gs) len t d')" by auto
  with g show ?case by auto
qed

text \<open>The settled part of the buffer only grows while bytes arrive.\<close>

lemma inject_settled:
  "inject ch d = Some (st, d') \<Longrightarrow> raw_head d \<le> length (raw d) \<Longrightarrow>
     raw_head d \<le> raw_head d' \<and> raw_head d' \<le> length (raw d')"
  by (auto simp: inject_def raw_append_def inject_checksum_def resolve_success_def pop_raw_def resolve_raw_def
      inject_byte_def inject_eof_def resolve_raw_before_last_def Let_def
      split: if_splits option.splits)

lemma inject_all_settled:
  "inject_all bs d = Some d' \<Longrightarrow> raw_head d \<le> length (raw d) \<Longrightarrow>
     raw_head d \<le> raw_head d' \<and> raw_head d' \<le> length (raw d')"
proof (induction bs arbitrary: d)
  case (Cons b bs)
  then obtain st d1 where "inject b d = Some (st, d1)" "inject_all bs d1 = Some d'"
    by (auto split: option.splits)
  with Cons.IH [of d1] inject_settled [of b d st d1] Cons.prems(2) show ?case by auto
qed simp

lemma inject_timeout: "inject ch d = Some (st, d') \<Longrightarrow> timeout_ms d' = timeout_ms d"
  by (auto simp: inject_def raw_append_def inject_checksum_def resolve_success_def pop_raw_def resolve_raw_def
      inject_byte_def inject_eof_def resolve_raw_before_last_def Let_def
      split: if_splits option.splits)

lemma inject_all_timeout: "inject_all bs d = Some d' \<Longrightarrow> timeout_ms d' = timeout_ms d"
  by (induction bs arbitrary: d) (auto dest: inject_timeout split: option.splits)

section \<open>Frames in pieces\<close>

text \<open>
  The clocks at which bytes of a frame may arrive: from \<open>t0\<close> on and before the timeout has
  passed since. The tick of a poll in such a window settles nothing.
\<close>

definition in_window :: "u64 \<Rightarrow> u64 \<Rightarrow> u64 \<Rightarrow> bool" where
  "in_window limit t0 now \<longleftrightarrow> t0 \<le> now \<and> saturating_sub now t0 < limit"

lemma in_window_later:
  assumes "in_window limit t0 now" "t0 \<le> t"
  shows "saturating_sub now t < limit"
proof (cases "t \<le> now")
  case True
  with assms have "now - t \<le> now - t0" by (simp add: in_window_def word_le_nat_alt unat_sub_if')
  with assms True show ?thesis by (auto simp: in_window_def saturating_sub_def dest: le_less_trans)
next
  case False
  with assms show ?thesis by (auto simp: in_window_def saturating_sub_def word_le_nat_alt word_less_nat_alt)
qed

lemma tick_view:
  assumes "raw_head d = 0" "len = 0 \<or> t0 \<le> t" "in_window (timeout_ms d) t0 now"
  shows "\<exists>t'. snd (tick now (view fs len t d)) = view fs (length (raw d)) t' d \<and> (raw d = [] \<or> t0 \<le> t')"
proof (cases "length (raw d) = len")
  case True
  show ?thesis
  proof (cases "raw d = []")
    case False
    with True assms(2) have "t0 \<le> t" by auto
    with in_window_later [OF assms(3) this] True assms(1) show ?thesis
      by (intro exI [of _ t]) (auto simp: tick_def Let_def)
  qed (use True assms(1) in \<open>auto simp: tick_def Let_def\<close>)
next
  case False
  with assms show ?thesis
    by (intro exI [of _ now]) (simp add: tick_def view_def in_window_def Let_def)
qed

lemma poll_view:
  assumes "mc_decoder c = view [] len t d" "inject_all bs d = Some d1" "raw_head d \<le> length (raw d)" "raw_head d1 = 0"
    and "len = 0 \<or> t0 \<le> t" "in_window (timeout_ms d) t0 now"
  shows "\<exists>gs t'. frames d1 = frames d @ gs \<and> (raw d1 = [] \<or> t0 \<le> t')
    \<and> poll (Inr bs :: 'e + bytes) now c =
      Some (Inr (gs, bs \<noteq> [], c\<lparr>mc_decoder := view [] (length (raw d1)) t' d1\<rparr>))"
proof -
  obtain gs where gs: "frames d1 = frames d @ gs" "inject_all bs (view [] len t d) = Some (view gs len t d1)"
    using inject_all_view [OF assms(2), of "[]" len t] by auto
  obtain t' where t': "snd (tick now (view gs len t d1)) = view gs (length (raw d1)) t' d1" "raw d1 = [] \<or> t0 \<le> t'"
    using tick_view [of d1 len t0 t now gs] assms(4-6) inject_all_timeout [OF assms(2)] by auto
  have "drain (view gs (length (raw d1)) t' d1) = (gs, view [] (length (raw d1)) t' d1)"
    using assms(4) by (simp add: drain_eq view_def)
  with gs t' assms(1) show ?thesis by (auto simp: poll_def)
qed

lemma poll_all_view:
  assumes "mc_decoder c = view [] len t d" "inject_all (concat (map fst rs)) d = Some e"
    and "raw_head d \<le> length (raw d)" "raw_head e = 0"
    and "len = 0 \<or> t0 \<le> t" "\<forall>r \<in> set rs. in_window (timeout_ms d) t0 (snd r)"
  shows "\<exists>fss len' t'. frames e = frames d @ concat fss
    \<and> poll_all rs c = Some (fss, c\<lparr>mc_decoder := view [] len' t' e\<rparr>)
    \<and> (rs \<noteq> [] \<longrightarrow> len' = length (raw e))"
  using assms
proof (induction rs arbitrary: c d len t)
  case Nil
  then show ?case by (intro exI [of _ "[]"] exI [of _ len] exI [of _ t]) simp
next
  case (Cons r rs)
  obtain bs now where r: "r = (bs, now)" by (cases r)
  with Cons.prems(2) obtain d1 where d1: "inject_all bs d = Some d1" "inject_all (concat (map fst rs)) d1 = Some e"
    by (auto simp: inject_all_append split: option.splits)
  have s: "raw_head d1 \<le> length (raw d1)" "raw_head d1 \<le> raw_head e"
    using inject_all_settled [OF d1(1) Cons.prems(3)] inject_all_settled [OF d1(2)] by auto
  with Cons.prems(4) have "raw_head d1 = 0" by simp
  from poll_view [OF Cons.prems(1) d1(1) Cons.prems(3) this Cons.prems(5)] Cons.prems(6) r obtain gs t1 where
    p: "frames d1 = frames d @ gs" "raw d1 = [] \<or> t0 \<le> t1"
      "poll (Inr bs :: string + bytes) now c = Some (Inr (gs, bs \<noteq> [], c\<lparr>mc_decoder := view [] (length (raw d1)) t1 d1\<rparr>))"
    by force
  let ?c = "c\<lparr>mc_decoder := view [] (length (raw d1)) t1 d1\<rparr>"
  have "\<exists>fss len' t'. frames e = frames d1 @ concat fss
      \<and> poll_all rs ?c = Some (fss, ?c\<lparr>mc_decoder := view [] len' t' e\<rparr>) \<and> (rs \<noteq> [] \<longrightarrow> len' = length (raw e))"
    using Cons.prems(4,6) p(2) s(1) d1(2) inject_all_timeout [OF d1(1)] by (intro Cons.IH) auto
  then obtain fss len' t' where f: "frames e = frames d1 @ concat fss"
    "poll_all rs ?c = Some (fss, c\<lparr>mc_decoder := view [] len' t' e\<rparr>)" "rs \<noteq> [] \<longrightarrow> len' = length (raw e)" by auto
  show ?case
  proof (cases "rs = []")
    case True
    with f(2) d1(2) have "fss = []" "e = d1" by auto
    with r p True show ?thesis by (intro exI [of _ "[gs]"] exI [of _ "length (raw d1)"] exI [of _ t1]) simp
  next
    case False
    with r p f show ?thesis by (intro exI [of _ "gs # fss"] exI [of _ len'] exI [of _ t']) simp
  qed
qed

text \<open>A client between two frames.\<close>

definition mup1_ready :: "mup1_client \<Rightarrow> bool" where
  "mup1_ready c \<longleftrightarrow> (let d = mc_decoder c in
     ctype d = mc_checksum_type c \<and> dstate d = Idle \<and> raw d = [] \<and> raw_head d = 0 \<and> frames d = []
     \<and> open_len_at_last_tick d = 0)"

lemma mup1_ready_new: "mup1_ready (mup1_client_new ct)"
  by (simp add: mup1_ready_def mup1_client_new_def decoder_new_def)

text \<open>While nothing arrives, nothing changes.\<close>

lemma poll_nothing: "mup1_ready c \<Longrightarrow> poll (Inr [] :: 'e + bytes) now c = Some (Inr ([], False, c))"
  by (simp add: poll_def mup1_ready_def tick_def drain_eq Let_def)

lemma poll_all_nothing:
  "mup1_ready c \<Longrightarrow> \<forall>r \<in> set rs. fst r = [] \<Longrightarrow> poll_all rs c = Some (replicate (length rs) [], c)"
  by (induction rs) (auto simp: poll_nothing)

text \<open>Frames without other output between them, in any pieces.\<close>

definition plain_line :: "(u8 \<times> bytes) list \<Rightarrow> (bytes \<times> u8 \<times> bytes) list" where
  "plain_line fs = map (\<lambda>(t, data). ([], t, data)) fs"

lemma plain_line_frames:
  "map (\<lambda>(noise, t, data). \<lparr>type_byte = t, frame_data = data\<rparr>) (plain_line fs) =
     map (\<lambda>(t, data). \<lparr>type_byte = t, frame_data = data\<rparr>) fs" "concat (map fst (plain_line fs)) = []"
  by (auto simp: plain_line_def)

lemma polls_in_pieces:
  assumes "mup1_ready c" "line_ok (mc_checksum_type c) 0 (plain_line fs)" "rs \<noteq> []"
    and "concat (map fst rs) = line (mc_checksum_type c) (plain_line fs)"
    and "\<forall>r \<in> set rs. in_window (timeout_ms (mc_decoder c)) t0 (snd r)"
  shows "\<exists>fss c'. poll_all rs c = Some (fss, c') \<and> mup1_ready c'
    \<and> concat fss = map (\<lambda>(t, data). \<lparr>type_byte = t, frame_data = data\<rparr>) fs"
proof -
  let ?d = "mc_decoder c"
  from assms(1) have d: "ctype ?d = mc_checksum_type c" "dstate ?d = Idle" "raw ?d = []" "raw_head ?d = 0"
    "frames ?d = []" "open_len_at_last_tick ?d = 0" by (simp_all add: mup1_ready_def Let_def)
  from inject_line [of ?d "plain_line fs"] d assms(2) obtain e where
    e: "inject_all (line (mc_checksum_type c) (plain_line fs)) ?d = Some e" "frames e = map (\<lambda>(t, data). \<lparr>type_byte = t, frame_data = data\<rparr>) fs"
      "raw e = []" "raw_head e = 0" "dstate e = Idle" "ctype e = mc_checksum_type c"
    by (auto simp: plain_line_frames)
  have "?d = view [] 0 (time_of_last_progress ?d) ?d" using d by (simp add: view_def)
  from poll_all_view [OF this, of rs e t0] assms(3-5) d e(1,4) obtain fss len' t' where
    "frames e = concat fss" "poll_all rs c = Some (fss, c\<lparr>mc_decoder := view [] len' t' e\<rparr>)" "len' = length (raw e)"
    by (auto simp: d)
  with e show ?thesis by (auto simp: mup1_ready_def Let_def)
qed

end
