(* ===== verification/Coap_Upload.thy ===== *)
theory Coap_Upload
  imports Coap_Correct
begin

text \<open>
  A body uploaded by the request loop: the messages that are sent for its blocks and what they say
  to a device, from the first transmission to the last acknowledgement.
\<close>

section \<open>The request of each block\<close>

text \<open>
  What the \<open>k\<close>-th message of an upload says: message \<open>mid + k\<close> with the \<open>k\<close>-th slice of the body,
  announced as block \<open>k\<close> when there is more than one.
\<close>

definition block_sent :: "request_ctx \<Rightarrow> u8 \<Rightarrow> u16 \<Rightarrow> nat \<Rightarrow> parsed_message" where
  "block_sent x s mid k =
    (let sz = 2 ^ (unat s + 4); len = length (x_payload x) in
     \<lparr>pm_type = Con, pm_code = method_code (x_method x), pm_msg_id = mid + word_of_nat k,
      pm_content_format = x_content_format x,
      pm_block1 = (if sz < len \<or> 0 < k
        then Some \<lparr>block_num = word_of_nat k, block_more = ((k + 1) * sz < len), block_szx = s\<rparr> else None),
      pm_block2 = Some \<lparr>block_num = 0, block_more = False, block_szx = s\<rparr>,
      pm_payload = take sz (drop (k * sz) (x_payload x))\<rparr>)"

definition uri_ok :: "string \<Rightarrow> bool" where
  "uri_ok uri \<longleftrightarrow> (\<forall>seg \<in> set (uri_segments (uri_path uri) CHR ''/'' @ uri_queries uri). length seg < 65536)"

text \<open>The state of the loop when \<open>k\<close> blocks are acknowledged and the next one is sent.\<close>

definition uploading :: "request_ctx \<Rightarrow> u8 \<Rightarrow> u16 \<Rightarrow> nat \<Rightarrow> loop_state \<Rightarrow> bool" where
  "uploading x s mid k l \<longleftrightarrow>
     uploaded (length (x_payload x)) s k (l_session l) \<and> \<not> need_resend (l_session l)
     \<and> msg_id (l_session l) = mid + word_of_nat k \<and> resp_payload (l_session l) = []
     \<and> block2_num (l_session l) = 0 \<and> block2_szx (l_session l) = s
     \<and> map parse (l_sent l) = map (\<lambda>j. Inr (block_sent x s mid j)) [0..<Suc k]"

lemma sends_block:
  assumes "uploaded (length (x_payload x)) s k ss" "msg_id ss = mid + word_of_nat k" "block2_num ss = 0" "block2_szx ss = s"
    and "s < 7" "k * 2 ^ (unat s + 4) < length (x_payload x)" "length (x_payload x) < 2 ^ 32" "uri_ok (x_uri x)"
  shows "\<exists>wire. send_frame x ss = Some wire \<and> parse wire = Inr (block_sent x s mid k)"
proof -
  let ?sz = "2 ^ (unat s + 4) :: nat"
  have s8: "s < 8" using assms(5) by (simp add: word_less_nat_alt)
  have "k * 16 \<le> k * ?sz" by (intro mult_le_mono2) (simp add: power_add)
  from le_less_trans [OF this assms(6)] assms(7) have k: "k < 2 ^ 28" by simp
  then have uk: "unat (word_of_nat k :: u32) < 2 ^ 28" by (simp add: unat_of_nat)
  note b = uploaded_block [OF assms(1) s8 assms(6,7)]
  let ?r = "\<lparr>req_method = x_method x, req_msg_id = msg_id ss, req_token = x_token x, req_uri = x_uri x,
    req_content_format = x_content_format x, req_accept = x_accept x,
    req_block1 = pm_block1 (block_sent x s mid k),
    req_block2 = \<lparr>block_num = block2_num ss, block_more = False, block_szx = block2_szx ss\<rparr>,
    req_payload = pm_payload (block_sent x s mid k)\<rparr>"
  have "request_ok ?r"
    using assms(3,4,8) s8 uk by (auto simp: request_ok_def uri_ok_def block_sent_def Let_def)
  from parse_encode_request [OF this] assms(2-4)
  have "parse (encode_request ?r) = Inr (block_sent x s mid k)" by (simp add: block_sent_def Let_def)
  moreover have "send_frame x ss = Some (encode_request ?r)"
    by (simp add: send_frame_def b block_sent_def Let_def)
  ultimately show ?thesis by blast
qed

section \<open>A body uploaded by the loop\<close>

text \<open>The poll hands over one frame, with the acknowledgement of the message \<open>mid\<close>.\<close>

definition acknowledged :: "u16 \<Rightarrow> (parsed_message \<Rightarrow> bool) \<Rightarrow> loop_input \<Rightarrow> bool" where
  "acknowledged mid good i \<longleftrightarrow> in_write_error i = None \<and> (\<exists>f p. in_poll i = Inr [f] \<and> is_coap_frame f
     \<and> parse (frame_data f) = Inr p \<and> pm_type p = Ack \<and> pm_msg_id p = mid \<and> good p)"

definition next_please :: "u8 \<Rightarrow> parsed_message \<Rightarrow> bool" where
  "next_please s p \<longleftrightarrow> continue_ack s p \<and> pm_payload p = []"

lemma upload_starts:
  assumes "szx_for_size (c_block_size c) = Some s" "s < 7" "in_write_error i = None" "uri_ok uri"
    and "payload \<noteq> []" "length payload < 2 ^ 32"
  shows "\<exists>c' x l. request_start meth uri cf acc payload i c = Some (c', x, Running l)
    \<and> uploading x s (c_msg_id c + 1) 0 l \<and> x_payload x = payload \<and> x_method x = meth \<and> x_content_format x = cf
    \<and> x_uri x = uri \<and> c_msg_id c' = c_msg_id c + 1"
proof -
  let ?x = "\<lparr>x_method = meth, x_uri = uri, x_content_format = cf, x_accept = acc, x_payload = payload,
    x_token = c_token c + 1\<rparr>"
  let ?ss = "session_new (c_msg_id c + 1) s payload"
  have "\<exists>wire. send_frame ?x ?ss = Some wire \<and> parse wire = Inr (block_sent ?x s (c_msg_id c + 1) 0)"
    using assms uploaded_new [of payload s "c_msg_id c + 1"]
    by (intro sends_block) (simp_all add: session_new_def)
  then show ?thesis using assms(1,3) uploaded_new [of payload s "c_msg_id c + 1"]
    by (auto simp: request_start_def transmit_def uploading_def session_new_def)
qed

lemma upload_step:
  assumes up: "uploading x s mid k l" and ack: "acknowledged (mid + word_of_nat k) (next_please s) i"
    and s: "s < 7" and more: "(k + 1) * 2 ^ (unat s + 4) < length (x_payload x)"
    and len: "length (x_payload x) < 2 ^ 32" and uri: "uri_ok (x_uri x)"
  shows "\<exists>l'. loop_step x i (Running l) = Some (Running l') \<and> uploading x s mid (Suc k) l'"
proof -
  let ?ss = "l_session l"
  obtain f p where p: "in_poll i = Inr [f]" "is_coap_frame f" "parse (frame_data f) = Inr p" "pm_type p = Ack"
    "pm_msg_id p = mid + word_of_nat k" "next_please s p" "in_write_error i = None"
    using ack by (auto simp: acknowledged_def)
  let ?ss' = "(process_response p ?ss)\<lparr>need_resend := False\<rparr>"
  have s8: "s < 8" using s by (simp add: word_less_nat_alt)
  have "k * 1 \<le> (k + 1) * 2 ^ (unat s + 4)" by (intro mult_le_mono) simp_all
  with more len have k: "k < 2 ^ 32" by linarith
  have u: "uploaded (length (x_payload x)) s (Suc k) (process_response p ?ss)"
    using uploaded_step [of "length (x_payload x)" s k ?ss p] up p(6) s8 k more by (simp add: uploading_def next_please_def)
  obtain b where b: "pm_code p = RESPONSE_CONTINUE" "pm_block1 p = Some b" "pm_payload p = []" "continue_ack s p"
    using p(6) by (auto simp: next_please_def continue_ack_def)
  have err: "s_error (process_response p ?ss) = None" "\<not> s_done (process_response p ?ss)" "\<not> s_done ?ss"
    using u up by (simp_all add: uploaded_def uploading_def)
  have nx: "msg_id (process_response p ?ss) = msg_id ?ss + 1" "need_resend (process_response p ?ss)"
    "resp_payload (process_response p ?ss) = resp_payload ?ss" "block2_num (process_response p ?ss) = block2_num ?ss"
    "block2_szx (process_response p ?ss) = block2_szx ?ss"
    using err by (simp_all add: process_response_continue [OF b(4)] process_continue_def b Let_def split: if_splits)
  have u': "uploaded (length (x_payload x)) s (Suc k) ?ss'" using u by (simp add: uploaded_def)
  have id: "msg_id ?ss' = mid + word_of_nat (Suc k)" "block2_num ?ss' = 0" "block2_szx ?ss' = s"
    using up nx by (simp_all add: uploading_def)
  from more have "Suc k * 2 ^ (unat s + 4) < length (x_payload x)" by simp
  from sends_block [OF u' id s this len uri] obtain wire where
    w: "send_frame x ?ss' = Some wire" "parse wire = Inr (block_sent x s mid (Suc k))" by blast
  let ?l = "l\<lparr>l_session := ?ss', l_deadline := in_now_set i + RETRANSMIT_MS, l_count := 0, l_sent := l_sent l @ [wire]\<rparr>"
  have "on_frame f ?ss = process_response p ?ss"
    using p up by (simp add: on_frame_def uploading_def)
  then have "loop_step x i (Running l) = Some (Running ?l)"
    using p(1,2,7) err nx(2) w(1) by (simp add: loop_step_def loop_body_def transmit_def Let_def)
  moreover have "uploading x s mid (Suc k) ?l"
    using up u' id nx w(2) by (simp add: uploading_def)
  ultimately show ?thesis by blast
qed

lemma upload_run:
  assumes "uploading x s mid 0 l" "s < 7" "length (x_payload x) < 2 ^ 32" "uri_ok (x_uri x)"
    and "length acks * 2 ^ (unat s + 4) < length (x_payload x)"
    and "\<forall>k < length acks. acknowledged (mid + word_of_nat k) (next_please s) (acks ! k)"
  shows "\<exists>l'. steps (loop_step x) acks (Running l) = Some (Running l') \<and> uploading x s mid (length acks) l'"
  using assms(5,6)
proof (induction acks rule: rev_induct)
  case Nil
  then show ?case using assms(1) by simp
next
  case (snoc i acks)
  have "length acks * 2 ^ (unat s + 4) \<le> length (acks @ [i]) * 2 ^ (unat s + 4)" by (intro mult_le_mono1) simp
  moreover have "acknowledged (mid + word_of_nat k) (next_please s) (acks ! k)" if "k < length acks" for k
    using snoc.prems(2)[rule_format, of k] that by (simp add: nth_append)
  ultimately obtain l1 where l1: "steps (loop_step x) acks (Running l) = Some (Running l1)" "uploading x s mid (length acks) l1"
    using snoc by fastforce
  have "acknowledged (mid + word_of_nat (length acks)) (next_please s) i"
    using snoc.prems(2)[rule_format, of "length acks"] by simp
  from upload_step [OF l1(2) this assms(2) _ assms(3,4)] snoc.prems(1) obtain l2 where
    "loop_step x i (Running l1) = Some (Running l2)" "uploading x s mid (Suc (length acks)) l2" by auto
  with l1 show ?case by (auto simp: steps_append)
qed

text \<open>The body is put together again from the slices, once the last one is among them.\<close>

lemma blocks_concat:
  assumes "length (x_payload x) \<le> Suc n * 2 ^ (unat s + 4)"
  shows "concat (map (\<lambda>k. pm_payload (block_sent x s mid k)) [0..<Suc n]) = x_payload x"
  using chunks_concat [of "2 ^ (unat s + 4)" "x_payload x" "Suc n"] assms by (simp add: block_sent_def Let_def)

text \<open>The last acknowledgement, without a payload, ends the request.\<close>

definition done_ack :: "parsed_message \<Rightarrow> bool" where
  "done_ack p \<longleftrightarrow> pm_block2 p = None \<and> pm_code p \<noteq> RESPONSE_CONTINUE \<and> pm_payload p = [] \<and> code_class (pm_code p) = 2"

lemma upload_ends:
  assumes "uploading x s mid k l" "acknowledged (mid + word_of_nat k) done_ack i"
  shows "\<exists>r. loop_step x i (Running l) = Some (Finished (Inr r) (Some (mid + word_of_nat k))) \<and> r_payload r = [] \<and> r_code_class r = 2"
proof -
  obtain f p where p: "in_poll i = Inr [f]" "is_coap_frame f" "parse (frame_data f) = Inr p" "pm_type p = Ack"
    "pm_msg_id p = mid + word_of_nat k" "done_ack p"
    using assms(2) by (auto simp: acknowledged_def)
  have pr: "process_response p (l_session l) = (l_session l)\<lparr>resp_code := pm_code p, resp_content_format := pm_content_format p,
     resp_payload := resp_payload (l_session l) @ pm_payload p, s_done := True\<rparr>"
    using p(6) by (intro process_response_last) (simp_all add: done_ack_def)
  have "on_frame f (l_session l) = process_response p (l_session l)"
    using p assms(1) by (simp add: on_frame_def uploading_def)
  with p(1,2,6) pr assms(1) show ?thesis
    by (simp add: loop_step_def loop_body_def finish_request_def uploading_def uploaded_def done_ack_def Let_def)
qed

end
