(* ===== verification/Fercc_Wire.thy ===== *)
theory Fercc_Wire
  imports Fercc_Device Mup1_Polls Coap_Upload
begin

text \<open>
  Requests over the serial line: the polls of the MUP1 client under the request loop of a command,
  for a get with its answer in pieces, and for a put with its body in blocks.
\<close>

section \<open>Pieces\<close>

lemma concat_single:
  "concat xss = [x] \<Longrightarrow> \<exists>pre post. xss = pre @ [x] # post \<and> (\<forall>xs \<in> set pre. xs = [])"
proof (induction xss)
  case (Cons xs xss)
  show ?case
  proof (cases xs)
    case Nil
    with Cons obtain pre post where "xss = pre @ [x] # post" "\<forall>xs \<in> set pre. xs = []" by auto
    with Nil show ?thesis by (intro exI [of _ "[] # pre"] exI [of _ post]) simp
  next
    case (Cons y ys)
    with Cons.prems have "xs = [x]" by simp
    then show ?thesis by (intro exI [of _ "[]"] exI [of _ xss]) simp
  qed
qed simp

text \<open>One frame after quiet polls: one poll hands it over alone, and all others nothing.\<close>

lemma frame_arrives:
  assumes "mup1_ready mc" "\<forall>r \<in> set quiet. fst r = []" "t \<noteq> SOF" "t \<noteq> EOF" "length msg \<le> MAX_DATA_SIZE"
    and "concat (map fst arriving) = mup1_send mc t msg"
    and "\<forall>r \<in> set arriving. in_window (timeout_ms (mc_decoder mc)) t0 (snd r)"
  shows "\<exists>pre post mc'. poll_all (quiet @ arriving) mc =
      Some (pre @ [\<lparr>type_byte = t, frame_data = msg\<rparr>] # post, mc')
    \<and> (\<forall>fs \<in> set pre. fs = []) \<and> mup1_ready mc'"
proof -
  let ?f = "\<lparr>type_byte = t, frame_data = msg\<rparr>"
  have line: "line (mc_checksum_type mc) (plain_line [(t, msg)]) = mup1_send mc t msg"
    by (simp add: plain_line_def mup1_send_def)
  have ok: "line_ok (mc_checksum_type mc) 0 (plain_line [(t, msg)])"
    using length_encode_frame [of "mc_checksum_type mc" t msg] assms(3-5) by (simp add: plain_line_def MAX_DATA_SIZE_def)
  have "mup1_send mc t msg \<noteq> []" by (simp add: mup1_send_def encode_frame_eq)
  with assms(6) have "arriving \<noteq> []" by auto
  from polls_in_pieces [OF assms(1) ok this, of t0] assms(6,7) line obtain fss mc' where
    p: "poll_all arriving mc = Some (fss, mc')" "mup1_ready mc'" "concat fss = [?f]" by auto
  from concat_single [OF p(3)] obtain pre post where "fss = pre @ [?f] # post" "\<forall>fs \<in> set pre. fs = []" by blast
  with p show ?thesis
    by (intro exI [of _ "replicate (length quiet) [] @ pre"] exI [of _ post] exI [of _ mc'])
      (auto simp: poll_all_append poll_all_nothing [OF assms(1,2)])
qed

lemma silent_inputs:
  "map in_poll is = map Inr fss \<Longrightarrow> \<forall>fs \<in> set fss. fs = [] \<Longrightarrow> \<forall>i \<in> set is. in_now i < deadline \<Longrightarrow>
     list_all (silent_until deadline) is"
  by (induction "is" arbitrary: fss) (auto simp: silent_until_def Cons_eq_map_conv)

section \<open>A get over the wire\<close>

text \<open>
  C6: A get over a serial line returns the device's tree: through the framing, the request loop
  and the codec. After any number of quiet polls the answer may arrive cut into any pieces, as
  long as its bytes come within the timeout of the framing; the polls hand it over once, the
  command returns the tree, and the framing is ready for the next frame. The leaves of the tree
  are canonical (none of type decimal64, union or instance-identifier), and the answer is one
  message.
\<close>

theorem get_over_the_wire:
  assumes "schema_ok (the_schema E)" "json_ok (JObject obj)" "distinct (map fst obj)"
    and "\<forall>e \<in> set obj. \<exists>c. root_data_node_by_name (the_schema E) (fst e) = Some c \<and> tidy E Yang_Values.Yang c (snd e)"
    and "json_to_cbor E (JObject obj) Yang_Values.Yang False = Inr bs" "length bs < usize_limit"
    and "szx_for_size (c_block_size c) \<noteq> None" "in_write_error first_input = None"
    and "mup1_ready mc" "\<forall>r \<in> set quiet. fst r = []"
    and "concat (map fst arriving) = mup1_send mc FRAME_COAP_UPPER msg" "length msg \<le> MAX_DATA_SIZE"
    and "\<forall>r \<in> set arriving. in_window (timeout_ms (mc_decoder mc)) t0 (snd r)"
    and "parse msg = Inr p" "final_answer p (c_msg_id c + 1)"
    and "code_class (pm_code p) = 2" "pm_content_format p = Some 140" "pm_payload p = bs"
  shows "\<exists>fss mc'. poll_all (quiet @ arriving) mc = Some (fss, mc') \<and> mup1_ready mc'
    \<and> (\<forall>is. map in_poll is = map Inr fss \<longrightarrow>
        (\<forall>i \<in> set is. in_now i < in_now_set first_input + RETRANSMIT_MS) \<longrightarrow>
        (\<exists>c'. coap_method_run show_error E input url ''get'' cont first_input is c = Returned (c', Inr (None, Some (JObject obj)))))"
proof -
  let ?f = "\<lparr>type_byte = FRAME_COAP_UPPER, frame_data = msg\<rparr>"
  obtain pre post mc' where p: "poll_all (quiet @ arriving) mc = Some (pre @ [?f] # post, mc')"
    "\<forall>fs \<in> set pre. fs = []" "mup1_ready mc'"
    using frame_arrives [OF assms(9,10) _ _ assms(12,11,13)] by (auto simp: FRAME_COAP_UPPER_def)
  have "\<exists>c'. coap_method_run show_error E input url ''get'' cont first_input is c = Returned (c', Inr (None, Some (JObject obj)))"
    if "map in_poll is = map Inr (pre @ [?f] # post)"
      and late: "\<forall>i \<in> set is. in_now i < in_now_set first_input + RETRANSMIT_MS" for "is"
  proof -
    from that(1) obtain is1 i is2 where i: "is = is1 @ i # is2" "map in_poll is1 = map Inr pre" "in_poll i = Inr [?f]"
      by (auto simp: map_eq_append_conv)
    from silent_inputs [OF i(2) p(2)] late i(1)
    have idle: "list_all (silent_until (in_now_set first_input + RETRANSMIT_MS)) is1" by simp
    show ?thesis unfolding i(1)
      by (rule get_returns_tree [OF assms(1-8) idle i(3) _ _ assms(15-18)])
        (simp_all add: is_coap_frame_def assms(14))
  qed
  with p show ?thesis by blast
qed

lemma sample_get_sent: "json_to_cbor sample_env (JObject [(''m:top'', sample_data)]) Yang_Values.Yang False
    = Inr (to_vec (CMap [(CInteger 1000, sample_cbor)]))"
  by code_simp

text \<open>The device's acknowledgement 2.05 with content format 140 and the tree.\<close>

definition tree_answer :: bytes where
  "tree_answer = [0x60, 0x45, 0, 1, 0xC1, 0x8C, 0xFF] @ to_vec (CMap [(CInteger 1000, sample_cbor)])"

definition tree_wire :: bytes where
  "tree_wire = mup1_send (mup1_client_new Internet) FRAME_COAP_UPPER tree_answer"

definition poll_input :: "frame list \<Rightarrow> loop_input" where
  "poll_input fs = \<lparr>in_poll = Inr fs, in_now = 0, in_now_set = 0, in_write_error = None\<rparr>"

lemma parse_tree_answer: "parse tree_answer = Inr \<lparr>pm_type = Ack, pm_code = 0x45, pm_msg_id = 1,
    pm_content_format = Some 140, pm_block1 = None, pm_block2 = None, pm_payload = to_vec (CMap [(CInteger 1000, sample_cbor)])\<rparr>"
  by (simp add: tree_answer_def parse_def parse_options.simps [of _ 4] parse_options.simps [of _ 6] Let_def be_dec_def msg_type_from_bits_def
      opt_extended_def apply_opt_def OPT_CONTENT_FORMAT_def opt_uint_decode_def to_vec_not_Nil)

theorem get_over_the_wire_witness:
  "\<exists>fss mc' c'. poll_all ([([], 7)] @ [(take 5 tree_wire, 9), (drop 5 tree_wire, 30)]) (mup1_client_new Internet) = Some (fss, mc')
    \<and> coap_method_run (\<lambda>_. []) sample_env None ''c'' ''get'' False (poll_input []) (map poll_input fss) (client_new 0)
      = Returned (c', Inr (None, Some (JObject [(''m:top'', sample_data)])))"
proof -
  let ?mc = "mup1_client_new Internet"
  have "json_ok (JObject [(''m:top'', sample_data)])"
    by (simp add: sample_data_def text_ok_def as_bytes_def usize_limit_def)
  moreover have "schema_ok (the_schema sample_env)" using sample_schema_ok by simp
  moreover have "\<forall>e \<in> set [(''m:top'', sample_data)].
      \<exists>c. root_data_node_by_name (the_schema sample_env) (fst e) = Some c \<and> tidy sample_env Yang_Values.Yang c (snd e)"
    using sample_tidy sample_nodes(5) by simp
  moreover have "length (to_vec (CMap [(CInteger 1000, sample_cbor)])) < usize_limit"
    by (simp add: to_vec_def sample_cbor_def encode_head_def as_bytes_def usize_limit_def)
  moreover have "length tree_answer \<le> MAX_DATA_SIZE"
    by (simp add: tree_answer_def to_vec_def sample_cbor_def encode_head_def as_bytes_def MAX_DATA_SIZE_def)
  moreover have "\<forall>r \<in> set [(take 5 tree_wire, 9), (drop 5 tree_wire, 30)]. in_window (timeout_ms (mc_decoder ?mc)) 9 (snd r)"
    by (simp add: in_window_def saturating_sub_def mup1_client_new_def decoder_new_def)
  ultimately obtain fss mc' where p: "poll_all ([([], 7)] @ [(take 5 tree_wire, 9), (drop 5 tree_wire, 30)]) ?mc = Some (fss, mc')"
    and r: "\<forall>is. map in_poll is = map Inr fss \<longrightarrow> (\<forall>i \<in> set is. in_now i < in_now_set (poll_input []) + RETRANSMIT_MS) \<longrightarrow>
      (\<exists>c'. coap_method_run (\<lambda>_. []) sample_env None ''c'' ''get'' False (poll_input []) is (client_new 0)
        = Returned (c', Inr (None, Some (JObject [(''m:top'', sample_data)]))))"
    using get_over_the_wire [OF _ _ _ _ sample_get_sent _ _ _ mup1_ready_new [of Internet] _ _ _ _ parse_tree_answer,
        where c = "client_new 0" and first_input = "poll_input []"
          and quiet = "[([], 7)]" and arriving = "[(take 5 tree_wire, 9), (drop 5 tree_wire, 30)]" and ?t0.0 = 9
          and show_error = "\<lambda>_. []" and input = None and url = "''c''" and cont = False]
    by (auto simp: tree_wire_def poll_input_def client_new_def DEFAULT_BLOCK_SIZE_def szx_for_size_def final_answer_def
        RESPONSE_CONTINUE_def code_class_def)
  from r have "\<exists>c'. coap_method_run (\<lambda>_. []) sample_env None ''c'' ''get'' False (poll_input []) (map poll_input fss) (client_new 0)
        = Returned (c', Inr (None, Some (JObject [(''m:top'', sample_data)])))"
    by (auto simp: poll_input_def RETRANSMIT_MS_def)
  with p show ?thesis by blast
qed

section \<open>A put\<close>

lemma szx_small: "szx_for_size sz = Some s \<Longrightarrow> s < 7"
  by (auto simp: szx_for_size_def split: if_splits)

text \<open>
  C2: A put delivers its tree: against a device that acknowledges each block, the messages of the
  request parse as the blocks of one body in order, and the device that puts the slices together
  and decodes them with the schema reads the tree that was given; when it confirms the last block
  the command ends with nothing to show. The leaves of the tree are canonical (none of type
  decimal64, union or instance-identifier), and each iteration of the request loop hands over the
  acknowledgement of one block.
\<close>

theorem put_delivers_tree:
  assumes "schema_ok (the_schema E)" "json_ok (JObject obj)" "distinct (map fst obj)"
    and "\<forall>e \<in> set obj. \<exists>c. root_data_node_by_name (the_schema E) (fst e) = Some c \<and> tidy E Yang_Values.Put c (snd e)"
    and "json_to_cbor E (JObject obj) Yang_Values.Put False = Inr bs" "length bs < 2 ^ 32"
    and "szx_for_size (c_block_size c) = Some s" "in_write_error first_input = None" "uri_ok url"
    and "length acks * 2 ^ (unat s + 4) < length bs" "length bs \<le> Suc (length acks) * 2 ^ (unat s + 4)"
    and "\<forall>k < length acks. acknowledged (c_msg_id c + 1 + word_of_nat k) (next_please s) (acks ! k)"
    and "acknowledged (c_msg_id c + 1 + word_of_nat (length acks)) done_ack i"
  shows "\<exists>c1 x out l msgs c'. coap_put url bs first_input c = Some (c1, x, out)
    \<and> steps (loop_step x) acks out = Some (Running l) \<and> map parse (l_sent l) = map Inr msgs
    \<and> (\<forall>m \<in> set msgs. pm_code m = method_code Put \<and> pm_content_format m = Some YANG_DATA_CBOR)
    \<and> cbor_to_json E (concat (map pm_payload msgs)) Yang_Values.Put = Inr (JObject obj)
    \<and> coap_method_run show_error E (Some (JObject obj)) url ''put'' False first_input (acks @ i # later) c
      = Returned (c', Inr (None, None))"
proof -
  let ?mid = "c_msg_id c + 1" and ?n = "length acks"
  have s: "s < 7" using szx_small [OF assms(7)] .
  have "bs \<noteq> []" using json_to_cbor_not_Nil [OF assms(5)] .
  from upload_starts [OF assms(7) s assms(8,9) this assms(6), of Put "Some YANG_DATA_CBOR" None] obtain c1 x l0 where
    start: "coap_put url bs first_input c = Some (c1, x, Running l0)" and up: "uploading x s ?mid 0 l0"
    and x: "x_payload x = bs" "x_method x = Put" "x_content_format x = Some YANG_DATA_CBOR" "x_uri x = url"
    by (auto simp: coap_put_def)
  from upload_run [OF up s _ _ _ assms(12)] assms(6,9,10) x obtain l where
    run: "steps (loop_step x) acks (Running l0) = Some (Running l)" and l: "uploading x s ?mid ?n l" by auto
  from upload_ends [OF l assms(13)] obtain r where
    r: "loop_step x i (Running l) = Some (Finished (Inr r) (Some (?mid + word_of_nat ?n)))" "r_payload r = []" "r_code_class r = 2"
    by blast
  let ?msgs = "map (block_sent x s ?mid) [0..<Suc ?n]"
  have "map parse (l_sent l) = map Inr ?msgs" using l by (simp add: uploading_def o_def del: upt_Suc)
  moreover have "\<forall>m \<in> set ?msgs. pm_code m = method_code Put \<and> pm_content_format m = Some YANG_DATA_CBOR"
    using x by (auto simp: block_sent_def Let_def)
  moreover have "concat (map pm_payload ?msgs) = bs"
    using blocks_concat [of x ?n s ?mid] assms(11) x by (simp add: o_def del: upt_Suc)
  moreover have "cbor_to_json E bs Yang_Values.Put = Inr (JObject obj)"
    by (rule tree_roundtrip [OF assms(1-5)]) (use assms(6) in \<open>simp add: usize_limit_def\<close>)
  moreover have "steps (loop_step x) (acks @ i # later) (Running l0) = Some (Finished (Inr r) (Some (?mid + word_of_nat ?n)))"
    using run r(1) by (simp add: steps_append steps_finished)
  then have "request_result (coap_put url bs first_input c) (acks @ i # later)
      = Returned (c1\<lparr>c_msg_id := ?mid + word_of_nat ?n\<rparr>, Inr r)"
    by (simp add: request_result_def start)
  then have "coap_method_run show_error E (Some (JObject obj)) url ''put'' False first_input (acks @ i # later) c
      = Returned (c1\<lparr>c_msg_id := ?mid + word_of_nat ?n\<rparr>, Inr (None, None))"
    using assms(5) r(2,3)
    by (simp add: coap_method_run_def prepare_request_def result_simps codec_result_def ok_or_def decode_response_payload_def error_line_def)
  ultimately show ?thesis using start run by metis
qed

lemma sample_put_sent: "json_to_cbor sample_env (JObject [(''m:top'', sample_data)]) Yang_Values.Put False
    = Inr (to_vec (CMap [(CInteger 1000, sample_cbor)]))"
  by code_simp

text \<open>The answers 2.31 Continue with Block1, and 2.04 Changed.\<close>

definition continue_answer :: frame where
  "continue_answer = \<lparr>type_byte = FRAME_COAP_UPPER, frame_data = [0x60, 0x5F, 0, 1, 0xD1, 0x0E, 0x08]\<rparr>"

definition changed_answer :: frame where
  "changed_answer = \<lparr>type_byte = FRAME_COAP_UPPER, frame_data = [0x60, 0x44, 0, 2]\<rparr>"

lemma parse_answers:
  "parse (frame_data continue_answer) = Inr \<lparr>pm_type = Ack, pm_code = 0x5F, pm_msg_id = 1, pm_content_format = None,
     pm_block1 = Some \<lparr>block_num = 0, block_more = True, block_szx = 0\<rparr>, pm_block2 = None, pm_payload = []\<rparr>"
  "parse (frame_data changed_answer) = Inr \<lparr>pm_type = Ack, pm_code = 0x44, pm_msg_id = 2, pm_content_format = None,
     pm_block1 = None, pm_block2 = None, pm_payload = []\<rparr>"
  by (simp_all add: continue_answer_def changed_answer_def parse_def parse_options.simps [of _ 4] parse_options.simps [of _ 7]
      Let_def be_dec_def msg_type_from_bits_def opt_extended_def apply_opt_def option_numbers opt_uint_decode_def decode_block_def)

theorem put_delivers_tree_witness:
  "\<exists>c1 x out l msgs. coap_put ''c'' (to_vec (CMap [(CInteger 1000, sample_cbor)])) (poll_input [])
      ((client_new 0)\<lparr>c_block_size := 16\<rparr>) = Some (c1, x, out)
    \<and> steps (loop_step x) [poll_input [continue_answer]] out = Some (Running l) \<and> map parse (l_sent l) = map Inr msgs
    \<and> cbor_to_json sample_env (concat (map pm_payload msgs)) Yang_Values.Put = Inr (JObject [(''m:top'', sample_data)])"
proof -
  let ?c = "(client_new 0)\<lparr>c_block_size := 16\<rparr>"
  have "json_ok (JObject [(''m:top'', sample_data)])"
    by (simp add: sample_data_def text_ok_def as_bytes_def usize_limit_def)
  moreover have "\<forall>e \<in> set [(''m:top'', sample_data)].
      \<exists>c. root_data_node_by_name (the_schema sample_env) (fst e) = Some c \<and> tidy sample_env Yang_Values.Put c (snd e)"
    using sample_tidy sample_nodes(5) by simp
  moreover have "length (to_vec (CMap [(CInteger 1000, sample_cbor)])) = 19"
    by (simp add: to_vec_def sample_cbor_def encode_head_def as_bytes_def)
  moreover have "uri_ok ''c''" by (simp add: uri_ok_def uri_path_def uri_queries_def uri_segments_def)
  moreover have "acknowledged (c_msg_id ?c + 1 + word_of_nat k) (next_please 0) ([poll_input [continue_answer]] ! k)"
    if "k < length [poll_input [continue_answer]]" for k
    using that parse_answers(1) by (simp add: acknowledged_def poll_input_def next_please_def continue_ack_def RESPONSE_CONTINUE_def
        is_coap_frame_def continue_answer_def client_new_def)
  moreover have "acknowledged (c_msg_id ?c + 1 + word_of_nat (length [poll_input [continue_answer]])) done_ack (poll_input [changed_answer])"
    using parse_answers(2) by (simp add: acknowledged_def poll_input_def done_ack_def RESPONSE_CONTINUE_def code_class_def
        is_coap_frame_def changed_answer_def client_new_def)
  ultimately show ?thesis
    using put_delivers_tree [OF _ _ _ _ sample_put_sent, of ?c 0 "poll_input []" "''c''" "[poll_input [continue_answer]]" "poll_input [changed_answer]"]
      sample_schema_ok by (simp add: poll_input_def szx_for_size_def) blast
qed

end
