(* ===== verification/Coap_Retransmit.thy ===== *)
theory Coap_Retransmit
  imports Coap_Correct
begin

text \<open>
  Retransmission: what the request loop puts on the wire, how often a message is repeated, and
  when a request to a silent device ends.
\<close>

section \<open>Iterations without a reply\<close>


text \<open>What the loop leaves for its tests: a reply that is taken says so in one of three fields.\<close>

definition settled :: "session \<Rightarrow> bool" where
  "settled s \<longleftrightarrow> s_error s \<noteq> None \<or> need_resend s \<or> s_done s"





lemma other_frames: "\<not> list_ex is_coap_frame fs \<Longrightarrow> fold on_frame fs s = s"
  by (induction fs) (auto simp: on_frame_def)

lemma send_frame_resend [simp]: "send_frame x (s\<lparr>need_resend := b\<rparr>) = send_frame x s"
  by (simp add: send_frame_def body_block_def Let_def)

text \<open>
  An iteration without a reply waits, sends the message again, or gives up.
\<close>

lemma quiet_step:
  assumes "in_poll i = Inr fs" "\<not> list_ex is_coap_frame fs" "in_write_error i = None" "\<not> settled (l_session l)"
    and "send_frame x (l_session l) = Some wire"
  shows "loop_step x i (Running l) = Some (
    let l' = l\<lparr>l_others := l_others l @ filter (\<lambda>f. \<not> is_coap_frame f) fs\<rparr> in
    if in_now i < l_deadline l then Running l'
    else if MAX_RETRANSMIT \<le> l_count l then Finished (Inl Timeout) (Some (msg_id (l_session l)))
    else Running (l'\<lparr>l_count := l_count l + 1, l_deadline := in_now_set i + RETRANSMIT_MS, l_sent := l_sent l @ [wire]\<rparr>))"
  using assms
  by (auto simp: loop_step_def loop_body_def transmit_def other_frames settled_def Let_def)

section \<open>What has been sent\<close>

text \<open>
  The messages sent so far are groups of copies of one message, fewer than \<open>n\<close> groups before the
  current one; \<open>l_count\<close> says how often the current message was repeated.
\<close>

definition copies :: "(bytes \<times> nat) list \<Rightarrow> bytes list" where
  "copies sent = concat (map (\<lambda>(w, k). replicate k w) sent)"

definition exchange :: "request_ctx \<Rightarrow> nat \<Rightarrow> outcome \<Rightarrow> bool" where
  "exchange x n out = (case out of
     Finished r m \<Rightarrow> True
   | Running l \<Rightarrow> \<exists>sent w. l_sent l = copies sent @ replicate (Suc (l_count l)) w \<and> length sent < n
       \<and> (\<forall>(v, k) \<in> set sent. k \<le> Suc MAX_RETRANSMIT) \<and> l_count l \<le> MAX_RETRANSMIT
       \<and> send_frame x (l_session l) = Some w \<and> \<not> need_resend (l_session l) \<and> s_error (l_session l) = None)"

lemma exchange_finished [simp]: "exchange x n (Finished r m)" "exchange x n (finish_request s)"
  by (simp_all add: exchange_def finish_request_def split: option.splits)







text \<open>A poll that hands over nothing, at a moment of the clock.\<close>

definition late :: "nat \<Rightarrow> loop_input" where
  "late t = \<lparr>in_poll = Inr [], in_now = t, in_now_set = t, in_write_error = None\<rparr>"


section \<open>A silent device\<close>

text \<open>
  Polls without a CoAP frame, with a clock that does not run backwards and at most \<open>g\<close>
  milliseconds from one iteration to the next.
\<close>

fun silent :: "nat \<Rightarrow> nat \<Rightarrow> loop_input list \<Rightarrow> bool" where
  "silent g t [] = True"
| "silent g t (i # inputs) \<longleftrightarrow>
     (\<exists>fs. in_poll i = Inr fs \<and> \<not> list_ex is_coap_frame fs) \<and> in_write_error i = None
     \<and> t \<le> in_now i \<and> in_now i \<le> in_now_set i \<and> in_now_set i \<le> t + g \<and> silent g (in_now i) inputs"

lemma silent_run:
  assumes "silent g t inputs" "t \<le> l_deadline l" "\<not> settled (l_session l)" "send_frame x (l_session l) = Some wire"
    and "l_count l + n = 5" "\<exists>i \<in> set inputs. l_deadline l + n * (3000 + g) \<le> in_now i"
  shows "\<exists>before i after last. inputs = before @ i # after
    \<and> steps (loop_step x) before (Running l) = Some (Running last) \<and> l_sent last = l_sent l @ replicate n wire
    \<and> loop_step x i (Running last) = Some (Finished (Inl Timeout) (Some (msg_id (l_session l))))
    \<and> l_deadline l + n * 3000 \<le> in_now i"
  using assms
proof (induction inputs arbitrary: t l n)
  case (Cons i inputs)
  from Cons.prems(1) obtain fs where fs: "in_poll i = Inr fs" "\<not> list_ex is_coap_frame fs" "in_write_error i = None"
    and time: "t \<le> in_now i" "in_now i \<le> in_now_set i" "in_now_set i \<le> t + g" and rest: "silent g (in_now i) inputs" by auto
  note step = quiet_step [OF fs Cons.prems(3,4)]
  let ?l = "l\<lparr>l_others := l_others l @ filter (\<lambda>f. \<not> is_coap_frame f) fs\<rparr>"
  consider "in_now i < l_deadline l" | "l_deadline l \<le> in_now i" "n = 0" | m where "l_deadline l \<le> in_now i" "n = Suc m"
    by (cases n; cases "in_now i < l_deadline l") auto
  then show ?case
  proof cases
    case 1
    with step have s: "loop_step x i (Running l) = Some (Running ?l)" by (simp add: Let_def)
    have "\<exists>i \<in> set inputs. l_deadline ?l + n * (3000 + g) \<le> in_now i" using Cons.prems(6) 1 by auto
    with Cons.IH [OF rest, of ?l n] 1 Cons.prems(3-5) have "\<exists>before i' after last. inputs = before @ i' # after
      \<and> steps (loop_step x) before (Running ?l) = Some (Running last) \<and> l_sent last = l_sent l @ replicate n wire
      \<and> loop_step x i' (Running last) = Some (Finished (Inl Timeout) (Some (msg_id (l_session l))))
      \<and> l_deadline l + n * 3000 \<le> in_now i'" by simp
    then obtain before i' after last where
      r: "inputs = before @ i' # after" "steps (loop_step x) before (Running ?l) = Some (Running last)"
      "l_sent last = l_sent l @ replicate n wire"
      "loop_step x i' (Running last) = Some (Finished (Inl Timeout) (Some (msg_id (l_session l))))"
      "l_deadline l + n * 3000 \<le> in_now i'" by blast
    with s show ?thesis by (intro exI [of _ "i # before"] exI [of _ i'] exI [of _ after] exI [of _ last]) simp
  next
    case 2
    with step Cons.prems(5) have "loop_step x i (Running l) = Some (Finished (Inl Timeout) (Some (msg_id (l_session l))))"
      by (simp add: Let_def MAX_RETRANSMIT_def)
    with 2 show ?thesis by (intro exI [of _ "[]"]) auto
  next
    case (3 m)
    let ?m = "?l\<lparr>l_count := l_count l + 1, l_deadline := in_now_set i + RETRANSMIT_MS, l_sent := l_sent l @ [wire]\<rparr>"
    from 3 step Cons.prems(5) have s: "loop_step x i (Running l) = Some (Running ?m)"
      by (simp add: Let_def MAX_RETRANSMIT_def)
    have d: "l_deadline ?m \<le> l_deadline l + (3000 + g)" "l_deadline l + 3000 \<le> l_deadline ?m" "in_now i \<le> l_deadline ?m"
      using time 3(1) Cons.prems(2) by (simp_all add: RETRANSMIT_MS_def)
    have "\<exists>j \<in> set inputs. l_deadline ?m + m * (3000 + g) \<le> in_now j"
    proof -
      from Cons.prems(6) 3(2) obtain j where j: "j \<in> set (i # inputs)" "l_deadline l + (3000 + g + m * (3000 + g)) \<le> in_now j"
        by auto
      have "in_now i \<le> l_deadline l + g" using time Cons.prems(2) by linarith
      then have "j \<noteq> i" using j(2) by auto
      moreover have "l_deadline ?m + m * (3000 + g) \<le> in_now j" using j(2) d(1) by linarith
      ultimately show ?thesis using j(1) by auto
    qed
    with Cons.IH [OF rest d(3), of m] Cons.prems(3-5) 3(2) have "\<exists>before i' after last. inputs = before @ i' # after
      \<and> steps (loop_step x) before (Running ?m) = Some (Running last) \<and> l_sent last = (l_sent l @ [wire]) @ replicate m wire
      \<and> loop_step x i' (Running last) = Some (Finished (Inl Timeout) (Some (msg_id (l_session l))))
      \<and> l_deadline ?m + m * 3000 \<le> in_now i'" by simp
    then obtain before i' after last where
      r: "inputs = before @ i' # after" "steps (loop_step x) before (Running ?m) = Some (Running last)"
      "l_sent last = (l_sent l @ [wire]) @ replicate m wire"
      "loop_step x i' (Running last) = Some (Finished (Inl Timeout) (Some (msg_id (l_session l))))"
      "l_deadline ?m + m * 3000 \<le> in_now i'" by blast
    from r(3) 3(2) have "l_sent last = l_sent l @ replicate n wire" by simp
    moreover have "l_deadline l + n * 3000 \<le> in_now i'" using r(5) d(2) 3(2) by simp
    ultimately show ?thesis
      using s r by (intro exI [of _ "i # before"] exI [of _ i'] exI [of _ after] exI [of _ last]) simp
  qed
qed simp

lemma steps_after_finish: "steps (loop_step x) inputs (Finished r m) = Some (Finished r m)"
  by (induction inputs) (simp_all add: loop_step_def)

text \<open>
  C25: A device that stays silent gets the same message five more times, and then the request ends
  with a timeout: whatever the moments of the polls, if they are at most \<open>g\<close> milliseconds apart and
  go on for 15 seconds and five gaps after the first deadline, one of them ends the request, the
  message has been sent exactly five times more before, and not earlier than 15 seconds after that
  deadline. Frames of other protocols in between change nothing.
\<close>

theorem coap_timeout_after_retransmits:
  assumes "s_error (l_session l) = None" "\<not> s_done (l_session l)" "\<not> need_resend (l_session l)"
    and "send_frame x (l_session l) = Some wire" "l_count l = 0"
    and "silent g t inputs" "t \<le> l_deadline l" "\<exists>i \<in> set inputs. l_deadline l + 5 * (3000 + g) \<le> in_now i"
  shows "steps (loop_step x) inputs (Running l) = Some (Finished (Inl Timeout) (Some (msg_id (l_session l))))
    \<and> (\<exists>before i after last. inputs = before @ i # after
      \<and> steps (loop_step x) before (Running l) = Some (Running last) \<and> l_sent last = l_sent l @ replicate 5 wire
      \<and> loop_step x i (Running last) = Some (Finished (Inl Timeout) (Some (msg_id (l_session l))))
      \<and> l_deadline l + 15000 \<le> in_now i)"
proof -
  have "\<not> settled (l_session l)" using assms(1-3) by (simp add: settled_def)
  from silent_run [OF assms(6,7) this assms(4), of 5] assms(5,8) obtain before i after last where
    r: "inputs = before @ i # after" "steps (loop_step x) before (Running l) = Some (Running last)"
    "l_sent last = l_sent l @ replicate 5 wire"
    "loop_step x i (Running last) = Some (Finished (Inl Timeout) (Some (msg_id (l_session l))))"
    "l_deadline l + 15000 \<le> in_now i" by auto
  then have "steps (loop_step x) inputs (Running l) = Some (Finished (Inl Timeout) (Some (msg_id (l_session l))))"
    by (simp add: steps_append steps_after_finish)
  with r show ?thesis by blast
qed

text \<open>A poll every two seconds.\<close>

theorem coap_timeout_after_retransmits_witness:
  "steps (loop_step \<lparr>x_method = Get, x_uri = ''c'', x_content_format = None, x_accept = None, x_payload = [], x_token = 1\<rparr>)
     (map late [2000, 4000, 6000, 8000, 10000, 12000, 14000, 16000, 18000, 20000, 22000, 24000, 26000, 28000])
     (Running (loop_start \<lparr>x_method = Get, x_uri = ''c'', x_content_format = None, x_accept = None, x_payload = [], x_token = 1\<rparr> 9 4 3000))
   = Some (Finished (Inl Timeout) (Some 9))"
proof -
  let ?x = "\<lparr>x_method = Get, x_uri = ''c'', x_content_format = None, x_accept = None, x_payload = [], x_token = 1\<rparr>"
  let ?l = "loop_start ?x 9 4 3000"
  obtain wire where "send_frame ?x (l_session ?l) = Some wire"
    by (simp add: send_frame_def body_block_def loop_start_def session_new_def Let_def)
  with coap_timeout_after_retransmits [of ?l ?x wire 2000 0
      "map late [2000, 4000, 6000, 8000, 10000, 12000, 14000, 16000, 18000, 20000, 22000, 24000, 26000, 28000]"] show ?thesis
    by (simp add: loop_start_def session_new_def late_def)
qed

end
