(* ===== verification/Mup1_Interrupted.thy ===== *)
theory Mup1_Interrupted
  imports Mup1_Correct
begin

text \<open>
  What a \<open>get\<close> does to a frame whose checksum has not arrived yet, when content settled before it.
\<close>

section \<open>Reading while a checksum is on its way\<close>

lemma hex_digit_plain: "hex_digit (ucast ((x :: u16) AND 0xF)) \<noteq> ESC"
proof -
  have "x AND 0xF \<le> 0xF" by (rule word_and_le1)
  then have "unat (x AND 0xF) < 16" by (simp add: word_le_nat_alt)
  then have "unat (x AND 0xF) \<in> set [0..<16]" by simp
  moreover have "list_all (\<lambda>k. hex_digit (word_of_nat k) \<noteq> ESC) [0..<16]" by code_simp
  ultimately have "hex_digit (word_of_nat (unat (x AND 0xF))) \<noteq> ESC" unfolding list_all_iff by (rule bspec [rotated])
  then show ?thesis by simp
qed

lemma checksum_plain: "ESC \<notin> set (frame_checksum ct t data)"
proof -
  have "ESC \<notin> set (running_finalize r)" for r
    using base128_encode_avoids [of ESC]
    by (cases r) (auto simp: running_finalize_def hex4_def hex_digit_plain)
  then show ?thesis by (simp add: frame_checksum_def)
qed

text \<open>
  The end of the data is taken \<open>n\<close> bytes too late: \<open>n\<close> bytes of what follows are read as data,
  or the end of the buffer is passed.
\<close>

lemma unescape_past:
  "wire_data w ds \<Longrightarrow> ESC \<notin> set tail \<Longrightarrow>
     unescape_from (pre @ w @ tail) (length pre) (length pre + length w + n) =
     (if n \<le> length tail then Some (ds @ take n tail) else None)"
proof (induction arbitrary: pre rule: wire_data.induct)
  case wire_Nil
  then show ?case
  proof (induction tail arbitrary: pre n)
    case Nil
    then show ?case by (subst unescape_from.simps) simp
  next
    case (Cons b tail)
    show ?case
    proof (cases n)
      case 0
      then show ?thesis by (subst unescape_from.simps) simp
    next
      case (Suc m)
      with Cons.prems Cons.IH [of "pre @ [b]" m] show ?thesis
        by (subst unescape_from.simps) auto
    qed
  qed
next
  case (wire_plain b w ds)
  then show ?case using wire_plain.IH [of "pre @ [b]"]
    by (subst unescape_from.simps) simp
next
  case (wire_esc w ds c)
  then show ?case using wire_esc.IH [of "pre @ [ESC, c]"]
    by (subst unescape_from.simps) (simp add: nth_append)
qed

lemma steps_Rx: "steps dec_step (map Rx bs) d = inject_all bs d"
  by (induction bs arbitrary: d) (auto simp: dec_step_def split: option.splits)

text \<open>The decoder with the noise, the frame up to its end marks and the first bytes of its checksum.\<close>

lemma inject_until_checksum:
  assumes "SOF \<notin> set noise" "t \<noteq> SOF" "t \<noteq> EOF"
    and "length noise + length (encode_frame ct t data) \<le> RAW_BUF_CAP + 2"
    and "frame_checksum ct t data = seen @ rest" "rest \<noteq> []"
  obtains d where "inject_all (noise @ [SOF, t] @ escape_data data @ [EOF] @ pad_eof ct data @ seen) (decoder_new ct) = Some d"
    and "dstate d = Checksum" "frames d = []" "raw_head d = length noise" "ctype d = ct"
    and "raw d = noise @ [SOF, t] @ escape_data data @ [EOF] @ pad_eof ct data @ seen"
    and "data_end d = length noise + 2 + length (escape_data data)" "checksum_bytes d = seen"
    and "checksum_len d = encoded_len ct" "running_finalize (chk_state d) = frame_checksum ct t data"
proof -
  let ?w = "escape_data data" and ?pad = "pad_eof ct data"
  have len: "length seen + length rest = encoded_len ct" using arg_cong [OF assms(5), of length] by simp
  moreover have "0 < length rest" using assms(6) by simp
  ultimately have short: "length seen < encoded_len ct" by linarith
  have room: "length noise + 2 + length ?w + 1 + length ?pad + encoded_len ct \<le> RAW_BUF_CAP"
    using assms(4) by (simp add: encode_frame_eq)
  define d0 where "d0 = (decoder_new ct)\<lparr>raw := noise, raw_head := length noise\<rparr>"
  define d1 where "d1 = d0\<lparr>raw := raw d0 @ [SOF, t], raw_head := length (raw d0),
    chk_state := run ct [SOF, t], data_len := 0, dstate := Data\<rparr>"
  define d2 where "d2 = d1\<lparr>raw := raw d1 @ ?w, chk_state := fold running_update data (chk_state d1),
    data_len := data_len d1 + length data\<rparr>"
  define d3 where "d3 = d2\<lparr>raw := raw d2 @ [EOF] @ ?pad, data_end := length (raw d2),
    chk_state := fold running_update ([EOF] @ ?pad) (chk_state d2), checksum_bytes := [],
    checksum_len := encoded_len ct, dstate := Checksum\<rparr>"
  define d4 where "d4 = d3\<lparr>raw := raw d3 @ seen, checksum_bytes := checksum_bytes d3 @ seen\<rparr>"
  note ds = decoder_new_def d0_def d1_def d2_def d3_def d4_def
  have 0: "inject_all noise (decoder_new ct) = Some d0"
    using inject_noise [of "decoder_new ct" noise] assms(1) room by (simp add: d0_def decoder_new_def)
  have 1: "inject_all [SOF, t] d0 = Some d1"
    using inject_start [of d0 t] assms(2,3) room by (simp add: ds)
  have 2: "inject_all ?w d1 = Some d2"
    unfolding d2_def using room by (intro inject_data) (simp_all add: ds)
  have 3: "inject_all ([EOF] @ ?pad) d2 = Some d3"
    unfolding d3_def using room by (intro inject_eof_bytes) (simp_all add: ds)
  have 4: "inject_all seen d3 = Some d4"
    unfolding d4_def using room short by (intro inject_checksum_bytes) (simp_all add: ds)
  have "noise @ [SOF, t] @ ?w @ [EOF] @ ?pad @ seen = noise @ [SOF, t] @ ?w @ ([EOF] @ ?pad) @ seen" by simp
  then have "inject_all (noise @ [SOF, t] @ ?w @ [EOF] @ ?pad @ seen) (decoder_new ct) = Some d4"
    by (simp only: inject_all_then [OF 0] inject_all_then [OF 1] inject_all_then [OF 2] inject_all_then [OF 3] 4)
  then show ?thesis by (rule that) (simp_all add: ds frame_checksum_def run_def)
qed

text \<open>
  C20: A \<open>get\<close> between the end marks of a frame and the end of its checksum breaks the frame: it
  moves the open attempt to the front of the buffer and leaves the recorded end of the data where it
  was. Whatever the frame and wherever in its checksum the call falls, with \<open>n\<close> bytes of other
  output settled before it, the frame is delivered with \<open>n\<close> bytes of its end marks and checksum
  appended to its data, or, when there are not so many, the decoder panics.
\<close>

theorem get_during_checksum_panics:
  assumes "SOF \<notin> set noise" "noise \<noteq> []" "t \<noteq> SOF" "t \<noteq> EOF"
    and "length noise + length (encode_frame ct t data) \<le> RAW_BUF_CAP + 2"
    and "encode_frame ct t data = before @ rest @ [CR, LF]" "rest \<noteq> []" "length rest \<le> encoded_len ct"
  shows "map_option frames (steps dec_step (map Rx (noise @ before) @ [Call_get] @ map Rx rest) (decoder_new ct)) =
    (if length noise \<le> 1 + length (pad_eof ct data) + encoded_len ct
     then Some [\<lparr>type_byte = t,
       frame_data = data @ take (length noise) ([EOF] @ pad_eof ct data @ frame_checksum ct t data)\<rparr>]
     else None)"
proof -
  let ?w = "escape_data data" and ?pad = "pad_eof ct data" and ?n = "length noise"
  let ?seen = "take (encoded_len ct - length rest) (frame_checksum ct t data)"
  have whole: "([SOF, t] @ ?w @ [EOF] @ ?pad) @ frame_checksum ct t data = before @ rest"
    using assms(6) by (simp add: encode_frame_eq)
  have cs: "frame_checksum ct t data = ?seen @ rest" and b: "before = [SOF, t] @ ?w @ [EOF] @ ?pad @ ?seen"
  proof -
    have "length before = length ([SOF, t] @ ?w @ [EOF] @ ?pad) + (encoded_len ct - length rest)"
      using arg_cong [OF whole, of length] assms(8) by simp
    with arg_cong [OF whole, of "take (length before)"] show b: "before = [SOF, t] @ ?w @ [EOF] @ ?pad @ ?seen" by simp
    from whole show "frame_checksum ct t data = ?seen @ rest" unfolding b by simp
  qed
  obtain d where d: "inject_all (noise @ before) (decoder_new ct) = Some d"
    "dstate d = Checksum" "frames d = []" "raw_head d = ?n" "ctype d = ct"
    "raw d = noise @ [SOF, t] @ ?w @ [EOF] @ ?pad @ ?seen" "data_end d = ?n + 2 + length ?w"
    "checksum_bytes d = ?seen" "checksum_len d = encoded_len ct" "running_finalize (chk_state d) = frame_checksum ct t data"
    unfolding b by (rule inject_until_checksum [OF assms(1,3,4,5) cs assms(7)]) blast
  let ?g = "d\<lparr>raw := [SOF, t] @ ?w @ [EOF] @ ?pad @ ?seen, raw_head := 0\<rparr>"
  have g: "snd (get d) = ?g" using d assms(2) by (simp add: get_def)
  obtain r c where rc: "rest = r @ [c]" using assms(7) by (metis append_butlast_last_id)
  have len: "length ?seen + length r + 1 = encoded_len ct" using arg_cong [OF cs, of length] rc by simp
  have room: "2 + length ?w + 1 + length ?pad + encoded_len ct \<le> RAW_BUF_CAP"
    using assms(5) by (simp add: encode_frame_eq)
  define e where "e = ?g\<lparr>raw := raw ?g @ r, checksum_bytes := checksum_bytes ?g @ r\<rparr>"
  have e: "inject_all r ?g = Some e"
    unfolding e_def using d room len by (intro inject_checksum_bytes) simp_all
  have raw: "raw e @ [c] = [SOF, t] @ ?w @ ([EOF] @ ?pad @ frame_checksum ct t data)"
    by (subst cs) (simp add: e_def rc)
  have plain: "ESC \<notin> set ([EOF] @ ?pad @ frame_checksum ct t data)"
    using checksum_plain [of ct t data] by (auto simp: pad_eof_def split: if_splits)
  have past: "unescape_from (raw e @ [c]) 2 (?n + 2 + length ?w) =
      (if ?n \<le> 1 + length ?pad + encoded_len ct
       then Some (data @ take ?n ([EOF] @ ?pad @ frame_checksum ct t data)) else None)"
    using unescape_past [OF wire_data_escape plain, of "[SOF, t]" data ?n]
    unfolding raw by (simp add: algebra_simps numeral_2_eq_2)
  define z where "z = e\<lparr>raw := raw e @ [c], checksum_bytes := checksum_bytes e @ [c]\<rparr>"
  have ok: "checksum_ok z" using d cs rc by (simp add: checksum_ok_def e_def z_def)
  have "length (raw e) < RAW_BUF_CAP" using arg_cong [OF raw, of length] room by simp
  then have inj: "inject c e = map_option (\<lambda>d'. (\<lparr>frame_ready = True, checksum_error = False, buffer_full = False\<rparr>, d'))
      (resolve_success z)"
    using d len ok by (simp add: inject_def inject_checksum_def Let_def e_def z_def)
  have z: "raw z = [SOF, t] @ ?w @ ([EOF] @ ?pad @ frame_checksum ct t data)" "raw_head z = 0" "frames z = []"
    "data_end z = ?n + 2 + length ?w" using raw d by (simp_all add: z_def) (simp_all add: e_def d)
  have "map_option frames (inject_all [c] e) = map_option frames (resolve_success z)"
    by (simp add: inj option.map_comp o_def split: option.split)
  also have "\<dots> = (if ?n \<le> 1 + length ?pad + encoded_len ct
     then Some [\<lparr>type_byte = t, frame_data = data @ take ?n ([EOF] @ ?pad @ frame_checksum ct t data)\<rparr>] else None)"
  proof -
    have "unescape_from (raw z) (raw_head z + 2) (data_end z) = (if ?n \<le> 1 + length ?pad + encoded_len ct
       then Some (data @ take ?n ([EOF] @ ?pad @ frame_checksum ct t data)) else None)"
    proof -
      have "raw z = raw e @ [c]" by (simp add: z_def)
      with past show ?thesis by (simp only: z(2,4) add_0)
    qed
    moreover have "raw_head z + 1 < length (raw z)" "raw z ! (raw_head z + 1) = t" unfolding z by simp_all
    ultimately show ?thesis by (simp only: resolve_success_def z(3)) simp
  qed
  finally have "map_option frames (inject_all [c] e) = (if ?n \<le> 1 + length ?pad + encoded_len ct
     then Some [\<lparr>type_byte = t, frame_data = data @ take ?n ([EOF] @ ?pad @ frame_checksum ct t data)\<rparr>] else None)" .
  moreover have "steps dec_step (map Rx (noise @ before)) (decoder_new ct) = Some d" by (simp only: steps_Rx d(1))
  moreover have "steps dec_step [Call_get] d = Some ?g" by (simp add: dec_step_def g)
  moreover have "steps dec_step (map Rx rest) ?g = inject_all [c] e" 
    using inject_all_then [OF e, of "[c]"] by (simp only: steps_Rx rc [symmetric])
  ultimately show ?thesis by (simp only: steps_append option.case)
qed

text \<open>Two bytes of output before an empty frame, and eight.\<close>

theorem get_during_checksum_panics_witness:
  "map_option frames (steps dec_step (map Rx ([0x41, 0x41] @ [0x3E, 0x70, 0x3C, 0x3C, 0x38]) @ [Call_get] @ map Rx [0x35, 0x35, 0x33])
     (decoder_new Internet)) = Some [\<lparr>type_byte = 0x70, frame_data = [0x3C, 0x3C]\<rparr>]
   \<and> steps dec_step (map Rx (replicate 8 0x41 @ [0x3E, 0x70, 0x3C, 0x3C, 0x38]) @ [Call_get] @ map Rx [0x35, 0x35, 0x33])
     (decoder_new Internet) = None"
proof -
  have enc: "encode_frame Internet 0x70 [] = [0x3E, 0x70, 0x3C, 0x3C, 0x38] @ [0x35, 0x35, 0x33] @ [CR, LF]" by code_simp
  show ?thesis
    using get_during_checksum_panics [OF _ _ _ _ _ enc, of "[0x41, 0x41]"] get_during_checksum_panics [OF _ _ _ _ _ enc, of "replicate 8 0x41"]
    by (simp add: encoded_len_def pad_eof_def enc)
qed

end
