(* ===== verification/Yang_Json_Valid.thy ===== *)
theory Yang_Json_Valid
  imports Yang_Json_Schema Yang_Leaf
begin

text \<open>
  Validation against the generated documents: what a draft-07 validator does with their keywords,
  and that the schema of a type accepts every canonical value that the codec encodes.
\<close>

section \<open>Validation\<close>

text \<open>
  What a draft-07 validator does with the keywords that the generator writes. Its search of a
  regular expression in a text is the parameter \<open>rx\<close>; \<open>contentEncoding\<close>, \<open>title\<close>,
  \<open>description\<close> and \<open>$schema\<close> are annotations and do not restrict the value.
\<close>

definition has_type :: "string \<Rightarrow> json \<Rightarrow> bool" where
  "has_type t v = (case v of
     JNull \<Rightarrow> t = ''null'' | JBool _ \<Rightarrow> t = ''boolean'' | JNumber (NInt _) \<Rightarrow> t = ''integer''
   | JNumber (NFloat _) \<Rightarrow> t = ''number'' | JString _ \<Rightarrow> t = ''string''
   | JArray _ \<Rightarrow> t = ''array'' | JObject _ \<Rightarrow> t = ''object'')"

text \<open>The bound of a keyword and the measure it applies to.\<close>

definition measured :: "string \<Rightarrow> json \<Rightarrow> int option" where
  "measured k v =
    (if k \<in> {''minimum'', ''maximum''} then (case v of JNumber (NInt n) \<Rightarrow> Some n | _ \<Rightarrow> None)
     else if k \<in> {''minLength'', ''maxLength''} then (case v of JString s \<Rightarrow> Some (int (char_count s)) | _ \<Rightarrow> None)
     else (case v of JArray vs \<Rightarrow> Some (int (length vs)) | _ \<Rightarrow> None))"

definition within_bound :: "string \<Rightarrow> json \<Rightarrow> json \<Rightarrow> bool" where
  "within_bound k bound v =
    (case (bound, measured k v) of
       (JNumber (NInt b), Some n) \<Rightarrow> if k \<in> {''minimum'', ''minLength'', ''minItems''} then b \<le> n else n \<le> b
     | _ \<Rightarrow> True)"

definition BOUND_KEYWORDS :: "string set" where
  "BOUND_KEYWORDS = {''minimum'', ''maximum'', ''minLength'', ''maxLength'', ''minItems'', ''maxItems''}"

definition property_names :: "(string \<times> json) list \<Rightarrow> string set" where
  "property_names kws = (case map_of kws ''properties'' of Some (JObject ps) \<Rightarrow> fst ` set ps | _ \<Rightarrow> {})"

definition strings_in :: "json list \<Rightarrow> string set" where
  "strings_in js = {s. JString s \<in> set js}"

text \<open>The keywords that hold no schema.\<close>

definition plain_keyword :: "(string \<Rightarrow> string \<Rightarrow> bool) \<Rightarrow> (string \<times> json) list \<Rightarrow> json \<Rightarrow> string \<times> json \<Rightarrow> bool" where
  "plain_keyword rx kws v e =
    (if fst e = ''type'' then (case snd e of JString t \<Rightarrow> has_type t v | _ \<Rightarrow> True)
     else if fst e = ''enum'' then (case snd e of JArray vs \<Rightarrow> v \<in> set vs | _ \<Rightarrow> True)
     else if fst e = ''required'' then
       (case (snd e, v) of (JArray names, JObject es) \<Rightarrow> strings_in names \<subseteq> fst ` set es | _ \<Rightarrow> True)
     else if fst e = ''additionalProperties'' then
       (case (snd e, v) of (JBool False, JObject es) \<Rightarrow> fst ` set es \<subseteq> property_names kws | _ \<Rightarrow> True)
     else if fst e = ''pattern'' then (case (snd e, v) of (JString r, JString s) \<Rightarrow> rx r s | _ \<Rightarrow> True)
     else if fst e = ''uniqueItems'' then (case (snd e, v) of (JBool True, JArray vs) \<Rightarrow> distinct vs | _ \<Rightarrow> True)
     else if fst e \<in> BOUND_KEYWORDS then within_bound (fst e) (snd e) v
     else True)"

text \<open>The measures of the recursion are the schemas.\<close>

function accepts :: "(string \<Rightarrow> string \<Rightarrow> bool) \<Rightarrow> json \<Rightarrow> json \<Rightarrow> bool" where
  "accepts rx sch v =
    (case sch of
       JObject kws \<Rightarrow>
         list_all (\<lambda>e.
           plain_keyword rx kws v e \<and>
           (if fst e = ''properties'' then
              (case (snd e, v) of
                 (JObject ps, JObject es) \<Rightarrow>
                   list_all (\<lambda>p. list_all (\<lambda>m. fst m = fst p \<longrightarrow> accepts rx (snd p) (snd m)) es) ps
               | _ \<Rightarrow> True)
            else if fst e = ''items'' then (case v of JArray vs \<Rightarrow> list_all (accepts rx (snd e)) vs | _ \<Rightarrow> True)
            else if fst e = ''anyOf'' then (case snd e of JArray ss \<Rightarrow> list_ex (\<lambda>s. accepts rx s v) ss | _ \<Rightarrow> True)
            else if fst e = ''oneOf'' then
              (case snd e of JArray ss \<Rightarrow> length (filter (\<lambda>s. accepts rx s v) ss) = 1 | _ \<Rightarrow> True)
            else if fst e = ''allOf'' then (case snd e of JArray ss \<Rightarrow> list_all (\<lambda>s. accepts rx s v) ss | _ \<Rightarrow> True)
            else if fst e = ''not'' then \<not> accepts rx (snd e) v
            else True)) kws
     | JBool b \<Rightarrow> b
     | _ \<Rightarrow> True)"
  by pat_completeness auto
termination
  by (relation "measure (\<lambda>(rx, sch, v). size sch)") (fastforce dest: json_object_size json_array_size)+

declare accepts.simps [simp del]

definition keyword_ok :: "(string \<Rightarrow> string \<Rightarrow> bool) \<Rightarrow> (string \<times> json) list \<Rightarrow> json \<Rightarrow> string \<times> json \<Rightarrow> bool" where
  "keyword_ok rx kws v e \<longleftrightarrow>
     plain_keyword rx kws v e \<and>
     (if fst e = ''properties'' then
        (case (snd e, v) of
           (JObject ps, JObject es) \<Rightarrow> \<forall>p \<in> set ps. \<forall>m \<in> set es. fst m = fst p \<longrightarrow> accepts rx (snd p) (snd m)
         | _ \<Rightarrow> True)
      else if fst e = ''items'' then (case v of JArray vs \<Rightarrow> \<forall>w \<in> set vs. accepts rx (snd e) w | _ \<Rightarrow> True)
      else if fst e = ''anyOf'' then (case snd e of JArray ss \<Rightarrow> \<exists>s \<in> set ss. accepts rx s v | _ \<Rightarrow> True)
      else if fst e = ''oneOf'' then
        (case snd e of JArray ss \<Rightarrow> length (filter (\<lambda>s. accepts rx s v) ss) = 1 | _ \<Rightarrow> True)
      else if fst e = ''allOf'' then (case snd e of JArray ss \<Rightarrow> \<forall>s \<in> set ss. accepts rx s v | _ \<Rightarrow> True)
      else if fst e = ''not'' then \<not> accepts rx (snd e) v
      else True)"

lemma accepts_object: "accepts rx (JObject kws) v \<longleftrightarrow> (\<forall>e \<in> set kws. keyword_ok rx kws v e)"
  by (subst accepts.simps) (simp add: keyword_ok_def list_all_iff list_ex_iff cong: json.case_cong)

lemma keyword_simps [simp]:
  "keyword_ok rx kws v (''type'', JString t) = has_type t v"
  "keyword_ok rx kws v (''enum'', JArray vs) \<longleftrightarrow> v \<in> set vs"
  "keyword_ok rx kws (JObject es) (''required'', JArray names) \<longleftrightarrow> strings_in names \<subseteq> fst ` set es"
  "keyword_ok rx kws (JObject es) (''additionalProperties'', JBool False) \<longleftrightarrow> fst ` set es \<subseteq> property_names kws"
  "keyword_ok rx kws (JObject es) (''properties'', JObject ps) \<longleftrightarrow>
     (\<forall>p \<in> set ps. \<forall>m \<in> set es. fst m = fst p \<longrightarrow> accepts rx (snd p) (snd m))"
  "keyword_ok rx kws (JArray vs) (''items'', s) \<longleftrightarrow> (\<forall>w \<in> set vs. accepts rx s w)"
  "keyword_ok rx kws v (''anyOf'', JArray ss) \<longleftrightarrow> (\<exists>s \<in> set ss. accepts rx s v)"
  "keyword_ok rx kws v (''allOf'', JArray ss) \<longleftrightarrow> (\<forall>s \<in> set ss. accepts rx s v)"
  "keyword_ok rx kws v (''not'', s) \<longleftrightarrow> \<not> accepts rx s v"
  "keyword_ok rx kws (JString t) (''pattern'', JString r) \<longleftrightarrow> rx r t"
  "keyword_ok rx kws (JArray vs) (''uniqueItems'', JBool True) \<longleftrightarrow> distinct vs"
  "keyword_ok rx kws v (''contentEncoding'', j)" "keyword_ok rx kws v (''description'', j)"
  "keyword_ok rx kws v (''title'', j)" "keyword_ok rx kws v (''$schema'', j)"
  by (simp_all add: keyword_ok_def plain_keyword_def BOUND_KEYWORDS_def)

lemma keyword_bounds [simp]:
  "keyword_ok rx kws v (''minimum'', b) = within_bound ''minimum'' b v"
  "keyword_ok rx kws v (''maximum'', b) = within_bound ''maximum'' b v"
  "keyword_ok rx kws v (''minLength'', b) = within_bound ''minLength'' b v"
  "keyword_ok rx kws v (''maxLength'', b) = within_bound ''maxLength'' b v"
  "keyword_ok rx kws v (''minItems'', b) = within_bound ''minItems'' b v"
  "keyword_ok rx kws v (''maxItems'', b) = within_bound ''maxItems'' b v"
  by (simp_all add: keyword_ok_def plain_keyword_def BOUND_KEYWORDS_def)

lemma has_type_simps [simp]:
  "has_type t (JNumber (NInt n)) \<longleftrightarrow> t = ''integer''" "has_type t (JString s) \<longleftrightarrow> t = ''string''"
  "has_type t (JBool b) \<longleftrightarrow> t = ''boolean''" "has_type t JNull \<longleftrightarrow> t = ''null''"
  "has_type t (JArray vs) \<longleftrightarrow> t = ''array''" "has_type t (JObject es) \<longleftrightarrow> t = ''object''"
  by (simp_all add: has_type_def)

lemma strings_in_json_strings [simp]: "strings_in (map JString ss) = set ss"
  by (auto simp: strings_in_def)

text \<open>A description restricts nothing, wherever it is inserted.\<close>

lemma map_of_obj_insert: "map_of (obj_insert k x es) = (map_of es)(k \<mapsto> x)"
  by (induction k x es rule: obj_insert.induct) auto

lemma property_names_description [simp]:
  "property_names (obj_insert ''description'' d kws) = property_names kws"
  by (simp add: property_names_def map_of_obj_insert)

lemma keyword_ok_names:
  assumes "property_names kws = property_names kws'"
  shows "keyword_ok rx kws v e = keyword_ok rx kws' v e"
  unfolding keyword_ok_def plain_keyword_def assms by (rule refl)

lemma set_obj_insert: "set (obj_insert k x es) \<subseteq> insert (k, x) (set es)"
  by (induction k x es rule: obj_insert.induct) auto

lemma accepts_description: "accepts rx (JObject kws) v \<Longrightarrow> accepts rx (JObject (obj_insert ''description'' d kws)) v"
proof -
  assume a: "accepts rx (JObject kws) v"
  have "keyword_ok rx (obj_insert ''description'' d kws) v e" if "e \<in> set (obj_insert ''description'' d kws)" for e
  proof -
    from that set_obj_insert have "e = (''description'', d) \<or> e \<in> set kws" by fastforce
    then show ?thesis
      using a keyword_ok_names [OF property_names_description] by (auto simp: accepts_object)
  qed
  then show ?thesis by (simp add: accepts_object)
qed

section \<open>Bounds\<close>

text \<open>
  The bounds that the codec's saturating comparison with \<open>i64\<close> does not change: no lower bound
  above it, no upper bound below it, and none so far out that the arithmetic on lengths wraps.
\<close>

definition bounds_ok :: "type_info \<Rightarrow> bool" where
  "bounds_ok t \<longleftrightarrow> (\<forall>(lo, hi) \<in> set (ranges t). - (2 ^ 64) \<le> lo \<and> lo < 2 ^ 63 \<and> - (2 ^ 63) \<le> hi \<and> hi \<le> 2 ^ 64)"

lemma in_some_range:
  assumes "in_ranges n (ranges t)" "bounds_ok t" "ranges t \<noteq> []"
  obtains lo hi where "(lo, hi) \<in> set (ranges t)" "lo \<le> n" "n \<le> hi" "- (2 ^ 64) \<le> lo" "lo \<le> 2 ^ 64"
    "- (2 ^ 64) \<le> hi" "hi \<le> 2 ^ 64"
proof -
  from assms(1,3) obtain lo hi where r: "(lo, hi) \<in> set (ranges t)" "range_bound_i64 lo \<le> n" "n \<le> range_bound_i64 hi"
    by (auto simp: in_ranges_def list_ex_iff)
  with assms(2) have b: "- (2 ^ 64) \<le> lo" "lo < 2 ^ 63" "- (2 ^ 63) \<le> hi" "hi \<le> 2 ^ 64" unfolding bounds_ok_def by auto
  have "lo \<le> n" using r(2) b by (auto simp: range_bound_i64_def split: if_splits)
  moreover have "n \<le> hi" using r(3) b by (auto simp: range_bound_i64_def split: if_splits)
  moreover have "lo \<le> 2 ^ 64" "- (2 ^ 64) \<le> hi" using b by simp_all
  ultimately show ?thesis using that r b by blast
qed

definition meets :: "(int \<Rightarrow> int) \<Rightarrow> int \<Rightarrow> int option \<times> int option \<Rightarrow> bool" where
  "meets f n b \<longleftrightarrow> (case fst b of None \<Rightarrow> True | Some lo \<Rightarrow> f lo \<le> n) \<and> (case snd b of None \<Rightarrow> True | Some hi \<Rightarrow> n \<le> f hi)"

lemma json_num_InrD: "json_num v = Inr j \<Longrightarrow> j = JNumber (NInt v)"
  by (auto simp: json_num_def split: if_splits)

text \<open>The keywords of one measure: its lower and its upper bound.\<close>

definition bound_keys :: "(string \<times> string) set" where
  "bound_keys = {(''minimum'', ''maximum''), (''minLength'', ''maxLength'')}"

lemma bound_object_accepts:
  assumes "bound_object lo_key hi_key b = Inr j" "(lo_key, hi_key) \<in> bound_keys"
    and "measured lo_key v = Some n" "meets id n b"
  shows "accepts rx j v"
proof -
  have m: "measured hi_key v = Some n" using assms(2,3) by (auto simp: bound_keys_def measured_def)
  have lo: "keyword_ok rx kws v (lo_key, JNumber (NInt x))" if "x \<le> n" for kws x
    using assms(2,3) that by (auto simp: bound_keys_def within_bound_def)
  have hi: "keyword_ok rx kws v (hi_key, JNumber (NInt x))" if "n \<le> x" for kws x
    using assms(2) m that by (auto simp: bound_keys_def within_bound_def)
  from assms(1,4) show ?thesis
    by (cases b; cases "fst b"; cases "snd b")
      (auto simp: bound_object_def bound_member_def result_simps accepts_object meets_def dest!: json_num_InrD intro: lo hi)
qed

lemma rmap_member: "rmap f xs = Inr ys \<Longrightarrow> x \<in> set xs \<Longrightarrow> \<exists>y \<in> set ys. f x = Inr y"
  by (induction xs arbitrary: ys) (fastforce simp: result_simps)+

lemma insert_bounds_accepts:
  assumes "insert_bounds m bounds lo_key hi_key = Inr m'" "(lo_key, hi_key) \<in> bound_keys"
    and "measured lo_key v = Some n" "bounds = [] \<or> (\<exists>b \<in> set bounds. meets id n b)"
    and "''anyOf'' \<notin> fst ` set m" "''properties'' \<notin> fst ` set m" "\<forall>e \<in> set m. keyword_ok rx [] v e"
  shows "\<forall>e \<in> set m'. keyword_ok rx [] v e"
proof (cases "bounds = []")
  case True
  then show ?thesis using assms(1,7) by (simp add: insert_bounds_def)
next
  case False
  with assms(1) obtain parts where parts: "rmap (bound_object lo_key hi_key) bounds = Inr parts"
    and m': "m' = m @ [(''anyOf'', JArray parts)]"
    using assms(5) by (auto simp: insert_bounds_def result_simps obj_insert_new)
  from False assms(4) obtain b where b: "b \<in> set bounds" "meets id n b" by blast
  from parts b(1) obtain j where "j \<in> set parts" "bound_object lo_key hi_key b = Inr j"
    using rmap_member by fast
  with bound_object_accepts [OF _ assms(2,3) b(2)] assms(7) m' show ?thesis by auto
qed

section \<open>The length of base64\<close>

lemma ascii_append [simp]: "ascii (s @ t) \<longleftrightarrow> ascii s \<and> ascii t"
  by (simp add: ascii_def)

lemma b64_char_ascii: "(of_char (b64_char n) :: nat) < 128"
proof -
  have "n AND 0x3F \<le> 0x3F" by (rule word_and_le1)
  then have "unat (n AND 0x3F) < 64" by (simp add: word_le_nat_alt)
  moreover have "length B64_ALPHABET = 64" by (simp add: B64_ALPHABET_def)
  ultimately have "b64_char n \<in> set B64_ALPHABET" by (simp add: b64_char_def)
  moreover have "\<forall>c \<in> set B64_ALPHABET. (of_char c :: nat) < 128" by (simp add: B64_ALPHABET_def)
  ultimately show ?thesis by blast
qed

lemma encode_chunk_shape: "length (encode_chunk c) = 4 \<and> ascii (encode_chunk c)"
  by (simp add: encode_chunk_def Let_def ascii_def b64_char_ascii)

lemma chunk_count: "0 < n \<Longrightarrow> (n + 2) div 3 = Suc ((n - 3 + 2) div 3)"
proof (cases "n < 3")
  case True
  assume "0 < n"
  with True have "n = 1 \<or> n = 2" by auto
  then show ?thesis by auto
next
  case False
  then have "n + 2 = 3 + (n - 3 + 2)" by simp
  then show ?thesis by (simp only: div_add_self1 zero_neq_numeral not_False_eq_True)
qed

lemma length_base64:
  "length (base64_encode b) = 4 * ((length b + 2) div 3) \<and> ascii (base64_encode b)"
proof (induction "length b" arbitrary: b rule: less_induct)
  case less
  show ?case
  proof (cases "b = []")
    case True
    then show ?thesis by (simp add: base64_encode_def chunks_of.simps [of 3 "[]"] ascii_def)
  next
    case False
    then have step: "base64_encode b = encode_chunk (take 3 b) @ base64_encode (drop 3 b)"
      unfolding base64_encode_def by (subst chunks_of.simps) simp
    have "length (drop 3 b) < length b" using False by simp
    note rest = less [OF this]
    have "4 + 4 * ((length b - 3 + 2) div 3) = 4 * ((length b + 2) div 3)"
      using chunk_count [of "length b"] False by simp
    with rest show ?thesis unfolding step by (simp add: encode_chunk_shape)
  qed
qed

lemma char_count_base64: "int (char_count (base64_encode b)) = 4 * ((int (length b) + 2) div 3)"
  using length_base64 [of b] by (simp add: char_count_ascii zdiv_int)

lemma wrap_i128_small: "- (2 ^ 100) \<le> i \<Longrightarrow> i < 2 ^ 100 \<Longrightarrow> wrap_i128 i = i"
  by (simp add: wrap_i128_def signed_of_int signed_take_bit_int_eq_self)

lemma base64_chars_bound:
  assumes "- (2 ^ 64) \<le> m" "m \<le> 2 ^ 64" "0 \<le> n"
  shows "m \<le> n \<Longrightarrow> base64_chars m \<le> 4 * ((n + 2) div 3)"
    and "n \<le> m \<Longrightarrow> 4 * ((n + 2) div 3) \<le> base64_chars m"
proof -
  have w: "wrap_i128 (m + 2) = m + 2" by (rule wrap_i128_small) (use assms in simp_all)
  have "base64_chars m = 4 * (if 0 \<le> m + 2 then (m + 2) div 3 else - ((- (m + 2)) div 3))"
    unfolding base64_chars_def Let_def w by (rule wrap_i128_small) (use assms in \<open>auto simp: div_le_dividend\<close>)
  then show "m \<le> n \<Longrightarrow> base64_chars m \<le> 4 * ((n + 2) div 3)" "n \<le> m \<Longrightarrow> 4 * ((n + 2) div 3) \<le> base64_chars m"
    using assms by (auto intro: zdiv_mono1)
qed

section \<open>Lengths\<close>

text \<open>The explicit bounds leave out a whole range only when it is the only one.\<close>

lemma explicit_bounds_meets:
  assumes "in_ranges n (ranges t)" "bounds_ok t" "\<And>m. - (2 ^ 64) \<le> m \<Longrightarrow> m \<le> 2 ^ 64 \<Longrightarrow> m \<le> n \<Longrightarrow> f m \<le> k"
    and "\<And>m. - (2 ^ 64) \<le> m \<Longrightarrow> m \<le> 2 ^ 64 \<Longrightarrow> n \<le> m \<Longrightarrow> k \<le> f m"
  shows "explicit_bounds t = [] \<or> (\<exists>b \<in> set (explicit_bounds t). meets f k b)"
proof (cases "ranges t = [] \<or> default_ranges (builtin_of t) = []")
  case True
  then show ?thesis by (auto simp: explicit_bounds_def enumerate_eq_zip split: list.splits)
next
  case False
  then obtain d ds where d: "default_ranges (builtin_of t) = d # ds" by (cases "default_ranges (builtin_of t)") auto
  let ?b = "explicit_bound (fst d, snd (last (d # ds))) (length (ranges t) - 1)"
  have eb: "explicit_bounds t = concat (map ?b (enumerate 0 (ranges t)))" by (simp add: explicit_bounds_def d)
  from in_some_range [OF assms(1,2)] False obtain lo hi where
    r: "(lo, hi) \<in> set (ranges t)" "lo \<le> n" "n \<le> hi" "- (2 ^ 64) \<le> lo" "lo \<le> 2 ^ 64"
      "- (2 ^ 64) \<le> hi" "hi \<le> 2 ^ 64" by auto
  then obtain i where i: "i < length (ranges t)" "ranges t ! i = (lo, hi)" by (auto simp: in_set_conv_nth)
  then have mem: "(i, lo, hi) \<in> set (enumerate 0 (ranges t))" by (auto simp: in_set_enumerate_eq)
  have lo: "f lo \<le> k" using assms(3) r by blast
  have hi: "k \<le> f hi" using assms(4) r by blast
  show ?thesis
  proof (cases "?b (i, lo, hi) = []")
    case True
    then have "i = 0" "length (ranges t) - 1 = 0"
      using i by (auto simp: explicit_bound_def Let_def split: if_splits)
    then have "ranges t = [(lo, hi)]" using i by (cases "ranges t") auto
    with True \<open>i = 0\<close> show ?thesis by (simp add: eb)
  next
    case False
    then obtain b where b: "?b (i, lo, hi) = [b]" "meets f k b"
      using lo hi by (auto simp: explicit_bound_def meets_def Let_def split: if_splits)
    with mem have "b \<in> set (explicit_bounds t)" unfolding eb by force
    with b show ?thesis by blast
  qed
qed

section \<open>Types\<close>

text \<open>The names of bits are identifiers, which no regular expression reads as its own syntax.\<close>

definition in_chars :: "char \<Rightarrow> char \<Rightarrow> char \<Rightarrow> bool" where
  "in_chars lo hi c \<longleftrightarrow> (of_char lo :: nat) \<le> of_char c \<and> (of_char c :: nat) \<le> of_char hi"

definition plain_name :: "string \<Rightarrow> bool" where
  "plain_name s \<longleftrightarrow> s \<noteq> [] \<and> list_all (\<lambda>c. c \<in> set ''-._'' \<or> in_chars (CHR ''0'') (CHR ''9'') c
     \<or> in_chars (CHR ''A'') (CHR ''Z'') c \<or> in_chars (CHR ''a'') (CHR ''z'') c) s"

definition type_ok :: "schema \<Rightarrow> type_descriptor \<Rightarrow> bool" where
  "type_ok S ty \<longleftrightarrow> bounds_ok (info ty) \<and> (\<forall>b \<in> set (type_bits (info ty)). plain_name (bit_name b)) \<and> (\<forall>i. leafref_target (info ty) = Some i \<longrightarrow> i < length (nodes S))"

definition types_ok :: "schema \<Rightarrow> bool" where
  "types_ok S \<longleftrightarrow> (\<forall>nd \<in> set (nodes S). \<forall>ty. node_ty nd = Some ty \<longrightarrow> type_ok S ty)"

lemma types_okD: "types_ok S \<Longrightarrow> i < length (nodes S) \<Longrightarrow> node_ty (nodes S ! i) = Some ty \<Longrightarrow> type_ok S ty"
  by (auto simp: types_ok_def)

text \<open>
  What is assumed of the validator's regular expressions: a search finds what the codec's engine
  finds, and the generated alternatives of plain names match a list of such names.
\<close>

definition search_ok :: "(string \<Rightarrow> string \<Rightarrow> bool) \<Rightarrow> codec_env \<Rightarrow> bool" where
  "search_ok rx E \<longleftrightarrow> (\<forall>r s found. regex_match E r s = Some found \<longrightarrow> rx r s = found)
     \<and> (\<forall>bs names. (\<forall>b \<in> set bs. plain_name (bit_name b)) \<longrightarrow> set names \<subseteq> bit_name ` set bs \<longrightarrow>
          rx (bits_pattern bs) (str_join '' '' names))"

lemma accepts_members: "(\<forall>e \<in> set m. keyword_ok rx [] v e) \<Longrightarrow> property_names m = {} \<Longrightarrow> accepts rx (JObject m) v"
  using keyword_ok_names [of m "[]"] by (simp add: accepts_object property_names_def)

lemma property_names_none: "''properties'' \<notin> fst ` set m \<Longrightarrow> property_names m = {}"
  by (auto simp: property_names_def map_of_eq_None_iff [symmetric])

lemma insert_bounds_names:
  "insert_bounds m bounds lo hi = Inr m' \<Longrightarrow> fst ` set m' \<subseteq> insert ''anyOf'' (fst ` set m)"
proof (cases "bounds = []")
  case False
  assume "insert_bounds m bounds lo hi = Inr m'"
  with False obtain parts where "m' = obj_insert ''anyOf'' (JArray parts) m"
    by (auto simp: insert_bounds_def result_simps)
  then show ?thesis by (simp add: obj_insert_keys)
qed (auto simp: insert_bounds_def)

lemma bounded_accepts:
  assumes "insert_bounds m bounds lo_key hi_key = Inr m'" "(lo_key, hi_key) \<in> bound_keys"
    and "measured lo_key v = Some n" "bounds = [] \<or> (\<exists>b \<in> set bounds. meets id n b)"
    and "''anyOf'' \<notin> fst ` set m" "''properties'' \<notin> fst ` set m" "\<forall>e \<in> set m. keyword_ok rx [] v e"
  shows "accepts rx (JObject m') v"
proof (rule accepts_members)
  show "\<forall>e \<in> set m'. keyword_ok rx [] v e" by (rule insert_bounds_accepts [OF assms])
  show "property_names m' = {}"
    by (rule property_names_none) (use insert_bounds_names [OF assms(1)] assms(6) in auto)
qed

lemma small_int_accepts:
  assumes "encode_small_int t v = Inr c" "as_i64 v \<noteq> None" "bounds_ok t"
    and "insert_bounds (typed ''integer'') (map (\<lambda>(lo, hi). (Some lo, Some hi)) (ranges t)) ''minimum'' ''maximum'' = Inr m"
  shows "accepts rx (JObject m) v"
proof -
  from small_int_leaf [OF assms(1,2)] obtain n where n: "v = JNumber (NInt n)" "- (2 ^ 63) \<le> n" "n < 2 ^ 63" by blast
  with assms(1) have r: "in_ranges n (ranges t)"
    by (auto simp: encode_small_int_def json_number_to_i128_def or_else_def as_i64_def trunc_i64_small
        result_simps Let_def split: if_splits)
  show ?thesis
  proof (rule bounded_accepts [OF assms(4), where n = n])
    show "map (\<lambda>(lo, hi). (Some lo, Some hi)) (ranges t) = [] \<or>
        (\<exists>b \<in> set (map (\<lambda>(lo, hi). (Some lo, Some hi)) (ranges t)). meets id n b)"
    proof (cases "ranges t = []")
      case False
      from in_some_range [OF r assms(3) this] obtain lo hi where "(lo, hi) \<in> set (ranges t)" "lo \<le> n" "n \<le> hi" by blast
      then have "(Some lo, Some hi) \<in> set (map (\<lambda>(lo, hi). (Some lo, Some hi)) (ranges t))" "meets id n (Some lo, Some hi)"
        by (force, simp add: meets_def)
      then show ?thesis by blast
    qed simp
  qed (simp_all add: n bound_keys_def measured_def typed_def)
qed

lemma accepts_allOf:
  assumes "accepts rx (JObject m) v" "\<forall>s \<in> set ss. accepts rx s v"
  shows "accepts rx (JObject (obj_insert ''allOf'' (JArray ss) m)) v"
proof -
  have "property_names (obj_insert ''allOf'' (JArray ss) m) = property_names m"
    by (simp add: property_names_def map_of_obj_insert)
  note names = keyword_ok_names [OF this]
  have "keyword_ok rx (obj_insert ''allOf'' (JArray ss) m) v e" if "e \<in> set (obj_insert ''allOf'' (JArray ss) m)" for e
  proof -
    from that set_obj_insert have "e = (''allOf'', JArray ss) \<or> e \<in> set m" by fastforce
    then show ?thesis using assms names by (auto simp: accepts_object)
  qed
  then show ?thesis by (simp add: accepts_object)
qed

text \<open>A text that no pattern of the type fails is accepted by the schema of each pattern.\<close>

lemma patterns_accept:
  assumes "first_failed_pattern (regex_match E) s ps = Inr None" "search_ok rx E" "p \<in> set ps"
  shows "accepts rx (pattern_schema p) (JString s)"
proof -
  from assms(1,3) obtain found where "regex_match E (regex p) s = Some found" "found \<noteq> invert_match p"
    by (induction ps) (auto split: option.splits if_splits)
  with assms(2) have "rx (regex p) s \<noteq> invert_match p" by (auto simp: search_ok_def)
  then show ?thesis by (auto simp: pattern_schema_def Let_def accepts_object)
qed

lemma string_accepts:
  assumes "encode_string E t v = Inr c" "bounds_ok t" "search_ok rx E"
    and "insert_bounds (typed ''string'') (explicit_bounds t) ''minLength'' ''maxLength'' = Inr m"
  shows "accepts rx (JObject m) v \<and> (\<forall>p \<in> set (patterns t). accepts rx (pattern_schema p) v)"
proof -
  from assms(1) obtain s where s: "v = JString s" "in_ranges (int (char_count s)) (ranges t)"
    and p: "first_failed_pattern (regex_match E) s (patterns t) = Inr None"
    by (cases v) (auto simp: encode_string_def as_str_def result_simps split: if_splits option.splits)
  have "accepts rx (JObject m) v"
  proof (rule bounded_accepts [OF assms(4), where n = "int (char_count s)"])
    show "explicit_bounds t = [] \<or> (\<exists>b \<in> set (explicit_bounds t). meets id (int (char_count s)) b)"
      by (rule explicit_bounds_meets [OF s(2) assms(2)]) simp_all
  qed (simp_all add: s bound_keys_def measured_def typed_def)
  with patterns_accept [OF p assms(3)] s(1) show ?thesis by blast
qed

definition chars_of :: "int option \<times> int option \<Rightarrow> int option \<times> int option" where
  "chars_of b = (case b of (lo, hi) \<Rightarrow> (map_option base64_chars lo, map_option base64_chars hi))"

lemma binary_accepts:
  assumes "encode_binary t v = Inr c" "bounds_ok t" "v = JString (base64_encode b)" "base64_decode (base64_encode b) = Inr b"
    and "insert_bounds (typed ''string'' @ [(''contentEncoding'', JString ''base64'')]) (map chars_of (explicit_bounds t))
      ''minLength'' ''maxLength'' = Inr m"
  shows "accepts rx (JObject m) v"
proof -
  from assms(1,3,4) have r: "in_ranges (int (length b)) (ranges t)"
    by (auto simp: encode_binary_def as_str_def result_simps split: if_splits)
  let ?n = "4 * ((int (length b) + 2) div 3)"
  have "explicit_bounds t = [] \<or> (\<exists>x \<in> set (explicit_bounds t). meets base64_chars ?n x)"
    by (rule explicit_bounds_meets [OF r assms(2)]) (use base64_chars_bound in simp_all)
  moreover have "meets id ?n (chars_of x)" if "meets base64_chars ?n x" for x
    using that by (auto simp: meets_def chars_of_def split: prod.splits option.splits)
  ultimately have *: "map chars_of (explicit_bounds t) = [] \<or> (\<exists>x \<in> set (map chars_of (explicit_bounds t)). meets id ?n x)"
    by auto
  show ?thesis
    by (rule bounded_accepts [OF assms(5), where n = ?n])
      (use * in \<open>simp_all add: assms(3) char_count_base64 bound_keys_def measured_def typed_def\<close>)
qed

lemma identityref_accepts:
  assumes "encode_identityref S ty (JString s) False = Inr c" "CHR '':'' \<in> set s"
  shows "s \<in> set (identity_enums S (info ty))"
proof -
  from assms(1) obtain ids i where ids: "identity_values (info ty) = Some ids"
    and i: "find (identity_matches S (module_or_empty (source_module (info ty))) s) ids = Some i"
    by (auto simp: encode_identityref_def as_str_def result_simps)
  from i have "i \<in> set ids" "identity_matches S (module_or_empty (source_module (info ty))) s i"
    by (auto simp: find_Some_iff)
  moreover from assms(2) obtain m n where mn: "split_once (CHR '':'') s = Some (m, n)"
    using split_once_None [of "CHR '':''" s] by fastforce
  ultimately have "s = qualified_identity S i" "i \<in> set ids"
    by (auto simp: identity_matches_def qualified_identity_def split_once_Some Let_def)
  then show ?thesis by (auto simp: identity_enums_def ids)
qed

lemma bits_accepts:
  assumes "canonical_bits t s" "search_ok rx E" "\<forall>b \<in> set (type_bits t). plain_name (bit_name b)"
  shows "rx (bits_pattern (type_bits t)) s"
proof -
  let ?names = "map bit_name (named_bits t (split_whitespace s))"
  have "set ?names \<subseteq> bit_name ` set (type_bits t)" by (auto simp: named_bits_def)
  with assms(2,3) have "rx (bits_pattern (type_bits t)) (str_join '' '' ?names)" unfolding search_ok_def by blast
  with assms(1) show ?thesis unfolding canonical_bits_def by metis
qed

lemma type_accepts:
  assumes "types_ok (the_schema E)" "search_ok rx E"
  shows "canonical d E ty v \<Longrightarrow> type_ok (the_schema E) ty \<Longrightarrow> type_to_cbor_checked d E ty v False = Inr c \<Longrightarrow>
    type2schema n (the_schema E) ty = Inr sch \<Longrightarrow> accepts rx sch v"
proof (induction d arbitrary: ty n)
  case (Suc d)
  note defs = type_to_cbor_checked.simps(2) type2schema.simps(2) Let_def
  from Suc.prems(4) obtain k where n: "n = Suc k" by (cases n) auto
  from Suc.prems(2) have b: "bounds_ok (info ty)" by (simp add: type_ok_def)
  have small: "accepts rx sch v" if "builtin_type ty \<in> {Int8, Int16, Int32, Uint8, Uint16, Uint32}"
  proof -
    from Suc.prems(1,3,4) that n obtain m where "encode_small_int (info ty) v = Inr c" "as_i64 v \<noteq> None" "sch = JObject m"
      "insert_bounds (typed ''integer'') (map (\<lambda>(lo, hi). (Some lo, Some hi)) (ranges (info ty))) ''minimum'' ''maximum'' = Inr m"
      by (auto simp: defs result_simps)
    with small_int_accepts [OF _ _ b] show ?thesis by blast
  qed
  have string: "accepts rx (JObject (typed ''string'' @ rest)) v"
    if "v = JString s" "rest = [] \<or> (\<exists>r. rest = [(''pattern'', JString r)] \<and> rx r s)" for s rest
    by (rule accepts_members, use that in \<open>fastforce simp: typed_def\<close>, rule property_names_none)
      (use that in \<open>auto simp: typed_def\<close>)
  show ?case
  proof (cases "builtin_type ty")
    case Int64
    with Suc.prems n string [of _ "[]"] show ?thesis by (auto simp: defs split: json.splits)
  next
    case Uint64
    with Suc.prems n string [of _ "[]"] show ?thesis by (auto simp: defs split: json.splits)
  next
    case Boolean
    with Suc.prems n show ?thesis
      by (cases v) (auto simp: defs as_json_bool_def typed_def accepts_object result_simps)
  next
    case String_type
    with Suc.prems n obtain m where m: "encode_string E (info ty) v = Inr c"
      "insert_bounds (typed ''string'') (explicit_bounds (info ty)) ''minLength'' ''maxLength'' = Inr m"
      "sch = JObject (if patterns (info ty) = [] then m
         else obj_insert ''allOf'' (JArray (map pattern_schema (patterns (info ty)))) m)"
      by (auto simp: defs result_simps)
    with accepts_allOf string_accepts [OF m(1) b assms(2) m(2)] show ?thesis by simp
  next
    case Binary
    with Suc.prems n obtain s bs m where m: "v = JString s" "base64_decode s = Inr bs" "base64_encode bs = s"
      "encode_binary (info ty) v = Inr c" "sch = JObject m"
      "insert_bounds (typed ''string'' @ [(''contentEncoding'', JString ''base64'')])
        (map chars_of (explicit_bounds (info ty))) ''minLength'' ''maxLength'' = Inr m"
      by (auto simp: defs result_simps chars_of_def [abs_def] split: json.splits sum.splits)
    with binary_accepts [OF m(4) b, of bs m] show ?thesis by simp
  next
    case Empty
    with Suc.prems n show ?thesis
      by (auto simp: defs encode_empty_def typed_def accepts_object within_bound_def measured_def split: if_splits)
  next
    case Enumeration
    with Suc.prems n show ?thesis
      by (cases v) (auto simp: defs encode_enum_def as_str_def accepts_object json_strings_def find_Some_iff result_simps)
  next
    case Bits
    with Suc.prems(1) obtain s where s: "v = JString s" "canonical_bits (info ty) s" by (auto split: json.splits)
    have "rx (bits_pattern (type_bits (info ty))) s"
      by (rule bits_accepts [OF s(2) assms(2)]) (use Suc.prems(2) in \<open>simp add: type_ok_def\<close>)
    with Suc.prems Bits n string s show ?thesis by (auto simp: defs)
  next
    case Identityref
    with Suc.prems n identityref_accepts [of "the_schema E" ty _ c] show ?thesis
      by (auto simp: defs accepts_object json_strings_def canonical_identity_def split: json.splits)
  next
    case Leafref
    with Suc.prems(1) obtain i u where u: "leafref_target (info ty) = Some i" "node_ty (nodes (the_schema E) ! i) = Some u"
      by (auto simp: target_type_def split: option.splits bind_splits)
    with Suc.prems(2) types_okD [OF assms(1), of i u] have "type_ok (the_schema E) u" by (simp add: type_ok_def)
    with Suc.IH [of u k] Suc.prems Leafref n u show ?thesis by (simp add: defs target_type_def)
  qed (use Suc.prems small in \<open>simp_all add: defs\<close>)
qed simp

end
