(* ===== verification/Yang_Json_Schema_Correct.thy ===== *)
theory Yang_Json_Schema_Correct
  imports Yang_Json_Valid Yang_Tree
begin

text \<open>
  The schema of a node accepts the data that the codec encodes for it, and where there is none.
\<close>

section \<open>Nodes\<close>

















lemma at_path_Inr [simp]: "at_path p r = Inr v \<longleftrightarrow> r = Inr v"
  by (auto simp: at_path_def split: sum.splits json_schema_error.splits)






section \<open>Properties\<close>


section \<open>A schema with patterns\<close>

definition strict_schema :: schema where
  "strict_schema = sample_schema
    \<lparr>nodes :=
      [(fresh_node ''container'' ''m:top'' ''m'' None (Some True) False)\<lparr>children := [1, 2], node_sid := Some 1000\<rparr>,
       (fresh_node ''leaf-list'' ''t'' ''m'' (Some 0) (Some True) False)
         \<lparr>node_ty := Some (Type_descriptor ((type_info_new String_type)
            \<lparr>ranges := [(1, 4)], patterns := [\<lparr>regex = ''a'', invert_match = False, pattern_error = no_error_info\<rparr>,
              \<lparr>regex = ''b'', invert_match = True, pattern_error = no_error_info\<rparr>]\<rparr>) []), node_sid := Some 1001\<rparr>,
       (fresh_node ''leaf'' ''f'' ''m'' (Some 0) (Some True) False)
         \<lparr>node_ty := Some (Type_descriptor ((type_info_new Bits)
            \<lparr>type_bits := [\<lparr>bit_name = ''up'', bit_pos = 0\<rparr>, \<lparr>bit_name = ''down'', bit_pos = 9\<rparr>]\<rparr>) []), node_sid := Some 1002\<rparr>],
     sid_index := [(1000, 0), (1001, 1), (1002, 2)]\<rparr>"

definition letter_search :: "string \<Rightarrow> string \<Rightarrow> bool option" where
  "letter_search r s = (case r of [c] \<Rightarrow> Some (c \<in> set s) | _ \<Rightarrow> None)"

definition strict_env :: codec_env where
  "strict_env = sample_env\<lparr>the_schema := strict_schema, regex_match := letter_search\<rparr>"


lemma strict_env_simps [simp]:
  "the_schema strict_env = strict_schema" "depth strict_env = Suc 3" "regex_match strict_env = letter_search"
  by (simp_all add: strict_env_def sample_env_def)








section \<open>Notifications\<close>

text \<open>The first node without a schema decides the error of the loop.\<close>

lemma child_schemas_first_error:
  assumes "\<forall>c \<in> set before. skipped_child S cf c \<or> (\<exists>j. sch c = Inr j)" "\<not> skipped_child S cf r" "sch r = Inl e"
  shows "child_schemas sch S cf (before @ r # rest) acc = Inl e"
  using assms(1)
proof (induction before arbitrary: acc)
  case Nil
  then show ?case using assms(2,3) by (cases acc) simp
next
  case (Cons c before)
  then show ?case by (cases acc) auto
qed

lemma child_schemas_total:
  "\<forall>c \<in> set cs. skipped_child S cf c \<or> (\<exists>j. sch c = Inr j) \<Longrightarrow> \<exists>ps rs. child_schemas sch S cf cs acc = Inr (ps, rs)"
proof (induction cs arbitrary: acc)
  case Nil
  then show ?case by (cases acc) simp
next
  case (Cons c cs)
  then show ?case by (cases acc) auto
qed

lemma notification_schema_error:
  assumes "kw (nodes S ! r) = ''notification''"
  shows "\<exists>e. node_schema n d S cf r = Inl e"
proof (cases n)
  case (Suc k)
  with assms show ?thesis
    by (cases "child_schemas (node_schema k d S cf) S cf (data_children S r) ([], [])") (auto simp: kind_schema_def)
qed simp

lemma notification_panics:
  assumes "kw (nodes S ! r) = ''notification''"
    and "\<forall>c \<in> set (data_children S r). skipped_child S cf c \<or> (\<exists>j. node_schema n d S cf c = Inr j)"
  shows "node_schema (Suc n) d S cf r = Inl (Panic ''unexpected node keyword notification'')"
  using child_schemas_total [OF assms(2), of "([], [])"] assms(1) by (auto simp: kind_schema_def)

lemma child_schemas_each:
  "child_schemas sch S cf cs acc = Inr out \<Longrightarrow> c \<in> set cs \<Longrightarrow> \<not> skipped_child S cf c \<Longrightarrow> \<exists>j. sch c = Inr j"
proof (induction cs arbitrary: acc)
  case (Cons x cs)
  then show ?case by (cases acc) (auto simp: result_simps split: if_splits)
qed simp

text \<open>
  C39: A catalog with a notification among its data roots has no JSON Schema: the document's loop
  leaves out operations only, so the generator never returns a document. Where the roots before the
  notification and its own content have schemas, it panics on the keyword.
\<close>

theorem notification_has_no_schema:
  assumes "concat (map (root_data_nodes S) (sorted_modules S)) = before @ r # rest"
    and "r < length (nodes S)" "kw (nodes S ! r) = ''notification''"
  shows "(\<exists>e. to_json_schema_for_catalog d S ''yang'' = Inl e)
    \<and> ((\<forall>c \<in> set before. skipped_child S ''yang'' c \<or> (\<exists>j. to_json_schema d S ''yang'' c = Inr j)) \<longrightarrow>
       (\<forall>c \<in> set (data_children S r). skipped_child S ''yang'' c
         \<or> (\<exists>j. node_schema (length (nodes S) - 1) d S ''yang'' c = Inr j)) \<longrightarrow>
       to_json_schema_for_catalog d S ''yang'' = Inl (Panic ''unexpected node keyword notification''))"
proof (intro conjI impI)
  have r: "\<not> skipped_child S ''yang'' r" using assms(3) by (simp add: skipped_child_def)
  show "\<exists>e. to_json_schema_for_catalog d S ''yang'' = Inl e"
  proof (rule ccontr)
    assume "\<nexists>e. to_json_schema_for_catalog d S ''yang'' = Inl e"
    then obtain doc where "to_json_schema_for_catalog d S ''yang'' = Inr doc"
      by (cases "to_json_schema_for_catalog d S ''yang''") auto
    then obtain out where "child_schemas (to_json_schema d S ''yang'') S ''yang'' (before @ r # rest) ([], []) = Inr out"
      by (auto simp: to_json_schema_for_catalog_def assms(1) result_simps)
    from child_schemas_each [OF this _ r] obtain j where "to_json_schema d S ''yang'' r = Inr j" by auto
    with notification_schema_error [OF assms(3), of "length (nodes S)" d "''yang''"] show False
      by (auto simp: to_json_schema_def)
  qed
  assume before: "\<forall>c \<in> set before. skipped_child S ''yang'' c \<or> (\<exists>j. to_json_schema d S ''yang'' c = Inr j)"
    and own: "\<forall>c \<in> set (data_children S r). skipped_child S ''yang'' c
      \<or> (\<exists>j. node_schema (length (nodes S) - 1) d S ''yang'' c = Inr j)"
  have "Suc (length (nodes S) - 1) = length (nodes S)" using assms(2) by simp
  with notification_panics [OF assms(3) own]
  have "to_json_schema d S ''yang'' r = Inl (Panic ''unexpected node keyword notification'')"
    by (simp add: to_json_schema_def del: node_schema.simps)
  from child_schemas_first_error [OF before r this]
  show "to_json_schema_for_catalog d S ''yang'' = Inl (Panic ''unexpected node keyword notification'')"
    by (simp add: to_json_schema_for_catalog_def assms(1))
qed

text \<open>A module with a container and a notification that has a field.\<close>

definition notification_schema :: schema where
  "notification_schema = sample_schema
    \<lparr>nodes := [(fresh_node ''container'' ''m:top'' ''m'' None (Some True) False)\<lparr>node_sid := Some 1000\<rparr>,
       (fresh_node ''notification'' ''m:event'' ''m'' None None False)\<lparr>children := [2], node_sid := Some 1001\<rparr>,
       sample_leaf ''code'' 1 Uint8 1002],
     module_root := [(''m'', (snd (hd (module_root sample_schema)))\<lparr>root_nodes := [0, 1]\<rparr>)],
     sid_index := [(1000, 0), (1001, 1), (1002, 2)]\<rparr>"

theorem notification_has_no_schema_witness:
  "to_json_schema_for_catalog 4 notification_schema ''yang'' = Inl (Panic ''unexpected node keyword notification'')"
proof (rule notification_has_no_schema [THEN conjunct2, THEN mp, THEN mp])
  show "concat (map (root_data_nodes notification_schema) (sorted_modules notification_schema)) = [0] @ 1 # []" by code_simp
  have "\<not> isl (to_json_schema 4 notification_schema ''yang'' 0)" by code_simp
  then show "\<forall>c \<in> set [0]. skipped_child notification_schema ''yang'' c \<or> (\<exists>j. to_json_schema 4 notification_schema ''yang'' c = Inr j)"
    by (cases "to_json_schema 4 notification_schema ''yang'' 0") auto
  have "data_children notification_schema 1 = [2]" by code_simp
  moreover have "\<not> isl (node_schema (length (nodes notification_schema) - 1) 4 notification_schema ''yang'' 2)" by code_simp
  ultimately show "\<forall>c \<in> set (data_children notification_schema 1). skipped_child notification_schema ''yang'' c
      \<or> (\<exists>j. node_schema (length (nodes notification_schema) - 1) 4 notification_schema ''yang'' c = Inr j)"
    by (cases "node_schema (length (nodes notification_schema) - 1) 4 notification_schema ''yang'' 2") auto
qed code_simp+

end
