(* ===== verification/Yang_Catalog_Correct.thy ===== *)
theory Yang_Catalog_Correct
  imports Yang_Catalog_Verify Yang_Sample
begin

text \<open>
  What the consistency check guarantees of a catalog that passes, and documents it cannot report.
\<close>

section \<open>The tree of schema nodes\<close>












section \<open>SIDs\<close>




section \<open>Identity references\<close>






section \<open>References\<close>











section \<open>What a verified catalog guarantees\<close>


section \<open>A small catalog\<close>

definition catalog_sample :: schema where
  "catalog_sample = sample_schema
    \<lparr>nodes := [(fresh_node ''container'' ''m:top'' ''m'' None (Some True) False)
         \<lparr>children := [1], node_sid := Some 1001\<rparr>,
       sample_leaf ''n'' 0 Int8 1002],
     module_root := [(''m'', \<lparr>yang_module_name = ''m'', module_namespace = ''urn:m'', revision = None,
       module_sid = Some 1000, root_nodes = [0], deviated_by = []\<rparr>)],
     sid_index := [(1001, 0), (1002, 1)]\<rparr>"

definition sample_document :: members where
  "sample_document =
    [(''$schema'', JString ''urn:fercc:yang-catalog-schema:1.0.0''),
     (''modules'', JObject [(''m'', JObject [(''namespace'', JString ''urn:m''), (''sid'', JString ''1000''),
        (''schema-root-nodes'', texts [''/m:top'']), (''data-root-nodes'', texts [''/m:top'']), (''typedefs'', texts []),
        (''identities'', texts []), (''yang-data'', texts []), (''deviations'', texts [])])]),
     (''import-only-modules'', JObject []), (''typedefs'', JObject []), (''identities'', JObject []),
     (''schema-nodes'', JObject
       [(''/m:top'', JObject [(''keyword'', JString ''container''), (''name'', JString ''top''), (''module'', JString ''m''),
           (''schema-children'', texts [''/m:top/n'']), (''data-children'', texts [''/m:top/n'']), (''sid'', JString ''1001''),
           (''implicit'', JBool False), (''config'', JBool True)]),
        (''/m:top/n'', JObject [(''keyword'', JString ''leaf''), (''name'', JString ''n''), (''module'', JString ''m''),
           (''parent'', JString ''/m:top''), (''sid'', JString ''1002''), (''implicit'', JBool False), (''config'', JBool True),
           (''type'', JObject [(''builtin'', JString ''int8'')]), (''mandatory'', JBool False)])]),
     (''yang-data'', JObject []),
     (''sid-index'', JObject [(''1000'', sid_entry ''module'' ''m''), (''1001'', sid_entry ''data'' ''/m:top''),
        (''1002'', sid_entry ''data'' ''/m:top/n'')])]"

lemma sample_document: "catalog_document catalog_sample = Inr sample_document"
  by code_simp

lemma sample_verified: "verify_yang_catalog sample_document = Some []"
  by code_simp

lemma sample_to_yang_catalog: "to_yang_catalog catalog_sample = Some (Inr (JObject sample_document))"
  by (simp add: to_yang_catalog_def sample_document sample_verified)


section \<open>Documents that the verifier cannot report\<close>

text \<open>
  The walk up from a node has no end where two parents name each other, whatever the fuel, and a
  listed child that is no node ends the walk down with a panic instead of the recorded problem.
\<close>

lemma outside_datastore_cycle:
  assumes "map_of ns a = Some x" "map_of ns b = Some y" "get_text x ''parent'' = Some b" "get_text y ''parent'' = Some a"
    and "a \<notin> set roots" "b \<notin> set roots"
    and "\<forall>z \<in> {x, y}. get_text z ''keyword'' \<notin> {Some ''rpc'', Some ''action'', Some ''notification''}"
  shows "outside_datastore n ns roots a = None \<and> outside_datastore n ns roots b = None"
  using assms by (induction n) (simp_all add: has_key_def)

lemma reach_loop_dangling:
  "map_of ns p = Some nd \<Longrightarrow> texts_in nd ''schema-children'' = Some [c] \<Longrightarrow> map_of ns c = None \<Longrightarrow>
     p \<notin> set visited \<Longrightarrow> c \<notin> set visited \<Longrightarrow> reach_loop ns (p # stack) visited = None"
  by auto

end
