(* ===== verification/Spec2Isabelle.thy ===== *)
theory Spec2Isabelle
  imports Cbor_Correct Coap_Correct Yang_Print Yang_Sid Yang_Continue Yang_Built Fercc_Commands Fercc_Wire Coap_Retransmit
    Mup1_Interrupted Yang_Json_Schema_Correct Yang_Catalog_Correct
begin

text \<open>
  A model of fercc, a command line client that configures devices over their serial port. It
  reads data of YANG models as JSON or YAML, encodes it as CBOR with SIDs for names, and
  exchanges it with the device in CoAP requests, each of them a frame of the MUP1 protocol.

  \<^bold>\<open>The program.\<close> Five crates under \<open>src/\<close>, from the bottom up. \<open>cbor\<close> encodes and decodes data
  items. \<open>mup1\<close> frames payloads on a serial line, a TCP connection or a telnet session that
  carries console output as well. \<open>coap\<close> runs a request over the frames: it sends a message,
  polls the MUP1 client for replies, retransmits, and moves bodies and responses in blocks.
  \<open>yang\<close> parses YANG modules and SID files, builds a schema of them (an arena of nodes with an
  index of SIDs), converts between JSON and CBOR under that schema, exports it as JSON Schema and
  as a catalog document, and verifies such a document. \<open>fercc\<close> reads the options, loads a schema,
  and runs a command: \<open>conv\<close>, \<open>schema\<close> and \<open>catalog\<close> offline, and the methods of the device.

  \<^bold>\<open>Theories that model the code.\<close> Records and datatypes carry the names of the Rust types, and
  definitions those of the functions. A function on \<open>&mut self\<close> returns the new record, a fallible
  one a value of a sum type (\<open>Inl\<close> the error), \<open>?\<close> is \<open>rbind\<close>, and a panic is \<open>None\<close> or an error
  constructor of its own.

  \<^item> \<open>Prelude\<close>: machine integers, byte strings, text, results; \<open>Machine\<close>: runs of a step
    function that may fail.
  \<^item> \<open>Cbor_Value\<close>, \<open>Cbor_Encode\<close>, \<open>Cbor_Decode\<close>: \<open>src/cbor/src\<close>. The decoder is a function of the
    input and a position; an \<open>i128\<close> is an integer.
  \<^item> \<open>Mup1_Checksum\<close>, \<open>Mup1_Frame\<close>, \<open>Mup1_Client\<close>, \<open>Mup1_Transport\<close>: \<open>src/mup1/src\<close>. The decoder is a
    record with the raw buffer, the open attempt and the completed frames; a poll takes the
    result of one transport read and the clock.
  \<^item> \<open>Coap_Message\<close>, \<open>Coap_Client\<close>: \<open>src/coap/src\<close>. The request loop is a state machine whose events are
    its iterations: the frames polled, the time, and whether a write fails.
  \<^item> \<open>Yang_Parser\<close> (\<open>parser.rs\<close>), \<open>Yang_Sid\<close> (\<open>sid.rs\<close>): the statements of a module, with a
    position for every error, and SID files.
  \<^item> \<open>Yang_Schema\<close>, \<open>Yang_Arena\<close>, \<open>Yang_Builder\<close>, \<open>Yang_Build_Types\<close>, \<open>Yang_Build_Nodes\<close>, \<open>Yang_Build\<close>:
    \<open>schema.rs\<close>. The builder is one record; statements, SIDs, deviations, leafrefs, and the
    identities and typedefs in use are passes over it, and \<open>finish\<close> makes the schema. A reference
    is an index into its arena.
  \<^item> \<open>Yang_Json\<close>, \<open>Yang_Values\<close>, \<open>Yang_Types\<close>, \<open>Yang_Bodies\<close>, \<open>Yang_Codec\<close>: \<open>codec.rs\<close>, from JSON values
    with ordered members through values, types, instance identifiers and bodies to whole trees
    and CBOR sequences.
  \<^item> \<open>Yang_Json_Schema\<close> (\<open>json_schema.rs\<close>), \<open>Yang_Catalog_Files\<close> (\<open>catalog.rs\<close>),
    \<open>Yang_Catalog_Document\<close> and \<open>Yang_Catalog_Verify\<close> (\<open>yang_catalog.rs\<close>).
  \<^item> \<open>Fercc_Options\<close> (\<open>opts.rs\<close>, \<open>io.rs\<close>), \<open>Fercc_Convert\<close>, \<open>Fercc_Device\<close> and \<open>Fercc_Commands\<close> (\<open>lib.rs\<close>,
    \<open>topology.rs\<close>, \<open>home.rs\<close>): the composition, up to \<open>run\<close>.

  \<^bold>\<open>Theories that prove.\<close>

  \<^item> \<open>Cbor_Grammar\<close> states the supported part of RFC 8949 as a grammar without positions, and
    \<open>Cbor_Correct\<close> that the decoder accepts exactly that grammar and inverts the encoder.
  \<^item> \<open>Mup1_Wire\<close> and \<open>Mup1_Correct\<close>: the wire form of a frame, the invariant of the decoder, no panic
    outside the one case found, authentic frames, whole lines. \<open>Mup1_Interrupted\<close> is about that
    case: what a \<open>get\<close> inside a checksum does to any frame. \<open>Mup1_Polls\<close>: frames whose bytes
    arrive in pieces. \<open>Mup1_Checksum\<close> relates both checksums to their definitions.
  \<^item> \<open>Coap_Wire\<close> and \<open>Coap_Correct\<close>: messages survive the wire; the loop never panics; bodies and
    responses arrive whole. \<open>Coap_Retransmit\<close> counts the copies of each message on the wire: at most
    six, and exactly six for a silent device, whenever it is polled. \<open>Coap_Upload\<close>: every message
    of an upload, from the first transmission to the last acknowledgement.
  \<^item> \<open>Yang_Print\<close>: printed statements are parsed back.
  \<^item> \<open>Yang_Values_Correct\<close>, \<open>Yang_Leaf\<close>, \<open>Yang_Fields\<close>, \<open>Yang_Tree\<close>, \<open>Yang_Sequence\<close>, \<open>Yang_Continue\<close>: data
    survives the codec, from base64 and bits to whole trees, and \<open>--continue\<close> is conservative.
    \<open>tidy\<close> is the rule-based description of data that fits a schema and whose leaves are
    \<open>canonical\<close>: in the form the decoder writes. It leaves out decimal64, union and
    instance-identifier leaves; a decimal is exact on the wire (\<open>decimal64_on_the_wire\<close>), but the
    decoder prints it through a float.
  \<^item> \<open>Yang_Build_Invariant\<close>, \<open>Yang_Build_Passes\<close>, \<open>Yang_Built\<close>: every handler of statements and every
    pass keeps the arena, the links, the SIDs and the identity graph, so a built schema is as
    the codec needs it.
  \<^item> \<open>Yang_Json_Valid\<close> defines what a draft-07 validator does with every keyword that the generator
    writes; its search of regular expressions is a parameter that agrees with the codec's.
    \<open>Yang_Json_Schema_Correct\<close> shows that the generated schema accepts the tidy data that the codec
    encodes, and where there is none. \<open>Yang_Catalog_Correct\<close>: a document that passes the verifier
    is consistent; \<open>refers\<close> collects every place where it names an entry.
  \<^item> \<open>Fercc_Wire\<close> composes the layers: a get returns the tree the device holds, and the blocks
    of a put are the encoding of its tree. \<open>Fercc_Convert\<close> runs \<open>conv\<close> on its own output.
    \<open>Yang_Sample\<close> and \<open>Yang_Build_Sample\<close> hold the small schema and
    modules of the examples.

  \<^bold>\<open>Interfaces.\<close> \<open>safe_machine\<close> (a step that keeps an invariant never fails) is interpreted on the
  MUP1 decoder and on the CoAP loop; \<open>item_stream\<close> and \<open>item_loop\<close> (self-delimiting items and
  the loop over them) on the CBOR crate and the codec; \<open>named_fields\<close> (look-ups by name and by
  SID agree) on bodies and on the top level; \<open>type_reading\<close> and \<open>interpreting\<close> (what the
  interpreter of a nested type or statement keeps) on the builder at every depth.

  \<^bold>\<open>Bounds and fuel.\<close> Where the code recurses without a measure the model takes the depth of
  nested calls, which in the program is the stack: in the builder and in the type functions
  (a typedef, a union member or a leafref goes one deeper). At depth 0 they give an error
  value, as the stack overflow of the code gives no result; theorems hold at every depth,
  and those that conclude success have the success of one call among their assumptions.
  Walks of the arena take the number of its nodes, which is enough because children and
  parents lie in a tree (\<open>spliced_within_more\<close>, \<open>node_chain_unfold\<close>, \<open>subtree_closed\<close>); the walk up
  from a node in the verifier takes the number of nodes plus one, and is \<open>None\<close> where the
  code does not end. Lexer, parser, decoder and the loops over blocks and polls have
  termination proofs and no fuel. Integers keep their width where the code relies on it, and
  additions wrap around as they do in release builds; lengths are natural numbers, with the
  bounds of \<open>usize\<close> as assumptions where they matter.

  \<^bold>\<open>Differences of form.\<close> Hash maps are lists in the order of insertion. Messages of errors are
  constructors with the values they quote, and the texts of the verifier are shortened. A
  typedef without a type is an error value where the code panics, and the pass over the
  typedefs in use skips it. A list of the document with an unreadable element counts as a
  panic as a whole.

  \<^bold>\<open>Parameters.\<close> What is not in the repository is an argument: clap, the JSON and YAML crates,
  regular expressions (\<open>regex_lite\<close>), the texts of floating-point numbers, the file system, the
  commands that are run, gunzip and tar, the serial port and the sockets, and the clock.

  \<^bold>\<open>Not modelled.\<close> \<open>src/fercc/src/main.rs\<close>, which calls \<open>run\<close> and prints its error; the re-exports of the
  crates; tests, fixtures and the example \<open>hw_ping.rs\<close>; \<open>Display\<close> and \<open>From\<close> instances of errors and the
  output of \<open>--verbose\<close>, which no result depends on; the system calls inside the transports.
\<close>

end
